(* ===== verification/Cpp_Prelude.thy ===== *)
theory Cpp_Prelude
  imports Main "HOL-Library.Word"
begin

text \<open>
  The prelude of the development: machine integers of the platform the model fixes (LP64,
  little endian), the errors a C++ operation can end in, the block copy \<open>memcpy\<close> on memory
  regions, and the little-endian object representation of unsigned integers, with the lemmas the
  components share.
\<close>

section \<open>Bytes, machine integers and errors\<close>

type_synonym byte = "8 word"

text \<open>
  Conversion of an arbitrary integer to \<open>size_t\<close> (64 bits, unsigned) and to the signed types
  \<open>int64_t\<close> and \<open>int\<close>.  Arithmetic of the source is written over \<open>int\<close> and converted where the
  source's type wraps.
\<close>

definition wrap64 :: "int \<Rightarrow> nat" where
  "wrap64 x = nat (x mod 2 ^ 64)"

definition i64 :: "int \<Rightarrow> int" where
  "i64 x = (x + 2 ^ 63) mod 2 ^ 64 - 2 ^ 63"

definition i32 :: "int \<Rightarrow> int" where
  "i32 x = (x + 2 ^ 31) mod 2 ^ 32 - 2 ^ 31"

text \<open>
  How an operation of the source can end other than by returning: a C++ exception, an access the
  language leaves undefined (the model stops there; so does a shift by the width or the use of
  memory that was given back), a call of
  \<open>std::terminate\<close>, a failed allocation that is used all the
  same, or more loop iterations or nested calls than the bound handed to the model.
\<close>

datatype cpp_error =
    Null_deref
  | Out_of_bounds
  | Runtime_error string
  | Invalid_argument string
  | Out_of_range string
  | Bad_alloc
  | Bad_shift
  | Dangling
  | Std_terminate
  | Out_of_fuel

type_synonym 'a cpp = "cpp_error + 'a"

text \<open>Sequential composition: the first error ends the computation.\<close>

definition bindE :: "'e + 'a \<Rightarrow> ('a \<Rightarrow> 'e + 'b) \<Rightarrow> 'e + 'b" where
  "bindE m f = (case m of Inl e \<Rightarrow> Inl e | Inr x \<Rightarrow> f x)"

text \<open>A counting loop: the body is run for each index in turn.\<close>

fun forE :: "nat list \<Rightarrow> (nat \<Rightarrow> 's \<Rightarrow> 's cpp) \<Rightarrow> 's \<Rightarrow> 's cpp" where
  "forE [] f s = Inr s"
| "forE (i # is) f s = bindE (f i s) (forE is f)"

text \<open>The directions and the flags of \<open>std::streambuf::seekoff\<close>.\<close>

datatype seekdir = Beg | Cur | End

record openmode =
  m_in :: bool
  m_out :: bool

abbreviation only_in :: openmode where
  "only_in \<equiv> \<lparr>m_in = True, m_out = False\<rparr>"

abbreviation only_out :: openmode where
  "only_out \<equiv> \<lparr>m_in = False, m_out = True\<rparr>"

text \<open>\<open>memcpy (m + i) src (length src)\<close>, and reading \<open>n\<close> bytes at \<open>m + i\<close>.\<close>

definition blit :: "nat \<Rightarrow> 'a list \<Rightarrow> 'a list \<Rightarrow> 'a list" where
  "blit i src m = take i m @ src @ drop (i + length src) m"

definition slice :: "nat \<Rightarrow> nat \<Rightarrow> 'a list \<Rightarrow> 'a list" where
  "slice i n m = take n (drop i m)"

text \<open>The bytes of an unsigned integer in memory, and the integer in a run of bytes.\<close>

fun le_bytes :: "nat \<Rightarrow> nat \<Rightarrow> byte list" where
  "le_bytes 0 v = []"
| "le_bytes (Suc n) v = word_of_nat v # le_bytes n (v div 256)"

fun le_val :: "byte list \<Rightarrow> nat" where
  "le_val [] = 0"
| "le_val (b # bs) = unat b + 256 * le_val bs"

section \<open>Shared facts\<close>

named_theorems blit_simps \<open>copying into and reading out of a memory region\<close>
named_theorems bind_elims \<open>how a composed computation returns\<close>

lemma bindE_Inl [simp]: "bindE (Inl e) f = Inl e"
  by (simp add: bindE_def)

lemma bindE_Inr [simp]: "bindE (Inr x) f = f x"
  by (simp add: bindE_def)

lemma bindE_eq_Inr [bind_elims]: "bindE m f = Inr y \<longleftrightarrow> (\<exists>x. m = Inr x \<and> f x = Inr y)"
  by (cases m) auto

lemma bindE_assoc: "bindE (bindE m f) g = bindE m (\<lambda>x. bindE (f x) g)"
  by (cases m) auto

lemma bindE_Inr_right [simp]: "bindE m Inr = m"
  by (cases m) auto

lemma forE_Nil_return [simp]: "forE [] f = Inr"
  by (rule ext) simp

lemma forE_append: "forE (xs @ ys) f s = bindE (forE xs f s) (forE ys f)"
proof -
  have "forE (xs @ ys) f = (\<lambda>s. bindE (forE xs f s) (forE ys f))"
    by (induction xs) (auto simp: bindE_assoc)
  then show ?thesis by simp
qed

lemma forE_upt_rec: "i < n \<Longrightarrow> forE [i..<n] f s = bindE (f i s) (forE [Suc i..<n] f)"
  by (simp add: upt_conv_Cons)

lemma forE_upt_split: "i + m \<le> n \<Longrightarrow> forE [i..<n] f s = bindE (forE [i..<i + m] f s) (forE [i + m..<n] f)"
  using upt_add_eq_append [of i "i + m" "n - (i + m)"] by (simp add: forE_append [symmetric])

lemma two_le_SucE:
  assumes "2 \<le> (n::nat)"
  obtains m where "n = Suc (Suc m)"
proof
  show "n = Suc (Suc (n - 2))" using assms by simp
qed

lemma wrap64_id [simp]: "0 \<le> x \<Longrightarrow> x < 2 ^ 64 \<Longrightarrow> wrap64 x = nat x"
  by (simp add: wrap64_def)

lemma wrap64_less: "wrap64 x < 2 ^ 64"
proof -
  have "x mod 2 ^ 64 < (2 ^ 64 :: int)" by simp
  then have "nat (x mod 2 ^ 64) < nat (2 ^ 64 :: int)" by (subst nat_less_eq_zless) simp_all
  then show ?thesis by (simp add: wrap64_def)
qed

lemma i64_id [simp]: "- (2 ^ 63) \<le> x \<Longrightarrow> x < 2 ^ 63 \<Longrightarrow> i64 x = x"
  by (simp add: i64_def)

lemma i32_id [simp]: "- (2 ^ 31) \<le> x \<Longrightarrow> x < 2 ^ 31 \<Longrightarrow> i32 x = x"
  by (simp add: i32_def)

lemma length_blit [blit_simps]:
  "i + length src \<le> length m \<Longrightarrow> length (blit i src m) = length m"
  by (simp add: blit_def)

lemma nth_blit:
  assumes "i + length src \<le> length m" and "k < length m"
  shows "blit i src m ! k = (if i \<le> k \<and> k < i + length src then src ! (k - i) else m ! k)"
proof -
  have "length (take i m) = i" using assms by simp
  then show ?thesis using assms
    by (auto simp: blit_def nth_append add.commute)
qed

lemma take_blit [blit_simps]:
  "i \<le> length m \<Longrightarrow> take (i + length src) (blit i src m) = take i m @ src"
  by (simp add: blit_def)

lemma take_before_blit [blit_simps]: "i \<le> length m \<Longrightarrow> take i (blit i src m) = take i m"
  by (simp add: blit_def)

lemma drop_after_blit [blit_simps]:
  "i \<le> length m \<Longrightarrow> drop (i + length src) (blit i src m) = drop (i + length src) m"
  by (simp add: blit_def)

lemma blit_Nil [simp]: "blit i [] m = m"
  by (simp add: blit_def)

lemma blit_blit_append [blit_simps]:
  assumes "i + length a \<le> length m"
  shows "blit (i + length a) b (blit i a m) = blit i (a @ b) m"
proof -
  have "take (i + length a) (blit i a m) = take i m @ a"
    using assms by (simp add: take_blit)
  moreover have "drop (i + length a + length b) (blit i a m) = drop (i + length a + length b) m"
    using assms by (simp add: blit_def add.commute)
  ultimately show ?thesis
    by (simp only: blit_def [of "i + length a"] blit_def [of i "a @ b"] length_append
        append_assoc add.assoc)
qed

lemma length_slice [simp]: "length (slice i n m) = min n (length m - i)"
  by (simp add: slice_def)

lemma nth_slice: "k < n \<Longrightarrow> i + k < length m \<Longrightarrow> slice i n m ! k = m ! (i + k)"
  by (simp add: slice_def)

lemma slice_0 [simp]: "slice i 0 m = []"
  by (simp add: slice_def)

lemma slice_from_0 [simp]: "slice 0 n m = take n m"
  by (simp add: slice_def)

lemma slice_append_slice: "slice i a m @ slice (i + a) b m = slice i (a + b) m"
  by (simp add: slice_def take_add add.commute)

lemma slice_blit [blit_simps]:
  "i \<le> length m \<Longrightarrow> slice i (length src) (blit i src m) = src"
  by (simp add: slice_def blit_def)

lemma slice_past_blit:
  "i + length src \<le> j \<Longrightarrow> i \<le> length m \<Longrightarrow> slice j n (blit i src m) = slice j n m"
  by (simp add: slice_def blit_def)

lemma unat_byte_less: "unat (b :: byte) < 256"
  using unsigned_less [of b, where 'a = nat] by simp

lemma length_le_bytes [simp]: "length (le_bytes n v) = n"
  by (induction n arbitrary: v) auto

lemma le_val_less: "le_val bs < 256 ^ length bs"
proof (induction bs)
  case (Cons b bs)
  have "unat b < 256" by (rule unat_byte_less)
  with Cons.IH have "unat b + 256 * le_val bs < 256 * 256 ^ length bs"
    by linarith
  then show ?case by simp
qed simp

lemma unat_byte_of_nat: "unat (word_of_nat v :: byte) = v mod 256"
  by (simp add: unat_of_nat)

lemma le_val_le_bytes: "v < 256 ^ n \<Longrightarrow> le_val (le_bytes n v) = v"
proof (induction n arbitrary: v)
  case (Suc n)
  have "v div 256 < 256 ^ n" using Suc.prems by (simp add: less_mult_imp_div_less mult.commute)
  then show ?case using Suc.IH by (simp add: unat_byte_of_nat)
qed simp

lemma le_bytes_le_val: "le_bytes (length bs) (le_val bs) = bs"
proof (induction bs)
  case (Cons b bs)
  have lt: "unat b < 256" by (rule unat_byte_less)
  have "unat (word_of_nat (unat b + 256 * le_val bs) :: byte) = unat b"
    using lt by (simp only: unat_byte_of_nat) simp
  then have "(word_of_nat (unat b + 256 * le_val bs) :: byte) = b"
    by (rule injD [OF inj_unsigned])
  then show ?case using lt Cons.IH by simp
qed simp

end
