(* ===== verification/Streambuf.thy ===== *)
theory Streambuf
  imports Cpp_Prelude
begin

text \<open>
  The interface a bounded stream buffer of the library offers.  \<open>bounded_fifo\<close> is the contract of the ring
  buffer with its clients: what is put comes out once, in order, and never more than the capacity
  is held.  A component interprets it on its model; the facts its clients use are proved here once.
\<close>

section \<open>A bounded first-in first-out buffer\<close>

text \<open>
  A run of a buffer: each element is a chunk to put or a number of bytes to get.  The result is
  what went in, what came out, and the last state.
\<close>

fun fifo_run :: "(byte list \<Rightarrow> 's \<Rightarrow> (nat \<times> 's) cpp) \<Rightarrow> (nat \<Rightarrow> 's \<Rightarrow> (byte list \<times> 's) cpp) \<Rightarrow>
  (byte list + nat) list \<Rightarrow> 's \<Rightarrow> (byte list \<times> byte list \<times> 's) cpp" where
  "fifo_run put get [] s = Inr ([], [], s)"
| "fifo_run put get (Inl bs # ops) s = bindE (put bs s) (\<lambda>(k, s').
     bindE (fifo_run put get ops s') (\<lambda>(i, out, s''). Inr (take k bs @ i, out, s'')))"
| "fifo_run put get (Inr n # ops) s = bindE (get n s) (\<lambda>(r, s').
     bindE (fifo_run put get ops s') (\<lambda>(i, out, s''). Inr (i, r @ out, s'')))"

locale bounded_fifo =
  fixes put :: "byte list \<Rightarrow> 's \<Rightarrow> (nat \<times> 's) cpp"
    and get :: "nat \<Rightarrow> 's \<Rightarrow> (byte list \<times> 's) cpp"
    and contents :: "'s \<Rightarrow> byte list"
    and capacity :: "'s \<Rightarrow> nat"
    and inv :: "'s \<Rightarrow> bool"
  assumes bounded: "inv s \<Longrightarrow> length (contents s) \<le> capacity s"
    and put_ok: "inv s \<Longrightarrow> \<exists>k s'. put bs s = Inr (k, s') \<and> inv s' \<and>
          k = min (length bs) (capacity s - length (contents s)) \<and>
          contents s' = contents s @ take k bs \<and> capacity s' = capacity s"
    and get_ok: "inv s \<Longrightarrow> \<exists>s'. get n s = Inr (take n (contents s), s') \<and> inv s' \<and>
          contents s' = drop n (contents s) \<and> capacity s' = capacity s"
begin

lemma run_fifo:
  "inv s \<Longrightarrow> \<exists>i out s'. fifo_run put get ops s = Inr (i, out, s') \<and> inv s' \<and>
     capacity s' = capacity s \<and> contents s @ i = out @ contents s'"
proof (induction ops arbitrary: s)
  case (Cons x ops)
  show ?case
  proof (cases x)
    case (Inl bs)
    obtain k s1 where p: "put bs s = Inr (k, s1)" "inv s1" "contents s1 = contents s @ take k bs"
        "capacity s1 = capacity s"
      using put_ok [OF Cons.prems] by blast
    from Cons.IH [OF p(2)] show ?thesis using p Inl by (auto split: prod.splits)
  next
    case (Inr n)
    obtain s1 where g: "get n s = Inr (take n (contents s), s1)" "inv s1"
        "contents s1 = drop n (contents s)" "capacity s1 = capacity s"
      using get_ok [OF Cons.prems] by blast
    obtain i out s' where r: "fifo_run put get ops s1 = Inr (i, out, s')" "inv s'" "capacity s' = capacity s1"
        "contents s1 @ i = out @ contents s'"
      using Cons.IH [OF g(2)] by blast
    have "contents s @ i = take n (contents s) @ contents s1 @ i"
      by (simp add: g(3))
    with r(4) have "contents s @ i = take n (contents s) @ out @ contents s'"
      by simp
    with r g show ?thesis unfolding Inr by simp
  qed
qed simp

lemma run_occupancy:
  assumes "inv s" and "fifo_run put get ops s = Inr (i, out, s')"
  shows "length (contents s') \<le> capacity s"
  using run_fifo [OF assms(1), of ops] assms(2) bounded [of s'] by auto

lemma put_get:
  assumes "inv s" and "length (contents s) + length bs \<le> capacity s"
  shows "\<exists>s1 s2. put bs s = Inr (length bs, s1) \<and>
     get (length (contents s) + length bs) s1 = Inr (contents s @ bs, s2) \<and> contents s2 = []"
proof -
  obtain s1 where p: "put bs s = Inr (length bs, s1)" "inv s1" "contents s1 = contents s @ bs"
    using put_ok [OF assms(1), of bs] assms(2) by auto
  from get_ok [OF p(2), of "length (contents s) + length bs"] p show ?thesis by auto
qed

end

section \<open>What std::streambuf does by itself\<close>

text \<open>
  The default \<open>xsgetn\<close> takes what the get area holds and then calls \<open>uflow\<close>, again and again until it
  has enough or there is no more.  The number bounds the rounds.
\<close>

fun default_xsgetn ::
  "(nat \<Rightarrow> 's \<Rightarrow> (byte list \<times> 's) cpp) \<Rightarrow> ('s \<Rightarrow> (byte option \<times> 's) cpp) \<Rightarrow> nat \<Rightarrow> nat \<Rightarrow> 's \<Rightarrow>
   (byte list \<times> 's) cpp" where
  "default_xsgetn area uflow 0 n b = Inl Out_of_fuel"
| "default_xsgetn area uflow (Suc f) n b =
     bindE (area n b) (\<lambda>(bs, b).
       if length bs = n then Inr (bs, b)
       else bindE (uflow b) (\<lambda>(c, b).
         (case c of
            None \<Rightarrow> Inr (bs, b)
          | Some c \<Rightarrow> bindE (default_xsgetn area uflow f (n - length bs - 1) b) (\<lambda>(cs, b).
              Inr (bs @ c # cs, b)))))"

end
