(* ===== verification/Ringbuf.thy ===== *)
theory Ringbuf
  imports Streambuf
begin

text \<open>
  \<open>iostreams::ringbuf\<close> of include/iostreams/ring_streambuf.hpp: a stream buffer over a region of
  shared memory that starts with a \<open>ring_header\<close> (the atomic \<open>head\<close> and \<open>tail\<close>) and holds a ring of
  \<open>ringbuffer_size\<close> bytes after it.  This theory models one thread using the buffer; two threads
  are the subject of theory \<open>Ringbuf_Spsc\<close>.
\<close>

section \<open>State\<close>

text \<open>
  A pointer that may be null is an option: \<open>head_ptr = Some h\<close> says that the pointer is set and
  that the atomic it points to holds \<open>h\<close>.  The ring's memory can be reached through one object
  only (copying is deleted), so it is part of the object's state.  \<open>sizeof (ring_header)\<close> is two
  64-bit atomics.
\<close>

definition sizeof_ring_header :: nat where
  "sizeof_ring_header = 16"

record ringbuf =
  buffer :: "byte list option"
  buffer_size :: nat
  ringbuffer_size :: nat
  ringbuffer :: "byte list option"
  head_ptr :: "nat option"
  tail_ptr :: "nat option"
  non_blocking :: bool

definition ringbuf_default :: ringbuf where
  "ringbuf_default = \<lparr>buffer = None, buffer_size = 0, ringbuffer_size = 0, ringbuffer = None,
     head_ptr = None, tail_ptr = None, non_blocking = False\<rparr>"

definition ringbuf_ctor :: "byte list option \<Rightarrow> nat \<Rightarrow> bool \<Rightarrow> ringbuf" where
  "ringbuf_ctor mem total_size nb =
     \<lparr>buffer = mem, buffer_size = total_size,
      ringbuffer_size =
        (if total_size > sizeof_ring_header then total_size - sizeof_ring_header else 1),
      ringbuffer = map_option (drop sizeof_ring_header) mem,
      head_ptr = map_option (\<lambda>_. 0) mem, tail_ptr = map_option (\<lambda>_. 0) mem,
      non_blocking = nb\<rparr>"

text \<open>Moving transfers every field and nulls the source's pointers; its sizes stay.\<close>

definition moved_from :: "ringbuf \<Rightarrow> ringbuf" where
  "moved_from other = other\<lparr>buffer := None, ringbuffer := None, head_ptr := None, tail_ptr := None\<rparr>"

definition ringbuf_move_ctor :: "ringbuf \<Rightarrow> ringbuf \<times> ringbuf" where
  "ringbuf_move_ctor other =
     (\<lparr>buffer = buffer other, buffer_size = buffer_size other,
       ringbuffer_size = ringbuffer_size other, ringbuffer = ringbuffer other,
       head_ptr = head_ptr other, tail_ptr = tail_ptr other,
       non_blocking = non_blocking other\<rparr>, moved_from other)"

definition ringbuf_move_assign :: "ringbuf \<Rightarrow> ringbuf \<Rightarrow> ringbuf \<times> ringbuf" where
  "ringbuf_move_assign this other =
     (this\<lparr>buffer := buffer other, buffer_size := buffer_size other,
       ringbuffer := ringbuffer other, ringbuffer_size := ringbuffer_size other,
       head_ptr := head_ptr other, tail_ptr := tail_ptr other,
       non_blocking := non_blocking other\<rparr>, moved_from other)"

section \<open>Operations\<close>

text \<open>The \<open>size_t\<close> arithmetic of the two counters, wrap-around included.\<close>

definition used :: "nat \<Rightarrow> nat \<Rightarrow> nat \<Rightarrow> nat" where
  "used n h t = wrap64 (int h + int n - int t) mod n"

definition free :: "nat \<Rightarrow> nat \<Rightarrow> nat \<Rightarrow> nat" where
  "free n h t = wrap64 (int n - 1 + int t - int h) mod n"

definition available_read :: "ringbuf \<Rightarrow> nat cpp" where
  "available_read rb = (case (head_ptr rb, tail_ptr rb) of
     (Some h, Some t) \<Rightarrow> Inr (used (ringbuffer_size rb) h t)
   | _ \<Rightarrow> Inl Null_deref)"

definition available_write :: "ringbuf \<Rightarrow> nat cpp" where
  "available_write rb = (case (head_ptr rb, tail_ptr rb) of
     (Some h, Some t) \<Rightarrow> Inr (free (ringbuffer_size rb) h t)
   | _ \<Rightarrow> Inl Null_deref)"

text \<open>The two \<open>memcpy\<close> calls of a write at \<open>h\<close> and of a read at \<open>t\<close>.\<close>

definition ring_put :: "nat \<Rightarrow> nat \<Rightarrow> byte list \<Rightarrow> byte list \<Rightarrow> byte list" where
  "ring_put n h bs data =
     (let chunk = length bs; e = min chunk (n - h);
          data1 = blit h (take e bs) data
      in if chunk > e then blit 0 (drop e bs) data1 else data1)"

definition ring_get :: "nat \<Rightarrow> nat \<Rightarrow> nat \<Rightarrow> byte list \<Rightarrow> byte list" where
  "ring_get n t chunk data =
     (let e = min chunk (n - t)
      in slice t e data @ (if chunk > e then slice 0 (chunk - e) data else []))"

text \<open>
  The loops of \<open>write_internal\<close> and \<open>read_internal\<close>, one call of the model per iteration; the first
  argument bounds the iterations.  \<open>std::this_thread::yield\<close> does not change the state.
\<close>

fun write_internal_loop ::
  "nat \<Rightarrow> byte list \<Rightarrow> nat \<Rightarrow> nat \<Rightarrow> nat \<Rightarrow> ringbuf \<Rightarrow> (nat \<times> ringbuf) cpp" where
  "write_internal_loop 0 s n written full_spins rb = Inl Out_of_fuel"
| "write_internal_loop (Suc fuel) s n written full_spins rb =
    (if written < n then
       (case (head_ptr rb, tail_ptr rb, ringbuffer rb) of
          (Some h, Some t, Some data) \<Rightarrow>
            (let avail = free (ringbuffer_size rb) h t in
             if avail = 0 then
               (if non_blocking rb then
                  (if written > 0 \<or> full_spins > 100 then Inr (written, rb)
                   else write_internal_loop fuel s n written (full_spins + 1) rb)
                else write_internal_loop fuel s n written full_spins rb)
             else
               (let chunk = min avail (n - written);
                    data' = ring_put (ringbuffer_size rb) h (slice written chunk s) data
                in write_internal_loop fuel s n (written + chunk) full_spins
                     (rb\<lparr>ringbuffer := Some data',
                         head_ptr := Some ((h + chunk) mod ringbuffer_size rb)\<rparr>)))
        | _ \<Rightarrow> Inl Null_deref)
     else Inr (written, rb))"

definition write_internal :: "nat \<Rightarrow> byte list \<Rightarrow> nat \<Rightarrow> ringbuf \<Rightarrow> (nat \<times> ringbuf) cpp" where
  "write_internal fuel s n rb = write_internal_loop fuel s n 0 0 rb"

fun read_internal_loop ::
  "nat \<Rightarrow> byte list \<Rightarrow> nat \<Rightarrow> nat \<Rightarrow> nat \<Rightarrow> ringbuf \<Rightarrow> (byte list \<times> ringbuf) cpp" where
  "read_internal_loop 0 s n read_bytes empty_spins rb = Inl Out_of_fuel"
| "read_internal_loop (Suc fuel) s n read_bytes empty_spins rb =
    (if read_bytes < n then
       (case (head_ptr rb, tail_ptr rb, ringbuffer rb) of
          (Some h, Some t, Some data) \<Rightarrow>
            (let avail = used (ringbuffer_size rb) h t in
             if avail = 0 then
               (if non_blocking rb then
                  (if read_bytes > 0 \<or> empty_spins > 1000000 then Inr (s, rb)
                   else read_internal_loop fuel s n read_bytes (empty_spins + 1) rb)
                else read_internal_loop fuel s n read_bytes empty_spins rb)
             else
               (let chunk = min avail (n - read_bytes)
                in read_internal_loop fuel (s @ ring_get (ringbuffer_size rb) t chunk data) n
                     (read_bytes + chunk) empty_spins
                     (rb\<lparr>tail_ptr := Some ((t + chunk) mod ringbuffer_size rb)\<rparr>)))
        | _ \<Rightarrow> Inl Null_deref)
     else Inr (s, rb))"

definition read_internal :: "nat \<Rightarrow> nat \<Rightarrow> ringbuf \<Rightarrow> (byte list \<times> ringbuf) cpp" where
  "read_internal fuel n rb = read_internal_loop fuel [] n 0 0 rb"

text \<open>
  \<open>xsputn\<close> and \<open>xsgetn\<close> with the bounds the loops need when the buffer does not block: at most
  102 iterations without progress on a write, 1000002 on a read, and two with.
\<close>

definition write_fuel :: nat where "write_fuel = 104"
definition read_fuel :: nat where "read_fuel = 1000004"

definition ringbuf_xsputn :: "byte list \<Rightarrow> ringbuf \<Rightarrow> (nat \<times> ringbuf) cpp" where
  "ringbuf_xsputn s rb = write_internal write_fuel s (length s) rb"

definition ringbuf_xsgetn :: "nat \<Rightarrow> ringbuf \<Rightarrow> (byte list \<times> ringbuf) cpp" where
  "ringbuf_xsgetn n rb = read_internal read_fuel n rb"

text \<open>
  \<open>seekoff\<close>: the offset is converted to \<open>size_t\<close> before the reduction modulo the ring's size.  The
  result is the new position, or \<open>-1\<close> when neither flag is given.
\<close>

definition ring_pos :: "nat \<Rightarrow> int \<Rightarrow> seekdir \<Rightarrow> nat \<Rightarrow> nat \<Rightarrow> nat" where
  "ring_pos cap off way pos other = (case way of
     Beg \<Rightarrow> wrap64 off mod cap
   | Cur \<Rightarrow> wrap64 (int pos + off) mod cap
   | End \<Rightarrow> other)"

definition ringbuf_seekoff :: "int \<Rightarrow> seekdir \<Rightarrow> openmode \<Rightarrow> ringbuf \<Rightarrow> (int \<times> ringbuf) cpp" where
  "ringbuf_seekoff off way which rb =
     (if m_out which then
        (case (head_ptr rb, tail_ptr rb) of
           (Some h, Some t) \<Rightarrow>
             (let pos = ring_pos (ringbuffer_size rb) off way h t
              in Inr (int pos, rb\<lparr>head_ptr := Some pos\<rparr>))
         | _ \<Rightarrow> Inl Null_deref)
      else if m_in which then
        (case (head_ptr rb, tail_ptr rb) of
           (Some h, Some t) \<Rightarrow>
             (let pos = ring_pos (ringbuffer_size rb) off way t h
              in Inr (int pos, rb\<lparr>tail_ptr := Some pos\<rparr>))
         | _ \<Rightarrow> Inl Null_deref)
      else Inr (-1, rb))"

definition ringbuf_seekpos :: "int \<Rightarrow> openmode \<Rightarrow> ringbuf \<Rightarrow> (int \<times> ringbuf) cpp" where
  "ringbuf_seekpos sp which rb = ringbuf_seekoff sp Beg which rb"

section \<open>Positions in the ring\<close>

text \<open>
  The invariant: both positions lie in the ring, its size is one an object can have, and the memory
  behind it has that size.  A region too small for a header gives a ring of size 1 whose memory is
  never touched.
\<close>

definition ring_ok :: "nat \<Rightarrow> nat \<Rightarrow> nat \<Rightarrow> byte list \<Rightarrow> bool" where
  "ring_ok n h t data \<longleftrightarrow> h < n \<and> t < n \<and> n < 2 ^ 63 \<and> (n = 1 \<or> length data = n)"

definition ring_contents :: "nat \<Rightarrow> nat \<Rightarrow> nat \<Rightarrow> byte list \<Rightarrow> byte list" where
  "ring_contents n h t data = map (\<lambda>i. data ! ((t + i) mod n)) [0..<used n h t]"

named_theorems ring_arith \<open>the counters and positions of a ring\<close>

lemma ring_mod [ring_arith]:
  "h < n \<Longrightarrow> a \<le> n \<Longrightarrow> (h + a) mod n = (if h + a < n then h + a else h + a - (n::nat))"
  by (simp add: mod_if)

lemma used_eq [ring_arith]:
  assumes "h < n" "t < n" "n < 2 ^ 63"
  shows "used n h t = (if t \<le> h then h - t else h + n - t)"
proof -
  have "wrap64 (int h + int n - int t) = h + n - t"
    using assms by (subst wrap64_id) auto
  then show ?thesis using assms by (simp add: used_def mod_if)
qed

lemma free_eq [ring_arith]:
  assumes "h < n" "t < n" "n < 2 ^ 63"
  shows "free n h t = (if h < t then t - h - 1 else n - 1 + t - h)"
proof -
  have "wrap64 (int n - 1 + int t - int h) = n - 1 + t - h"
    using assms by (subst wrap64_id) auto
  then show ?thesis using assms by (simp add: free_def mod_if)
qed

lemma used_free:
  assumes "h < n" "t < n" "n < 2 ^ 63"
  shows "used n h t + free n h t = n - 1"
  using assms by (simp add: ring_arith)

lemma ring_head:
  assumes "h < n" "t < n" "n < 2 ^ 63"
  shows "(t + used n h t) mod n = h"
  using assms by (simp add: used_eq mod_if)

lemma used_put:
  assumes "h < n" "t < n" "n < 2 ^ 63" "c \<le> free n h t"
  shows "used n ((h + c) mod n) t = used n h t + c"
  using assms by (auto simp: ring_arith split: if_splits)

lemma used_get:
  assumes "h < n" "t < n" "n < 2 ^ 63" "c \<le> used n h t"
  shows "used n h ((t + c) mod n) = used n h t - c"
  using assms by (auto simp: ring_arith split: if_splits)

lemma length_ring_contents [simp]: "length (ring_contents n h t data) = used n h t"
  by (simp add: ring_contents_def)

section \<open>Copying into and out of the ring\<close>

lemma length_ring_put:
  assumes "length data = n" "h < n" "length bs \<le> n"
  shows "length (ring_put n h bs data) = n"
  using assms by (simp add: ring_put_def Let_def length_blit)

lemma ring_put_nth:
  assumes "length data = n" "h < n" "length bs \<le> n" "j < n"
  shows "ring_put n h bs data ! ((h + j) mod n) =
    (if j < length bs then bs ! j else data ! ((h + j) mod n))"
proof (cases "length bs \<le> n - h")
  case True
  then have "ring_put n h bs data = blit h bs data"
    by (simp add: ring_put_def)
  moreover have "\<not> h \<le> h + j - n" if "n \<le> h + j" using assms that by simp
  ultimately show ?thesis using True assms
    by (auto simp: nth_blit ring_mod)
next
  case False
  define d where "d = blit h (take (n - h) bs) data"
  have d: "length d = n" "\<And>k. k < n \<Longrightarrow> d ! k = (if h \<le> k then bs ! (k - h) else data ! k)"
    using False assms by (auto simp: d_def length_blit nth_blit)
  have "ring_put n h bs data = blit 0 (drop (n - h) bs) d"
    using False by (simp add: ring_put_def d_def min_def Let_def)
  with False assms show ?thesis
    by (auto simp: nth_blit ring_mod d)
qed

lemma ring_get_eq:
  assumes "length data = n" "t < n" "c \<le> n"
  shows "ring_get n t c data = map (\<lambda>i. data ! ((t + i) mod n)) [0..<c]"
proof (rule nth_equalityI)
  show "length (ring_get n t c data) = length (map (\<lambda>i. data ! ((t + i) mod n)) [0..<c])"
    using assms by (auto simp: ring_get_def Let_def)
next
  fix i assume "i < length (ring_get n t c data)"
  then have "i < c" using assms by (auto simp: ring_get_def Let_def split: if_splits)
  then show "ring_get n t c data ! i = map (\<lambda>i. data ! ((t + i) mod n)) [0..<c] ! i"
    using assms by (auto simp: ring_get_def Let_def nth_append nth_slice ring_mod min_def
        add.commute [of i t])
qed

lemma contents_put:
  assumes "h < n" "t < n" "n < 2 ^ 63" "length data = n" "length bs \<le> free n h t"
  shows "ring_contents n ((h + length bs) mod n) t (ring_put n h bs data) =
    ring_contents n h t data @ bs"
proof (rule nth_equalityI)
  show "length (ring_contents n ((h + length bs) mod n) t (ring_put n h bs data)) =
      length (ring_contents n h t data @ bs)"
    using assms by (simp add: used_put)
next
  note uf = used_free [OF assms(1-3)] and hd = ring_head [OF assms(1-3)]
  have le: "length bs \<le> n" using assms(5) uf by simp
  fix i assume "i < length (ring_contents n ((h + length bs) mod n) t (ring_put n h bs data))"
  then have i: "i < used n h t + length bs" using assms by (simp add: used_put)
  have l: "ring_contents n ((h + length bs) mod n) t (ring_put n h bs data) ! i =
      ring_put n h bs data ! ((t + i) mod n)"
    using i assms by (simp add: ring_contents_def used_put)
  show "ring_contents n ((h + length bs) mod n) t (ring_put n h bs data) ! i =
      (ring_contents n h t data @ bs) ! i"
  proof (cases "i < used n h t")
    case True
    define j where "j = n - used n h t + i"
    have j: "j < n" "length bs \<le> j" using True uf assms(5) by (auto simp: j_def)
    have "(h + j) mod n = (t + used n h t + j) mod n"
      using hd by (metis mod_add_left_eq)
    also have "\<dots> = (t + i) mod n"
    proof -
      have "t + used n h t + j = n + (t + i)" using uf assms(1) by (simp add: j_def)
      then show ?thesis by (simp only: mod_add_self1)
    qed
    finally have ij: "(t + i) mod n = (h + j) mod n" by simp
    with l have "ring_contents n ((h + length bs) mod n) t (ring_put n h bs data) ! i =
        ring_put n h bs data ! ((h + j) mod n)" by (simp only:)
    also have "\<dots> = data ! ((t + i) mod n)"
      using j le assms ij by (simp add: ring_put_nth)
    finally show ?thesis using True by (simp add: nth_append ring_contents_def)
  next
    case False
    define j where "j = i - used n h t"
    have j: "j < length bs" "j < n" using False i uf assms(5) by (auto simp: j_def)
    have "(h + j) mod n = (t + used n h t + j) mod n"
      using hd by (metis mod_add_left_eq)
    then have "(t + i) mod n = (h + j) mod n"
      using False by (simp add: j_def)
    with l have "ring_contents n ((h + length bs) mod n) t (ring_put n h bs data) ! i =
        ring_put n h bs data ! ((h + j) mod n)" by (simp only:)
    also have "\<dots> = bs ! j"
      using j le assms by (simp only: ring_put_nth if_True)
    finally show ?thesis using False by (simp add: nth_append j_def)
  qed
qed

lemma contents_get:
  assumes "h < n" "t < n" "n < 2 ^ 63" "length data = n" "c \<le> used n h t"
  shows "ring_get n t c data = take c (ring_contents n h t data)"
    and "ring_contents n h ((t + c) mod n) data = drop c (ring_contents n h t data)"
proof -
  have "c \<le> n" using assms(5) used_free [OF assms(1-3)] by simp
  then show "ring_get n t c data = take c (ring_contents n h t data)"
    using assms by (simp add: ring_get_eq ring_contents_def take_map take_upt)
  show "ring_contents n h ((t + c) mod n) data = drop c (ring_contents n h t data)"
    using assms by (auto simp: ring_contents_def used_get intro!: nth_equalityI)
       (metis mod_add_left_eq add.assoc)
qed

section \<open>The loops\<close>

definition ringbuf_inv :: "ringbuf \<Rightarrow> bool" where
  "ringbuf_inv rb = (case (head_ptr rb, tail_ptr rb, ringbuffer rb) of
     (Some h, Some t, Some data) \<Rightarrow> ring_ok (ringbuffer_size rb) h t data
   | _ \<Rightarrow> False)"

definition contents :: "ringbuf \<Rightarrow> byte list" where
  "contents rb = (case (head_ptr rb, tail_ptr rb, ringbuffer rb) of
     (Some h, Some t, Some data) \<Rightarrow> ring_contents (ringbuffer_size rb) h t data
   | _ \<Rightarrow> [])"

definition capacity :: "ringbuf \<Rightarrow> nat" where
  "capacity rb = ringbuffer_size rb - 1"

lemma ringbuf_invE:
  assumes "ringbuf_inv rb"
  obtains h t data where "head_ptr rb = Some h" "tail_ptr rb = Some t" "ringbuffer rb = Some data"
    "h < ringbuffer_size rb" "t < ringbuffer_size rb" "ringbuffer_size rb < 2 ^ 63"
    "ringbuffer_size rb = 1 \<or> length data = ringbuffer_size rb"
    "contents rb = ring_contents (ringbuffer_size rb) h t data"
  using assms by (auto simp: ringbuf_inv_def ring_ok_def contents_def split: option.splits)

lemma ctor_inv:
  "length mem = total_size \<Longrightarrow> total_size < 2 ^ 63 \<Longrightarrow>
     ringbuf_inv (ringbuf_ctor (Some mem) total_size nb)"
  by (auto simp: ringbuf_inv_def ringbuf_ctor_def ring_ok_def sizeof_ring_header_def)

lemma ctor_contents: "total_size < 2 ^ 63 \<Longrightarrow> contents (ringbuf_ctor mem total_size nb) = []"
  by (cases mem) (auto simp: contents_def ringbuf_ctor_def ring_contents_def used_eq
      sizeof_ring_header_def)

text \<open>The state after \<open>k\<close> bytes went in or came out.\<close>

definition after_put :: "byte list \<Rightarrow> ringbuf \<Rightarrow> ringbuf" where
  "after_put bs rb = (if bs = [] then rb else
     rb\<lparr>ringbuffer := map_option (ring_put (ringbuffer_size rb) (the (head_ptr rb)) bs) (ringbuffer rb),
        head_ptr := Some ((the (head_ptr rb) + length bs) mod ringbuffer_size rb)\<rparr>)"

definition after_get :: "nat \<Rightarrow> ringbuf \<Rightarrow> ringbuf" where
  "after_get c rb = (if c = 0 then rb else
     rb\<lparr>tail_ptr := Some ((the (tail_ptr rb) + c) mod ringbuffer_size rb)\<rparr>)"

lemma after_put_ok:
  assumes "ringbuf_inv rb" and "length (contents rb) + length bs \<le> capacity rb"
  shows "ringbuf_inv (after_put bs rb)" "contents (after_put bs rb) = contents rb @ bs"
    "ringbuffer_size (after_put bs rb) = ringbuffer_size rb"
    "non_blocking (after_put bs rb) = non_blocking rb"
proof -
  obtain h t data where r: "head_ptr rb = Some h" "tail_ptr rb = Some t"
      "ringbuffer rb = Some data" "h < ringbuffer_size rb" "t < ringbuffer_size rb"
      "ringbuffer_size rb < 2 ^ 63" "ringbuffer_size rb = 1 \<or> length data = ringbuffer_size rb"
      "contents rb = ring_contents (ringbuffer_size rb) h t data"
    using assms(1) by (rule ringbuf_invE)
  show "ringbuffer_size (after_put bs rb) = ringbuffer_size rb"
    "non_blocking (after_put bs rb) = non_blocking rb"
    by (simp_all add: after_put_def)
  have le: "length bs \<le> free (ringbuffer_size rb) h t"
    using assms(2) r used_free [OF r(4-6)] by (simp add: capacity_def)
  show "ringbuf_inv (after_put bs rb)"
  proof (cases "bs = []")
    case False
    then have "length data = ringbuffer_size rb" using assms(2) r(7) by (auto simp: capacity_def)
    with False le used_free [OF r(4-6)] show ?thesis
      using r by (simp add: after_put_def ringbuf_inv_def ring_ok_def length_ring_put)
  qed (simp add: after_put_def assms(1))
  show "contents (after_put bs rb) = contents rb @ bs"
  proof (cases "bs = []")
    case False
    then have "length data = ringbuffer_size rb" using assms(2) r(7) by (auto simp: capacity_def)
    with contents_put [OF r(4-6) _ le] False r show ?thesis
      by (simp add: after_put_def contents_def)
  qed (simp add: after_put_def)
qed

lemma after_get_ok:
  assumes "ringbuf_inv rb" and "c \<le> length (contents rb)"
  shows "ringbuf_inv (after_get c rb)" "contents (after_get c rb) = drop c (contents rb)"
    "ringbuffer_size (after_get c rb) = ringbuffer_size rb"
    "non_blocking (after_get c rb) = non_blocking rb"
proof -
  obtain h t data where r: "head_ptr rb = Some h" "tail_ptr rb = Some t"
      "ringbuffer rb = Some data" "h < ringbuffer_size rb" "t < ringbuffer_size rb"
      "ringbuffer_size rb < 2 ^ 63" "ringbuffer_size rb = 1 \<or> length data = ringbuffer_size rb"
      "contents rb = ring_contents (ringbuffer_size rb) h t data"
    using assms(1) by (rule ringbuf_invE)
  show "ringbuffer_size (after_get c rb) = ringbuffer_size rb"
    "non_blocking (after_get c rb) = non_blocking rb"
    by (simp_all add: after_get_def)
  show "ringbuf_inv (after_get c rb)"
    using r by (simp add: after_get_def ringbuf_inv_def ring_ok_def)
  show "contents (after_get c rb) = drop c (contents rb)"
  proof (cases "c = 0")
    case False
    then have "length data = ringbuffer_size rb" using assms(2) r(4,5,7,8) by (auto simp: used_def)
    with contents_get(2) [OF r(4-6)] False r assms(2) show ?thesis
      by (simp add: after_get_def contents_def)
  qed (simp add: after_get_def)
qed

text \<open>One iteration of each loop, over the contents instead of the positions.\<close>

lemma write_loop_step:
  assumes "ringbuf_inv rb" and "written < n" and "n \<le> length s"
  shows "write_internal_loop (Suc fuel) s n written spins rb =
    (let avail = capacity rb - length (contents rb) in
     if avail = 0 then
       (if non_blocking rb then
          (if written > 0 \<or> spins > 100 then Inr (written, rb)
           else write_internal_loop fuel s n written (spins + 1) rb)
        else write_internal_loop fuel s n written spins rb)
     else let chunk = min avail (n - written) in
       write_internal_loop fuel s n (written + chunk) spins
         (after_put (slice written chunk s) rb))"
proof -
  obtain h t data where r: "head_ptr rb = Some h" "tail_ptr rb = Some t"
      "ringbuffer rb = Some data" "h < ringbuffer_size rb" "t < ringbuffer_size rb"
      "ringbuffer_size rb < 2 ^ 63" "ringbuffer_size rb = 1 \<or> length data = ringbuffer_size rb"
      "contents rb = ring_contents (ringbuffer_size rb) h t data"
    using assms(1) by (rule ringbuf_invE)
  have f: "free (ringbuffer_size rb) h t = capacity rb - length (contents rb)"
    using used_free [OF r(4-6)] r(8) by (simp add: capacity_def)
  let ?chunk = "min (capacity rb - length (contents rb)) (n - written)"
  have l: "length (slice written ?chunk s) = ?chunk"
    using assms(2,3) by simp
  then have "slice written ?chunk s \<noteq> []" if "capacity rb - length (contents rb) \<noteq> 0"
    using that assms(2) by (auto simp del: length_slice)
  with l show ?thesis using r(1-3) assms(2)
    by (simp add: f after_put_def Let_def)
qed

lemma read_loop_step:
  assumes "ringbuf_inv rb" and "read_bytes < n"
  shows "read_internal_loop (Suc fuel) s n read_bytes spins rb =
    (let avail = length (contents rb) in
     if avail = 0 then
       (if non_blocking rb then
          (if read_bytes > 0 \<or> spins > 1000000 then Inr (s, rb)
           else read_internal_loop fuel s n read_bytes (spins + 1) rb)
        else read_internal_loop fuel s n read_bytes spins rb)
     else let chunk = min avail (n - read_bytes) in
       read_internal_loop fuel (s @ take chunk (contents rb)) n (read_bytes + chunk) spins
         (after_get chunk rb))"
proof -
  obtain h t data where r: "head_ptr rb = Some h" "tail_ptr rb = Some t"
      "ringbuffer rb = Some data" "h < ringbuffer_size rb" "t < ringbuffer_size rb"
      "ringbuffer_size rb < 2 ^ 63" "ringbuffer_size rb = 1 \<or> length data = ringbuffer_size rb"
      "contents rb = ring_contents (ringbuffer_size rb) h t data"
    using assms(1) by (rule ringbuf_invE)
  let ?chunk = "min (length (contents rb)) (n - read_bytes)"
  have "ring_get (ringbuffer_size rb) t ?chunk data = take ?chunk (contents rb)"
    if "length (contents rb) \<noteq> 0"
  proof -
    have "length data = ringbuffer_size rb" using that r(4,5,7,8) by (auto simp: used_def)
    from contents_get(1) [OF r(4-6) this] show ?thesis using r(8) by simp
  qed
  moreover have "?chunk \<noteq> 0" if "length (contents rb) \<noteq> 0"
    using that assms(2) by simp
  ultimately show ?thesis using r(1-3) assms(2) r(8)
    by (auto simp: after_get_def Let_def)
qed

declare write_internal_loop.simps(2) [simp del] read_internal_loop.simps(2) [simp del]

text \<open>A whole call.  \<open>written\<close> bytes have gone in already; the loop adds what fits.\<close>

lemma write_loop_spins:
  assumes "ringbuf_inv rb" "non_blocking rb" "capacity rb = length (contents rb)" "0 < n"
    "n \<le> length s" "spins \<le> 101" "101 - spins < fuel"
  shows "write_internal_loop fuel s n 0 spins rb = Inr (0, rb)"
  using assms
proof (induction fuel arbitrary: spins)
  case (Suc fuel)
  show ?case
  proof (cases "spins > 100")
    case True
    with Suc.prems show ?thesis by (subst write_loop_step) simp_all
  next
    case False
    with Suc have "write_internal_loop fuel s n 0 (spins + 1) rb = Inr (0, rb)" by simp
    with False Suc.prems show ?thesis by (subst write_loop_step) simp_all
  qed
qed simp

lemma write_loop_done [simp]:
  "write_internal_loop (Suc fuel) s n n spins rb = Inr (n, rb)"
  by (simp add: write_internal_loop.simps)

lemma read_loop_done [simp]:
  "read_internal_loop (Suc fuel) s n n spins rb = Inr (s, rb)"
  by (simp add: read_internal_loop.simps)

lemma write_internal_ok:
  assumes "ringbuf_inv rb" and "n \<le> length s" and "n \<le> capacity rb - length (contents rb)"
    and "2 \<le> fuel"
  shows "write_internal fuel s n rb = Inr (n, after_put (take n s) rb)"
proof (cases "n = 0")
  case True
  then show ?thesis using assms(4)
    by (cases fuel) (auto simp: write_internal_def after_put_def)
next
  case False
  obtain f where f: "fuel = Suc (Suc f)"
    by (rule two_le_SucE [of fuel]) (use assms(4) in simp_all)
  have "write_internal_loop (Suc (Suc f)) s n 0 0 rb =
      write_internal_loop (Suc f) s n n 0 (after_put (slice 0 n s) rb)"
    using False assms by (subst write_loop_step) (auto simp: Let_def min_def)
  with f show ?thesis by (simp add: write_internal_def)
qed

lemma write_internal_full:
  assumes "ringbuf_inv rb" and "non_blocking rb" and "n \<le> length s"
    and "capacity rb - length (contents rb) < n" and "104 \<le> fuel"
  defines "k \<equiv> capacity rb - length (contents rb)"
  shows "write_internal fuel s n rb = Inr (k, after_put (take k s) rb)"
proof -
  obtain f where f: "fuel = Suc (Suc f)"
    by (rule two_le_SucE [of fuel]) (use assms(5) in simp_all)
  show ?thesis
  proof (cases "k = 0")
    case True
    have "capacity rb = length (contents rb)"
      using True assms(1) by (auto elim!: ringbuf_invE simp: k_def capacity_def used_eq)
    then show ?thesis
      using assms True by (simp add: write_internal_def after_put_def write_loop_spins)
  next
    case False
    let ?rb = "after_put (take k s) rb"
    have lt: "length (take k s) = k" using assms(3,4) by (simp add: k_def)
    with False have fit: "length (contents rb) + length (take k s) \<le> capacity rb"
      by (simp add: k_def)
    note put = after_put_ok [OF assms(1) fit]
    have "write_internal_loop (Suc (Suc f)) s n 0 0 rb = write_internal_loop (Suc f) s n k 0 ?rb"
      using False assms(1-4) by (subst write_loop_step) (auto simp: Let_def min_def k_def)
    also have "\<dots> = Inr (k, ?rb)"
    proof -
      have "capacity ?rb = length (contents ?rb)"
        using put lt False by (simp add: capacity_def k_def)
      then show ?thesis using False put assms(2-4)
        by (subst write_loop_step) (auto simp: k_def)
    qed
    finally show ?thesis by (simp add: write_internal_def f)
  qed
qed

lemma read_loop_spins:
  assumes "ringbuf_inv rb" "non_blocking rb" "contents rb = []" "0 < n"
    "spins \<le> 1000001" "1000001 - spins < fuel"
  shows "read_internal_loop fuel s n 0 spins rb = Inr (s, rb)"
  using assms
proof (induction fuel arbitrary: spins)
  case (Suc fuel)
  show ?case
  proof (cases "spins > 1000000")
    case True
    with Suc.prems show ?thesis by (subst read_loop_step) simp_all
  next
    case False
    with Suc have "read_internal_loop fuel s n 0 (spins + 1) rb = Inr (s, rb)" by simp
    with False Suc.prems show ?thesis by (subst read_loop_step) simp_all
  qed
qed simp

lemma read_internal_ok:
  assumes "ringbuf_inv rb" and "n \<le> length (contents rb)" and "2 \<le> fuel"
  shows "read_internal fuel n rb = Inr (take n (contents rb), after_get n rb)"
proof (cases "n = 0")
  case True
  then show ?thesis using assms(3)
    by (cases fuel) (auto simp: read_internal_def after_get_def)
next
  case False
  obtain f where f: "fuel = Suc (Suc f)"
    by (rule two_le_SucE [of fuel]) (use assms(3) in simp_all)
  have "read_internal_loop (Suc (Suc f)) [] n 0 0 rb =
      read_internal_loop (Suc f) (take n (contents rb)) n n 0 (after_get n rb)"
    using False assms by (subst read_loop_step) (auto simp: Let_def min_def)
  with f show ?thesis by (simp add: read_internal_def)
qed

lemma read_internal_short:
  assumes "ringbuf_inv rb" and "non_blocking rb" and "length (contents rb) < n"
    and "1000004 \<le> fuel"
  shows "read_internal fuel n rb =
    Inr (contents rb, after_get (length (contents rb)) rb)"
proof (cases "contents rb = []")
  case True
  with assms show ?thesis by (simp add: read_internal_def after_get_def read_loop_spins)
next
  case False
  let ?c = "length (contents rb)"
  let ?rb = "after_get ?c rb"
  obtain f where f: "fuel = Suc (Suc f)"
    by (rule two_le_SucE [of fuel]) (use assms(4) in simp_all)
  note get = after_get_ok [OF assms(1) order_refl]
  have "read_internal_loop (Suc (Suc f)) [] n 0 0 rb =
      read_internal_loop (Suc f) (contents rb) n ?c 0 ?rb"
    using False assms by (subst read_loop_step) (auto simp: Let_def min_def)
  also have "\<dots> = Inr (contents rb, ?rb)"
    using False get assms(2,3) by (subst read_loop_step) auto
  finally show ?thesis by (simp add: read_internal_def f)
qed

section \<open>The contract\<close>

definition nb_inv :: "ringbuf \<Rightarrow> bool" where
  "nb_inv rb \<longleftrightarrow> ringbuf_inv rb \<and> non_blocking rb"

lemma contents_le_capacity: "ringbuf_inv rb \<Longrightarrow> length (contents rb) \<le> capacity rb"
  by (auto elim!: ringbuf_invE simp: capacity_def used_eq)

lemma xsputn_eq:
  assumes "nb_inv rb"
  shows "ringbuf_xsputn s rb =
    (let k = min (length s) (capacity rb - length (contents rb)) in Inr (k, after_put (take k s) rb))"
proof (cases "length s \<le> capacity rb - length (contents rb)")
  case True
  with assms show ?thesis
    by (simp add: nb_inv_def ringbuf_xsputn_def write_internal_ok write_fuel_def Let_def)
next
  case False
  with assms show ?thesis
    by (simp add: nb_inv_def ringbuf_xsputn_def write_internal_full write_fuel_def Let_def)
qed

lemma xsgetn_eq:
  assumes "nb_inv rb"
  shows "ringbuf_xsgetn n rb =
    Inr (take n (contents rb), after_get (min n (length (contents rb))) rb)"
proof (cases "n \<le> length (contents rb)")
  case True
  with assms show ?thesis
    by (simp add: nb_inv_def ringbuf_xsgetn_def read_internal_ok read_fuel_def)
next
  case False
  with assms show ?thesis
    by (simp add: nb_inv_def ringbuf_xsgetn_def read_internal_short read_fuel_def)
qed

interpretation ring: bounded_fifo ringbuf_xsputn ringbuf_xsgetn contents capacity nb_inv
proof
  fix rb :: ringbuf and bs :: "byte list"
  assume inv: "nb_inv rb"
  then have le: "length (contents rb) \<le> capacity rb"
    by (simp add: nb_inv_def contents_le_capacity)
  then show "length (contents rb) \<le> capacity rb" .
  let ?k = "min (length bs) (capacity rb - length (contents rb))"
  have "length (contents rb) + length (take ?k bs) \<le> capacity rb" using le by simp
  from after_put_ok [OF _ this] inv
  show "\<exists>k rb'. ringbuf_xsputn bs rb = Inr (k, rb') \<and> nb_inv rb' \<and>
      k = min (length bs) (capacity rb - length (contents rb)) \<and>
      contents rb' = contents rb @ take k bs \<and> capacity rb' = capacity rb"
    by (simp add: xsputn_eq Let_def nb_inv_def capacity_def)
next
  fix rb :: ringbuf and n :: nat
  assume inv: "nb_inv rb"
  from after_get_ok [of rb "min n (length (contents rb))"] inv
  show "\<exists>rb'. ringbuf_xsgetn n rb = Inr (take n (contents rb), rb') \<and> nb_inv rb' \<and>
      contents rb' = drop n (contents rb) \<and> capacity rb' = capacity rb"
    by (simp add: xsgetn_eq nb_inv_def capacity_def min_def)
qed

text \<open>A blocking buffer spins for ever on a write that does not fit.\<close>

lemma write_loop_blocks:
  assumes "ringbuf_inv rb" "\<not> non_blocking rb" "n \<le> length s" "written \<le> n"
    "capacity rb - length (contents rb) < n - written"
  shows "write_internal_loop fuel s n written spins rb = Inl Out_of_fuel"
  using assms
proof (induction fuel arbitrary: written rb)
  case (Suc fuel)
  let ?a = "capacity rb - length (contents rb)"
  show ?case
  proof (cases "?a = 0")
    case True
    with Suc show ?thesis by (subst write_loop_step) auto
  next
    case False
    let ?bs = "slice written ?a s"
    have len: "length ?bs = ?a" using Suc.prems by simp
    with False have "length (contents rb) + length ?bs \<le> capacity rb" by simp
    note put = after_put_ok [OF Suc.prems(1) this]
    have "capacity (after_put ?bs rb) = length (contents (after_put ?bs rb))"
      using put len False by (simp add: capacity_def del: length_slice)
    with put Suc.prems have "write_internal_loop fuel s n (written + ?a) spins (after_put ?bs rb) =
        Inl Out_of_fuel"
      by (intro Suc.IH) auto
    with False Suc.prems show ?thesis
      by (subst write_loop_step) (auto simp: Let_def min_def)
  qed
qed simp

section \<open>Seeking\<close>

lemma ring_pos_less: "0 < cap \<Longrightarrow> other < cap \<Longrightarrow> ring_pos cap off way pos other < cap"
  by (cases way) (simp_all add: ring_pos_def)

lemma ringbuf_seekoff_inv:
  assumes "ringbuf_inv rb"
  shows "\<exists>p rb'. ringbuf_seekoff off way which rb = Inr (p, rb') \<and> ringbuf_inv rb' \<and>
    ringbuffer_size rb' = ringbuffer_size rb \<and> ringbuffer rb' = ringbuffer rb \<and>
    p < int (ringbuffer_size rb)"
  using assms
proof -
  obtain h t data where "head_ptr rb = Some h" "tail_ptr rb = Some t" "ringbuffer rb = Some data"
      "ring_ok (ringbuffer_size rb) h t data"
    using assms by (auto simp: ringbuf_inv_def split: option.splits)
  then show ?thesis
    by (simp add: ringbuf_seekoff_def Let_def ringbuf_inv_def ring_ok_def ring_pos_less)
qed

text \<open>Within the ring a relative seek moves by its offset; below zero it does so only when the
  ring's size divides \<open>2 ^ 64\<close>.\<close>

lemma ring_pos_cur_nonneg:
  assumes "0 \<le> int pos + off" "int pos + off < 2 ^ 64"
  shows "int (ring_pos cap off Cur pos other) = (int pos + off) mod int cap"
  using assms by (simp add: ring_pos_def zmod_int)

lemma ring_pos_cur_dvd:
  assumes "cap dvd 2 ^ 64"
  shows "int (ring_pos cap off Cur pos other) = (int pos + off) mod int cap"
proof -
  have "int cap dvd 2 ^ 64" using assms by (metis of_nat_dvd_iff of_nat_numeral of_nat_power)
  then show ?thesis by (simp add: ring_pos_def wrap64_def zmod_int mod_mod_cancel)
qed

section \<open>Properties\<close>

lemma available_read_eq: "ringbuf_inv rb \<Longrightarrow> available_read rb = Inr (length (contents rb))"
  by (erule ringbuf_invE) (simp add: available_read_def)

lemma available_write_eq:
  assumes "ringbuf_inv rb"
  shows "available_write rb = Inr (capacity rb - length (contents rb))"
proof -
  obtain h t data where r: "head_ptr rb = Some h" "tail_ptr rb = Some t"
      "h < ringbuffer_size rb" "t < ringbuffer_size rb" "ringbuffer_size rb < 2 ^ 63"
      "contents rb = ring_contents (ringbuffer_size rb) h t (the (ringbuffer rb))"
    using assms by (auto elim!: ringbuf_invE)
  then show ?thesis using used_free [OF r(3-5)]
    by (simp add: available_write_def capacity_def)
qed

definition small_ring :: "bool \<Rightarrow> ringbuf" where
  "small_ring nb = ringbuf_ctor (Some (replicate 20 0)) 20 nb"

lemma small_ring [simp]:
  "ringbuf_inv (small_ring nb)" "non_blocking (small_ring nb) = nb" "contents (small_ring nb) = []"
  "ringbuffer_size (small_ring nb) = 4"
proof -
  have "sizeof_ring_header < 20" by (simp add: sizeof_ring_header_def)
  then show "ringbuf_inv (small_ring nb)" "non_blocking (small_ring nb) = nb"
    "contents (small_ring nb) = []" "ringbuffer_size (small_ring nb) = 4"
    by (simp_all add: small_ring_def ctor_inv ctor_contents)
       (simp_all add: ringbuf_ctor_def sizeof_ring_header_def)
qed

text \<open>C2: a non-blocking ring buffer is a first-in first-out queue.  Whatever sequence of writes and
  reads is run on it, the bytes that came out followed by the bytes still held are the bytes held
  at the start followed by the bytes the writes reported as accepted, and one byte of the ring
  always stays free.
\<close>

theorem ringbuf_fifo:
  assumes "ringbuf_inv rb" and "non_blocking rb"
  shows "\<exists>i out rb'. fifo_run ringbuf_xsputn ringbuf_xsgetn ops rb = Inr (i, out, rb') \<and>
    ringbuf_inv rb' \<and> contents rb @ i = out @ contents rb' \<and>
    length (contents rb') \<le> ringbuffer_size rb - 1"
proof -
  have "nb_inv rb" using assms by (simp add: nb_inv_def)
  from ring.run_fifo [OF this, of ops] obtain i out rb'
    where r: "fifo_run ringbuf_xsputn ringbuf_xsgetn ops rb = Inr (i, out, rb')" "nb_inv rb'"
      "contents rb @ i = out @ contents rb'"
    by blast
  with ring.run_occupancy [OF \<open>nb_inv rb\<close> r(1)] show ?thesis
    by (auto simp: nb_inv_def capacity_def)
qed

theorem ringbuf_fifo_witness:
  "\<exists>i out rb'. fifo_run ringbuf_xsputn ringbuf_xsgetn [Inl [1, 2], Inr 1, Inl [3, 4, 5], Inr 9]
      (small_ring True) = Inr (i, out, rb') \<and> i = out @ contents rb'"
  using ringbuf_fifo [of "small_ring True" "[Inl [1, 2], Inr 1, Inl [3, 4, 5], Inr 9]"] by auto

text \<open>A non-blocking write takes exactly as many bytes as fit, appends them to what the ring
  holds, and \<open>available_read\<close> and \<open>available_write\<close> report the new occupancy; it returns whatever
  the ring's state, after at most 102 idle iterations.
\<close>

theorem ringbuf_xsputn_functional:
  assumes "ringbuf_inv rb" and "non_blocking rb"
    and "k = min (length s) (ringbuffer_size rb - 1 - length (contents rb))"
  shows "\<exists>rb'. ringbuf_xsputn s rb = Inr (k, rb') \<and> contents rb' = contents rb @ take k s \<and>
    available_read rb' = Inr (length (contents rb) + k) \<and>
    available_write rb' = Inr (ringbuffer_size rb - 1 - length (contents rb) - k)"
  using ring.put_ok [of rb s] assms
  by (auto simp: nb_inv_def capacity_def available_read_eq available_write_eq)

theorem ringbuf_xsputn_functional_witness:
  "\<exists>rb'. ringbuf_xsputn [1, 2, 3, 4, 5] (small_ring True) = Inr (3, rb') \<and>
     contents rb' = [1, 2, 3] \<and> available_read rb' = Inr 3 \<and> available_write rb' = Inr 0"
  using ringbuf_xsputn_functional [of "small_ring True" 3 "[1, 2, 3, 4, 5]"] by auto



text \<open>After a write into a fresh ring, \<open>seekg(0)\<close> makes all the written bytes readable again,
  however many of them have been read.
\<close>

theorem ringbuf_rewind:
  assumes "length mem = total_size" and "total_size < 2 ^ 63" and "length bs + 17 \<le> total_size"
    and "n \<le> length bs"
  shows "\<exists>rb1 rb2 rb3 rb4. ringbuf_xsputn bs (ringbuf_ctor (Some mem) total_size True) =
      Inr (length bs, rb1) \<and> ringbuf_xsgetn n rb1 = Inr (take n bs, rb2) \<and>
    ringbuf_seekoff 0 Beg only_in rb2 = Inr (0, rb3) \<and>
    ringbuf_xsgetn (length bs) rb3 = Inr (bs, rb4)"
proof -
  let ?rb = "ringbuf_ctor (Some mem) total_size True"
  have inv: "nb_inv ?rb" using assms(1,2) by (simp add: nb_inv_def ctor_inv) (simp add: ringbuf_ctor_def)
  have c: "contents ?rb = []" "capacity ?rb = total_size - 17"
    using assms(2,3) by (simp_all add: ctor_contents)
       (simp add: capacity_def ringbuf_ctor_def sizeof_ring_header_def)
  define rb1 where "rb1 = after_put bs ?rb"
  have "length (contents ?rb) + length bs \<le> capacity ?rb" using assms(3) c by simp
  with inv have rb1: "nb_inv rb1" "contents rb1 = bs"
    using after_put_ok [of ?rb bs] c by (simp_all add: nb_inv_def rb1_def)
  have p: "ringbuf_xsputn bs ?rb = Inr (length bs, rb1)"
  proof -
    have "min (length bs) (total_size - 17) = length bs" using assms(3) by simp
    with xsputn_eq [OF inv, of bs] c show ?thesis by (simp add: Let_def rb1_def)
  qed
  have t: "tail_ptr rb1 = Some 0" "head_ptr rb1 \<noteq> None"
    by (simp_all add: rb1_def after_put_def ringbuf_ctor_def)
  define rb2 where "rb2 = after_get n rb1"
  have g: "ringbuf_xsgetn n rb1 = Inr (take n bs, rb2)"
    using xsgetn_eq [OF rb1(1), of n] rb1(2) assms(4) by (simp add: rb2_def min_def)
  have "ringbuf_seekoff 0 Beg only_in rb2 = Inr (0, rb1)"
    using t by (auto simp: rb2_def after_get_def ringbuf_seekoff_def ring_pos_def Let_def)
  moreover have "ringbuf_xsgetn (length bs) rb1 = Inr (bs, after_get (length bs) rb1)"
    using xsgetn_eq [OF rb1(1), of "length bs"] rb1(2) by simp
  ultimately show ?thesis using p g by blast
qed

theorem ringbuf_rewind_witness:
  "\<exists>rb1 rb2 rb3 rb4. ringbuf_xsputn [7, 8, 9] (ringbuf_ctor (Some (replicate 20 0)) 20 True) =
      Inr (3, rb1) \<and> ringbuf_xsgetn 2 rb1 = Inr ([7, 8], rb2) \<and>
    ringbuf_seekoff 0 Beg only_in rb2 = Inr (0, rb3) \<and> ringbuf_xsgetn 3 rb3 = Inr ([7, 8, 9], rb4)"
  using ringbuf_rewind [of "replicate 20 0" 20 "[7, 8, 9]" 2] by (simp add: numeral_3_eq_3)

text \<open>
  A relative seek back past the start of the ring does not land where the ring's geometry says
  unless the ring's size divides \<open>2 ^ 64\<close>: in a ring of 3 bytes, one step back from position 0 is
  position 0, not 2.
\<close>

lemma ringbuf_seek_below_zero:
  "ringbuf_seekoff (-1) Cur only_in (ringbuf_ctor (Some (replicate 19 0)) 19 True) =
     Inr (0, ringbuf_ctor (Some (replicate 19 0)) 19 True)"
  by (simp add: ringbuf_seekoff_def ringbuf_ctor_def ring_pos_def wrap64_def sizeof_ring_header_def
      Let_def)

text \<open>C40: seeking keeps the ring's invariant in every mode and direction, never touches the ring's
  memory, and a relative seek of the get position lands at the position modulo the size when it
  does not go below zero, or when the size divides \<open>2 ^ 64\<close>.
\<close>

theorem ringbuf_seek_inv:
  assumes "ringbuf_inv rb" and "tail_ptr rb = Some t"
  shows "(\<exists>p rb'. ringbuf_seekoff off way which rb = Inr (p, rb') \<and> ringbuf_inv rb' \<and>
      ringbuffer rb' = ringbuffer rb) \<and>
    ((0 \<le> int t + off \<and> int t + off < 2 ^ 64) \<or> ringbuffer_size rb dvd 2 ^ 64 \<longrightarrow>
      (\<exists>rb'. ringbuf_seekoff off Cur only_in rb =
        Inr ((int t + off) mod int (ringbuffer_size rb), rb')))"
proof (intro conjI impI)
  show "\<exists>p rb'. ringbuf_seekoff off way which rb = Inr (p, rb') \<and> ringbuf_inv rb' \<and>
      ringbuffer rb' = ringbuffer rb"
    using ringbuf_seekoff_inv [OF assms(1)] by blast
  show "\<exists>rb'. ringbuf_seekoff off Cur only_in rb =
      Inr ((int t + off) mod int (ringbuffer_size rb), rb')"
    if "(0 \<le> int t + off \<and> int t + off < 2 ^ 64) \<or> ringbuffer_size rb dvd 2 ^ 64"
    using assms that
    by (auto elim!: ringbuf_invE simp: ringbuf_seekoff_def Let_def ring_pos_cur_nonneg
        ring_pos_cur_dvd simp del: wrap64_id)
qed

theorem ringbuf_seek_inv_witness:
  "(\<exists>p rb'. ringbuf_seekoff (-1) Cur only_out (small_ring True) = Inr (p, rb') \<and> ringbuf_inv rb') \<and>
   (\<exists>rb'. ringbuf_seekoff (-1) Cur only_in (small_ring True) = Inr (3, rb'))"
proof -
  have t: "tail_ptr (small_ring True) = Some 0" by (simp add: small_ring_def ringbuf_ctor_def)
  show ?thesis
    using ringbuf_seek_inv [of "small_ring True" 0 "-1" Cur only_out] t
    by (auto simp: dvd_def intro: exI [of _ "4611686018427387904"])
qed

end
