(* ===== verification/Ringbuf_Spsc.thy ===== *)
theory Ringbuf_Spsc
  imports Ringbuf
begin

text \<open>
  Two threads on one ring buffer (include/iostreams/ring_streambuf.hpp): a producer inside
  \<open>write_internal\<close> and a consumer inside \<open>read_internal\<close>, interleaved at every atomic load, every
  copied byte and every atomic store.  The atomics are sequentially consistent (the default of
  \<open>std::atomic\<close>), so a run is a sequence of the threads' steps.  Each thread makes any number of
  calls, one after another.
\<close>

section \<open>State\<close>

text \<open>
  Where a thread is: at the loop's test, between the two loads of \<open>available_write\<close> (or
  \<open>available_read\<close>) with the head it has seen, at the test of the availability, inside the
  \<open>memcpy\<close> calls after \<open>j\<close> of \<open>chunk\<close> bytes, or outside a call.
\<close>

datatype pc =
    Loop
  | Loaded_head nat
  | Avail nat
  | Copying nat nat nat
  | Returned

text \<open>
  \<open>sent\<close> and \<open>received\<close> are history: what the producer has published by moving the head, and what
  the consumer has consumed by moving the tail, over all calls.
\<close>

record spsc =
  size :: nat
  nonblock :: bool
  data :: "byte list"
  head :: nat
  tail :: nat
  p_pc :: pc
  p_src :: "byte list"
  p_written :: nat
  p_spins :: nat
  sent :: "byte list"
  c_pc :: pc
  c_n :: nat
  c_dest :: "byte list"
  c_read :: nat
  c_spins :: nat
  received :: "byte list"

definition spsc_init :: "nat \<Rightarrow> bool \<Rightarrow> byte list \<Rightarrow> spsc" where
  "spsc_init n nb mem = \<lparr>size = n, nonblock = nb, data = mem, head = 0, tail = 0,
     p_pc = Returned, p_src = [], p_written = 0, p_spins = 0, sent = [],
     c_pc = Returned, c_n = 0, c_dest = [], c_read = 0, c_spins = 0, received = []\<rparr>"

text \<open>Where the \<open>j\<close>-th byte of a chunk at position \<open>p\<close> lies: the first copy runs to the end of the
  ring, the second starts at its beginning.\<close>

definition copy_index :: "nat \<Rightarrow> nat \<Rightarrow> nat \<Rightarrow> nat \<Rightarrow> nat" where
  "copy_index n p chunk j = (let e = min chunk (n - p) in if j < e then p + j else j - e)"

section \<open>Steps\<close>

inductive spsc_step :: "spsc \<Rightarrow> spsc \<Rightarrow> bool" where
  p_call: "p_pc st = Returned \<Longrightarrow>
    spsc_step st (st\<lparr>p_pc := Loop, p_src := bs, p_written := 0, p_spins := 0\<rparr>)"
| p_return: "p_pc st = Loop \<Longrightarrow> \<not> p_written st < length (p_src st) \<Longrightarrow>
    spsc_step st (st\<lparr>p_pc := Returned\<rparr>)"
| p_load_head: "p_pc st = Loop \<Longrightarrow> p_written st < length (p_src st) \<Longrightarrow>
    spsc_step st (st\<lparr>p_pc := Loaded_head (head st)\<rparr>)"
| p_load_tail: "p_pc st = Loaded_head h \<Longrightarrow>
    spsc_step st (st\<lparr>p_pc := Avail (free (size st) h (tail st))\<rparr>)"
| p_give_up: "p_pc st = Avail 0 \<Longrightarrow> nonblock st \<Longrightarrow> p_written st > 0 \<or> p_spins st > 100 \<Longrightarrow>
    spsc_step st (st\<lparr>p_pc := Returned\<rparr>)"
| p_spin: "p_pc st = Avail 0 \<Longrightarrow> nonblock st \<Longrightarrow> \<not> (p_written st > 0 \<or> p_spins st > 100) \<Longrightarrow>
    spsc_step st (st\<lparr>p_pc := Loop, p_spins := p_spins st + 1\<rparr>)"
| p_block: "p_pc st = Avail 0 \<Longrightarrow> \<not> nonblock st \<Longrightarrow> spsc_step st (st\<lparr>p_pc := Loop\<rparr>)"
| p_begin: "p_pc st = Avail a \<Longrightarrow> a \<noteq> 0 \<Longrightarrow>
    spsc_step st (st\<lparr>p_pc := Copying (head st) (min a (length (p_src st) - p_written st)) 0\<rparr>)"
| p_copy: "p_pc st = Copying h chunk j \<Longrightarrow> j < chunk \<Longrightarrow>
    spsc_step st (st\<lparr>p_pc := Copying h chunk (Suc j),
      data := (data st)[copy_index (size st) h chunk j := p_src st ! (p_written st + j)]\<rparr>)"
| p_publish: "p_pc st = Copying h chunk chunk \<Longrightarrow>
    spsc_step st (st\<lparr>p_pc := Loop, head := (h + chunk) mod size st,
      p_written := p_written st + chunk, sent := sent st @ slice (p_written st) chunk (p_src st)\<rparr>)"
| c_call: "c_pc st = Returned \<Longrightarrow>
    spsc_step st (st\<lparr>c_pc := Loop, c_n := n, c_dest := [], c_read := 0, c_spins := 0\<rparr>)"
| c_return: "c_pc st = Loop \<Longrightarrow> \<not> c_read st < c_n st \<Longrightarrow> spsc_step st (st\<lparr>c_pc := Returned\<rparr>)"
| c_load_head: "c_pc st = Loop \<Longrightarrow> c_read st < c_n st \<Longrightarrow>
    spsc_step st (st\<lparr>c_pc := Loaded_head (head st)\<rparr>)"
| c_load_tail: "c_pc st = Loaded_head h \<Longrightarrow>
    spsc_step st (st\<lparr>c_pc := Avail (used (size st) h (tail st))\<rparr>)"
| c_give_up: "c_pc st = Avail 0 \<Longrightarrow> nonblock st \<Longrightarrow> c_read st > 0 \<or> c_spins st > 1000000 \<Longrightarrow>
    spsc_step st (st\<lparr>c_pc := Returned\<rparr>)"
| c_spin: "c_pc st = Avail 0 \<Longrightarrow> nonblock st \<Longrightarrow> \<not> (c_read st > 0 \<or> c_spins st > 1000000) \<Longrightarrow>
    spsc_step st (st\<lparr>c_pc := Loop, c_spins := c_spins st + 1\<rparr>)"
| c_block: "c_pc st = Avail 0 \<Longrightarrow> \<not> nonblock st \<Longrightarrow> spsc_step st (st\<lparr>c_pc := Loop\<rparr>)"
| c_begin: "c_pc st = Avail a \<Longrightarrow> a \<noteq> 0 \<Longrightarrow>
    spsc_step st (st\<lparr>c_pc := Copying (tail st) (min a (c_n st - c_read st)) 0\<rparr>)"
| c_copy: "c_pc st = Copying t chunk j \<Longrightarrow> j < chunk \<Longrightarrow>
    spsc_step st (st\<lparr>c_pc := Copying t chunk (Suc j),
      c_dest := c_dest st @ [data st ! copy_index (size st) t chunk j]\<rparr>)"
| c_release: "c_pc st = Copying t chunk chunk \<Longrightarrow>
    spsc_step st (st\<lparr>c_pc := Loop, tail := (t + chunk) mod size st,
      c_read := c_read st + chunk, received := received st @ drop (c_read st) (c_dest st)\<rparr>)"

inductive reachable :: "spsc \<Rightarrow> spsc \<Rightarrow> bool" for init where
  start: "reachable init init"
| step: "reachable init s \<Longrightarrow> spsc_step s t \<Longrightarrow> reachable init t"

section \<open>Invariant\<close>

definition ring_part :: "spsc \<Rightarrow> bool" where
  "ring_part st \<longleftrightarrow> ring_ok (size st) (head st) (tail st) (data st) \<and>
     sent st = received st @ ring_contents (size st) (head st) (tail st) (data st)"

definition producer_part :: "spsc \<Rightarrow> bool" where
  "producer_part st = (case p_pc st of
     Loop \<Rightarrow> True
   | Loaded_head h \<Rightarrow> h = head st \<and> p_written st < length (p_src st)
   | Avail a \<Rightarrow> a \<le> free (size st) (head st) (tail st) \<and> p_written st < length (p_src st)
   | Copying h c j \<Rightarrow> h = head st \<and> 0 < c \<and> c \<le> free (size st) h (tail st) \<and> j \<le> c \<and>
       p_written st + c \<le> length (p_src st) \<and>
       (\<forall>i<j. data st ! ((h + i) mod size st) = p_src st ! (p_written st + i))
   | Returned \<Rightarrow> True)"

definition consumer_part :: "spsc \<Rightarrow> bool" where
  "consumer_part st = (case c_pc st of
     Loaded_head h \<Rightarrow> length (c_dest st) = c_read st \<and> h < size st \<and> c_read st < c_n st \<and>
       used (size st) h (tail st) \<le> used (size st) (head st) (tail st)
   | Avail a \<Rightarrow> length (c_dest st) = c_read st \<and> c_read st < c_n st \<and>
       a \<le> used (size st) (head st) (tail st)
   | Copying t c j \<Rightarrow> t = tail st \<and> 0 < c \<and> c \<le> used (size st) (head st) t \<and> j \<le> c \<and>
       c_read st + c \<le> c_n st \<and> length (c_dest st) = c_read st + j \<and>
       drop (c_read st) (c_dest st) = take j (ring_contents (size st) (head st) t (data st))
   | _ \<Rightarrow> length (c_dest st) = c_read st)"

definition spsc_inv :: "spsc \<Rightarrow> bool" where
  "spsc_inv st \<longleftrightarrow> ring_part st \<and> producer_part st \<and> consumer_part st"

lemmas spsc_parts = ring_part_def producer_part_def consumer_part_def

text \<open>What only the consumer writes does not matter to the producer, and the other way round.\<close>

lemma producer_frame [simp]:
  "producer_part (st\<lparr>c_pc := x\<rparr>) = producer_part st"
  "producer_part (st\<lparr>c_dest := y\<rparr>) = producer_part st"
  by (simp_all add: producer_part_def cong: pc.case_cong)

lemma consumer_frame [simp]:
  "consumer_part (st\<lparr>p_pc := x\<rparr>) = consumer_part st"
  "consumer_part (st\<lparr>p_pc := x, data := y\<rparr>) = consumer_part (st\<lparr>data := y\<rparr>)"
  by (simp_all add: consumer_part_def cong: pc.case_cong)

lemma copy_index_mod:
  "p < n \<Longrightarrow> c \<le> n \<Longrightarrow> j < c \<Longrightarrow> copy_index n p c j = (p + j) mod n"
  by (auto simp: copy_index_def Let_def mod_if)

text \<open>Writing into the free part of the ring does not change what it holds.\<close>

lemma used_free_disjoint:
  assumes "h < n" "t < n" "n < 2 ^ 63" "i < used n h t" "j < free n h t"
  shows "(t + i) mod n \<noteq> (h + j) mod n"
proof -
  have "i + j + 1 < n" using assms used_free [OF assms(1-3)] by linarith
  with assms show ?thesis by (auto simp: used_eq free_eq mod_if split: if_splits)
qed

lemma contents_update_free:
  assumes "h < n" "t < n" "n < 2 ^ 63" "j < free n h t"
  shows "ring_contents n h t (d[(h + j) mod n := x]) = ring_contents n h t d"
proof -
  have "d[(h + j) mod n := x] ! ((t + i) mod n) = d ! ((t + i) mod n)" if "i < used n h t" for i
    using used_free_disjoint [OF assms(1-3) that assms(4)] by simp
  then show ?thesis by (simp add: ring_contents_def)
qed

lemma spsc_invD:
  assumes "spsc_inv st"
  shows "head st < size st" "tail st < size st" "size st < 2 ^ 63"
    "size st = 1 \<or> length (data st) = size st"
    "sent st = received st @ ring_contents (size st) (head st) (tail st) (data st)"
    "producer_part st" "consumer_part st"
  using assms by (simp_all add: spsc_inv_def ring_part_def ring_ok_def)

text \<open>The step that writes a byte of a chunk.\<close>

lemma p_copy_inv:
  assumes inv: "spsc_inv st" and pc: "p_pc st = Copying h c j" and "j < c"
  shows "spsc_inv (st\<lparr>p_pc := Copying h c (Suc j),
    data := (data st)[copy_index (size st) h c j := p_src st ! (p_written st + j)]\<rparr>)"
proof -
  note d = spsc_invD [OF inv]
  let ?n = "size st" and ?x = "p_src st ! (p_written st + j)"
  from d(6) pc have p: "h = head st" "c \<le> free ?n h (tail st)" "p_written st + c \<le> length (p_src st)"
      "\<And>i. i < j \<Longrightarrow> data st ! ((h + i) mod ?n) = p_src st ! (p_written st + i)" "0 < c"
    by (auto simp: producer_part_def)
  have cn: "c < ?n" using p(2) used_free [OF d(1-3)] d(1) p(1) by simp
  with d(4) assms(3) have len: "length (data st) = ?n" by auto
  have idx: "copy_index ?n h c j = (h + j) mod ?n"
    using copy_index_mod [of h ?n c j] d(1) p(1) cn assms(3) by simp
  have cont: "ring_contents ?n (head st) (tail st) ((data st)[(h + j) mod ?n := ?x]) =
      ring_contents ?n (head st) (tail st) (data st)"
    using contents_update_free [OF d(1-3), of j] p(1,2) assms(3) by simp
  have new: "(data st)[(h + j) mod ?n := ?x] ! ((h + i) mod ?n) = p_src st ! (p_written st + i)"
    if "i < Suc j" for i
  proof (cases "i = j")
    case False
    with that cn assms(3) p(1) d(1) have "(h + i) mod ?n \<noteq> (h + j) mod ?n"
      by (auto simp: mod_if)
    with False that p(4) show ?thesis by simp
  qed (use len d(1) in simp)
  have "consumer_part (st\<lparr>data := (data st)[(h + j) mod ?n := ?x]\<rparr>)"
    using d(7) cont by (auto simp: consumer_part_def split: pc.splits)
  moreover have "producer_part (st\<lparr>p_pc := Copying h c (Suc j),
      data := (data st)[(h + j) mod ?n := ?x]\<rparr>)"
    using p new assms(3) by (simp add: producer_part_def)
  ultimately show ?thesis
    unfolding idx using d(1-5) cont len by (simp add: spsc_inv_def ring_part_def ring_ok_def)
qed

text \<open>The store that publishes a chunk.\<close>

lemma p_publish_inv:
  assumes inv: "spsc_inv st" and pc: "p_pc st = Copying h c c"
  shows "spsc_inv (st\<lparr>p_pc := Loop, head := (h + c) mod size st, p_written := p_written st + c,
    sent := sent st @ slice (p_written st) c (p_src st)\<rparr>)"
proof -
  note d = spsc_invD [OF inv]
  let ?n = "size st" and ?bs = "slice (p_written st) c (p_src st)"
  let ?c = "ring_contents (size st) (head st) (tail st) (data st)"
  from d(6) pc have p: "h = head st" "c \<le> free ?n h (tail st)" "p_written st + c \<le> length (p_src st)"
      "\<And>i. i < c \<Longrightarrow> data st ! ((h + i) mod ?n) = p_src st ! (p_written st + i)" "0 < c"
    by (auto simp: producer_part_def)
  have len: "length ?bs = c" using p(3) by simp
  have used: "used ?n ((h + c) mod ?n) (tail st) = used ?n (head st) (tail st) + c"
    using used_put [OF d(1-3)] p(1,2) by simp
  have cont: "ring_contents ?n ((h + c) mod ?n) (tail st) (data st) = ?c @ ?bs"
  proof (rule nth_equalityI)
    show "length (ring_contents ?n ((h + c) mod ?n) (tail st) (data st)) = length (?c @ ?bs)"
      using used len by (simp del: length_slice)
    fix i assume "i < length (ring_contents ?n ((h + c) mod ?n) (tail st) (data st))"
    then have i: "i < used ?n (head st) (tail st) + c" using used by simp
    show "ring_contents ?n ((h + c) mod ?n) (tail st) (data st) ! i = (?c @ ?bs) ! i"
    proof (cases "i < used ?n (head st) (tail st)")
      case False
      define k where "k = i - used ?n (head st) (tail st)"
      have k: "k < c" "i = used ?n (head st) (tail st) + k" using False i by (simp_all add: k_def)
      have "(tail st + i) mod ?n = (head st + k) mod ?n"
        using ring_head [OF d(1-3)] k(2) by (metis add.assoc mod_add_left_eq)
      then show ?thesis using k p i used len False
        by (simp add: ring_contents_def nth_append nth_slice)
    qed (simp add: ring_contents_def used i nth_append)
  qed
  have "(h + c) mod ?n < ?n" using d(1) by (intro mod_less_divisor) simp
  moreover have "consumer_part (st\<lparr>p_pc := Loop, head := (h + c) mod ?n,
      p_written := p_written st + c, sent := sent st @ ?bs\<rparr>)"
    using d(7) p(1) used cont by (auto simp: consumer_part_def split: pc.splits)
  ultimately show ?thesis
    using d(1-5) cont by (simp add: spsc_inv_def ring_part_def producer_part_def ring_ok_def)
qed

text \<open>The consumer's copy and release.\<close>

lemma c_copy_inv:
  assumes inv: "spsc_inv st" and pc: "c_pc st = Copying t c j" and "j < c"
  shows "spsc_inv (st\<lparr>c_pc := Copying t c (Suc j),
    c_dest := c_dest st @ [data st ! copy_index (size st) t c j]\<rparr>)"
proof -
  note d = spsc_invD [OF inv]
  from d(7) pc have c: "t = tail st" "c \<le> used (size st) (head st) t"
      "length (c_dest st) = c_read st + j" "c_read st + c \<le> c_n st" "0 < c"
      "drop (c_read st) (c_dest st) = take j (ring_contents (size st) (head st) t (data st))"
    by (auto simp: consumer_part_def)
  have "c \<le> size st" using c(1,2) used_free [OF d(1-3)] by simp
  then have "copy_index (size st) t c j = (t + j) mod size st"
    using copy_index_mod d(2) c(1) assms(3) by simp
  moreover have "take (Suc j) (ring_contents (size st) (head st) t (data st)) =
      take j (ring_contents (size st) (head st) t (data st)) @ [data st ! ((t + j) mod size st)]"
    using c(2) assms(3) by (simp add: take_Suc_conv_app_nth) (simp add: ring_contents_def)
  ultimately show ?thesis
    using d c assms(3) by (simp add: spsc_inv_def ring_part_def consumer_part_def ring_ok_def)
qed

lemma c_release_inv:
  assumes inv: "spsc_inv st" and pc: "c_pc st = Copying t c c"
  shows "spsc_inv (st\<lparr>c_pc := Loop, tail := (t + c) mod size st, c_read := c_read st + c,
    received := received st @ drop (c_read st) (c_dest st)\<rparr>)"
proof -
  note d = spsc_invD [OF inv]
  let ?n = "size st"
  from d(7) pc have c: "t = tail st" "c \<le> used ?n (head st) t" "0 < c"
      "length (c_dest st) = c_read st + c"
      "drop (c_read st) (c_dest st) = take c (ring_contents ?n (head st) t (data st))"
    by (auto simp: consumer_part_def)
  have len: "length (data st) = ?n" using d(1,2,4) c(1-3) by (auto simp: used_def)
  have "(t + c) mod ?n < ?n" using d(1) by (intro mod_less_divisor) simp
  moreover note contents_get(2) [OF d(1-3) len, of c]
  moreover have "free ?n (head st) t \<le> free ?n (head st) ((t + c) mod ?n)"
    using used_get [OF d(1-3), of c] used_free [OF d(1-3)] c(1,2)
      used_free [OF d(1) \<open>(t + c) mod ?n < ?n\<close> d(3)] by simp
  ultimately show ?thesis
    using d c by (auto simp: spsc_inv_def spsc_parts ring_ok_def split: pc.splits)
qed

lemma spsc_step_inv: "spsc_step st st' \<Longrightarrow> spsc_inv st \<Longrightarrow> spsc_inv st'"
proof (induction rule: spsc_step.induct)
  case (p_begin st a)
  note d = spsc_invD [OF p_begin(3)]
  then show ?case using p_begin(1,2)
    by (auto simp: spsc_inv_def spsc_parts ring_ok_def split: pc.splits)
next
  case (c_load_tail st h)
  note d = spsc_invD [OF c_load_tail(2)]
  then show ?case using c_load_tail(1)
    by (auto simp: spsc_inv_def spsc_parts ring_ok_def split: pc.splits)
next
  case (c_begin st a)
  note d = spsc_invD [OF c_begin(3)]
  then show ?case using c_begin(1,2)
    by (auto simp: spsc_inv_def spsc_parts ring_ok_def split: pc.splits)
next
  case (p_copy st h c j)
  then show ?case by (intro p_copy_inv)
next
  case (p_publish st h c)
  then show ?case by (intro p_publish_inv)
next
  case (c_copy st t c j)
  then show ?case by (intro c_copy_inv)
next
  case (c_release st t c)
  then show ?case by (intro c_release_inv)
qed (auto simp: spsc_inv_def spsc_parts ring_ok_def split: pc.splits)

lemma spsc_init_inv:
  "0 < n \<Longrightarrow> n < 2 ^ 63 \<Longrightarrow> length mem = n \<Longrightarrow> spsc_inv (spsc_init n nb mem)"
  by (simp add: spsc_inv_def spsc_parts spsc_init_def ring_ok_def ring_contents_def used_eq)

lemma reachable_inv: "reachable init st \<Longrightarrow> spsc_inv init \<Longrightarrow> spsc_inv st"
  by (induction rule: reachable.induct) (auto intro: spsc_step_inv)

section \<open>The steps as functions\<close>

text \<open>
  Each thread is deterministic: \<open>p_move\<close> and \<open>c_move\<close> compute its next step (a thread outside a
  call is started by \<open>p_start\<close> and \<open>c_start\<close>), so runs can be evaluated.
\<close>

definition p_start :: "byte list \<Rightarrow> spsc \<Rightarrow> spsc" where
  "p_start bs st = st\<lparr>p_pc := Loop, p_src := bs, p_written := 0, p_spins := 0\<rparr>"

definition c_start :: "nat \<Rightarrow> spsc \<Rightarrow> spsc" where
  "c_start n st = st\<lparr>c_pc := Loop, c_n := n, c_dest := [], c_read := 0, c_spins := 0\<rparr>"

definition p_move :: "spsc \<Rightarrow> spsc" where
  "p_move st = (case p_pc st of
     Loop \<Rightarrow> if p_written st < length (p_src st) then st\<lparr>p_pc := Loaded_head (head st)\<rparr>
       else st\<lparr>p_pc := Returned\<rparr>
   | Loaded_head h \<Rightarrow> st\<lparr>p_pc := Avail (free (size st) h (tail st))\<rparr>
   | Avail a \<Rightarrow> if a = 0 then
         (if nonblock st then
            (if p_written st > 0 \<or> p_spins st > 100 then st\<lparr>p_pc := Returned\<rparr>
             else st\<lparr>p_pc := Loop, p_spins := p_spins st + 1\<rparr>)
          else st\<lparr>p_pc := Loop\<rparr>)
       else st\<lparr>p_pc := Copying (head st) (min a (length (p_src st) - p_written st)) 0\<rparr>
   | Copying h c j \<Rightarrow> if j < c
       then st\<lparr>p_pc := Copying h c (Suc j),
         data := (data st)[copy_index (size st) h c j := p_src st ! (p_written st + j)]\<rparr>
       else st\<lparr>p_pc := Loop, head := (h + c) mod size st, p_written := p_written st + c,
         sent := sent st @ slice (p_written st) c (p_src st)\<rparr>
   | Returned \<Rightarrow> p_start [] st)"

definition c_move :: "spsc \<Rightarrow> spsc" where
  "c_move st = (case c_pc st of
     Loop \<Rightarrow> if c_read st < c_n st then st\<lparr>c_pc := Loaded_head (head st)\<rparr>
       else st\<lparr>c_pc := Returned\<rparr>
   | Loaded_head h \<Rightarrow> st\<lparr>c_pc := Avail (used (size st) h (tail st))\<rparr>
   | Avail a \<Rightarrow> if a = 0 then
         (if nonblock st then
            (if c_read st > 0 \<or> c_spins st > 1000000 then st\<lparr>c_pc := Returned\<rparr>
             else st\<lparr>c_pc := Loop, c_spins := c_spins st + 1\<rparr>)
          else st\<lparr>c_pc := Loop\<rparr>)
       else st\<lparr>c_pc := Copying (tail st) (min a (c_n st - c_read st)) 0\<rparr>
   | Copying t c j \<Rightarrow> if j < c
       then st\<lparr>c_pc := Copying t c (Suc j),
         c_dest := c_dest st @ [data st ! copy_index (size st) t c j]\<rparr>
       else st\<lparr>c_pc := Loop, tail := (t + c) mod size st, c_read := c_read st + c,
         received := received st @ drop (c_read st) (c_dest st)\<rparr>
   | Returned \<Rightarrow> c_start 0 st)"

lemma p_move_step:
  assumes "spsc_inv st"
  shows "spsc_step st (p_move st)"
proof (cases "p_pc st")
  case Loop
  then show ?thesis using spsc_step.p_return [of st] spsc_step.p_load_head [of st]
    by (simp add: p_move_def)
next
  case (Avail a)
  then show ?thesis
    using spsc_step.p_give_up [of st] spsc_step.p_spin [of st] spsc_step.p_block [of st]
      spsc_step.p_begin [of st a]
    by (auto simp: p_move_def)
next
  case (Copying h c j)
  then have "j \<le> c" using assms by (simp add: spsc_inv_def producer_part_def)
  then show ?thesis
    using spsc_step.p_copy [of st h c j] spsc_step.p_publish [of st h c] Copying
    by (auto simp: p_move_def)
qed (auto simp: p_move_def p_start_def intro: spsc_step.intros)

lemma c_move_step:
  assumes "spsc_inv st"
  shows "spsc_step st (c_move st)"
proof (cases "c_pc st")
  case Loop
  then show ?thesis using spsc_step.c_return [of st] spsc_step.c_load_head [of st]
    by (simp add: c_move_def)
next
  case (Avail a)
  then show ?thesis
    using spsc_step.c_give_up [of st] spsc_step.c_spin [of st] spsc_step.c_block [of st]
      spsc_step.c_begin [of st a]
    by (auto simp: c_move_def)
next
  case (Copying t c j)
  then have "j \<le> c" using assms by (simp add: spsc_inv_def consumer_part_def)
  then show ?thesis
    using spsc_step.c_copy [of st t c j] spsc_step.c_release [of st t c] Copying
    by (auto simp: c_move_def)
qed (auto simp: c_move_def c_start_def intro: spsc_step.intros)

lemma reachable_moves:
  assumes "reachable i st" and "spsc_inv i"
  shows "reachable i ((p_move ^^ k) st)" and "reachable i ((c_move ^^ k) st)"
proof -
  have "reachable i st' \<Longrightarrow> reachable i (p_move st')" "reachable i st' \<Longrightarrow> reachable i (c_move st')"
    for st'
    using reachable_inv [OF _ assms(2)] p_move_step c_move_step reachable.step by blast+
  with assms(1) show "reachable i ((p_move ^^ k) st)" "reachable i ((c_move ^^ k) st)"
    by (induction k) auto
qed

lemma reachable_starts:
  "reachable i st \<Longrightarrow> p_pc st = Returned \<Longrightarrow> reachable i (p_start bs st)"
  "reachable i st \<Longrightarrow> c_pc st = Returned \<Longrightarrow> reachable i (c_start n st)"
  unfolding p_start_def c_start_def by (auto intro: reachable.step spsc_step.intros)

section \<open>Properties\<close>

text \<open>A run of a ring of four bytes: two bytes published, then both threads inside a copy.\<close>

definition example_run :: spsc where
  "example_run = (c_move ^^ 3) (c_start 1 ((p_move ^^ 3) (p_start [3]
     ((p_move ^^ 7) (p_start [1, 2] (spsc_init 4 True [0, 0, 0, 0]))))))"

lemma example_init: "spsc_inv (spsc_init 4 True [0, 0, 0, 0])"
  by (rule spsc_init_inv) simp_all

lemma funpow_3: "(f ^^ 3) x = f (f (f x))"
  by (simp add: eval_nat_numeral)

lemma funpow_7: "(f ^^ 7) x = f (f (f (f (f (f (f x))))))"
  by (simp add: eval_nat_numeral)

lemmas move_eval = funpow_3 funpow_7 spsc_init_def p_move_def c_move_def p_start_def c_start_def
  copy_index_def used_eq free_eq slice_def

lemma example_mid:
  "(p_move ^^ 7) (p_start [1, 2] (spsc_init 4 True [0, 0, 0, 0])) =
    (spsc_init 4 True [1, 2, 0, 0])\<lparr>p_src := [1, 2], p_written := 2, head := 2, sent := [1, 2]\<rparr>"
  by (simp add: move_eval)

lemma example_run_eq:
  "example_run = (spsc_init 4 True [1, 2, 0, 0])\<lparr>p_src := [3], p_pc := Copying 2 1 0,
     head := 2, sent := [1, 2], c_pc := Copying 0 1 0, c_n := 1\<rparr>"
  unfolding example_run_def example_mid
  by (simp add: move_eval)

lemma example_reachable: "reachable (spsc_init 4 True [0, 0, 0, 0]) example_run"
  unfolding example_run_def
  by (intro reachable_moves reachable_starts reachable.start example_init)
    (simp_all only: example_mid, simp_all add: move_eval)

text \<open>C1: under every interleaving of one producer and one consumer thread, what the consumer has
  received is a prefix of what the producer has sent, in order, without loss or duplication, and
  at most \<open>size - 1\<close> bytes are in flight.
\<close>

theorem spsc_fifo:
  assumes "reachable (spsc_init n nb mem) st" and "0 < n" "n < 2 ^ 63" "length mem = n"
  shows "\<exists>rest. sent st = received st @ rest \<and> length rest < n"
proof -
  have inv: "spsc_inv st" using reachable_inv [OF assms(1) spsc_init_inv [OF assms(2-4)]] .
  have "size st = n" using assms(1)
    by (induction rule: reachable.induct) (auto simp: spsc_init_def elim!: spsc_step.cases)
  moreover note d = spsc_invD [OF inv]
  ultimately have "used (size st) (head st) (tail st) < n"
    using used_free [OF d(1-3)] d(1) by linarith
  with d(5) show ?thesis by (intro exI) auto
qed

theorem spsc_fifo_witness:
  "\<exists>rest. sent example_run = received example_run @ rest \<and> length rest < 4"
  by (rule spsc_fifo [OF example_reachable]) simp_all

text \<open>C17: there is no data race on the ring's memory: whenever the producer is about to write a byte
  and the consumer is about to read one, they touch different bytes, and both lie inside the ring.
\<close>

theorem spsc_no_data_race:
  assumes "reachable (spsc_init n nb mem) st" and "0 < n" "n < 2 ^ 63" "length mem = n"
    and "p_pc st = Copying h c j" "j < c" and "c_pc st = Copying t c' j'" "j' < c'"
  shows "copy_index (size st) h c j \<noteq> copy_index (size st) t c' j' \<and>
    copy_index (size st) h c j < length (data st) \<and> copy_index (size st) t c' j' < length (data st)"
proof -
  have "spsc_inv st" using reachable_inv [OF assms(1) spsc_init_inv [OF assms(2-4)]] .
  note d = spsc_invD [OF this]
  have p: "h = head st" "c \<le> free (size st) h (tail st)"
    using d(6) assms(5) by (auto simp: producer_part_def)
  have r: "t = tail st" "c' \<le> used (size st) (head st) t"
    using d(7) assms(7) by (auto simp: consumer_part_def)
  have le: "c \<le> size st" "c' \<le> size st" using p r used_free [OF d(1-3)] by auto
  have i: "copy_index (size st) h c j = (h + j) mod size st"
      "copy_index (size st) t c' j' = (t + j') mod size st"
    using copy_index_mod p(1) r(1) d(1,2) le assms(6,8) by auto
  have "size st \<noteq> 1" using p d(1) assms(6) used_free [OF d(1-3)] by auto
  with d(4) have "length (data st) = size st" by simp
  then show ?thesis
    using used_free_disjoint [OF d(1-3), of j' j] p r assms(6,8) d(1) unfolding i by auto
qed

theorem spsc_no_data_race_witness:
  "copy_index 4 2 1 0 \<noteq> copy_index 4 0 1 0 \<and> copy_index 4 2 1 0 < (4::nat)"
  using spsc_no_data_race [OF example_reachable, of 2 1 0 0 1 0]
  by (simp add: example_run_eq spsc_init_def)



end
