(* ===== verification/Iostream.thy ===== *)
theory Iostream
  imports Streambuf
begin

text \<open>
  What the library uses of the C++ standard streams: \<open>std::istream\<close> and \<open>std::ostream\<close> over a
  stream buffer given by its virtual functions.  The buffer may be any of the library's own
  (theories \<open>Ringbuf\<close>, \<open>Membuf\<close>, \<open>Countbuf\<close>) or the standard string buffer defined here.
\<close>

section \<open>Stream buffers and streams\<close>

text \<open>
  The functions of a stream buffer that a stream calls.  \<open>in_avail\<close> is what the buffer knows of
  the bytes it can deliver without waiting; \<open>seekoff\<close> and \<open>seekpos\<close> answer \<open>-1\<close> on failure.
\<close>

record 'b vtable =
  sgetn :: "nat \<Rightarrow> 'b \<Rightarrow> (byte list \<times> 'b) cpp"
  sputn :: "byte list \<Rightarrow> 'b \<Rightarrow> (nat \<times> 'b) cpp"
  in_avail :: "'b \<Rightarrow> int"
  sseekoff :: "int \<Rightarrow> seekdir \<Rightarrow> openmode \<Rightarrow> 'b \<Rightarrow> (int \<times> 'b) cpp"
  sseekpos :: "int \<Rightarrow> openmode \<Rightarrow> 'b \<Rightarrow> (int \<times> 'b) cpp"

record 'b stream =
  rdbuf :: 'b
  eofbit :: bool
  failbit :: bool
  badbit :: bool
  gcount :: nat

definition mk_stream :: "'b \<Rightarrow> 'b stream" where
  "mk_stream b = \<lparr>rdbuf = b, eofbit = False, failbit = False, badbit = False, gcount = 0\<rparr>"

definition good :: "'b stream \<Rightarrow> bool" where
  "good st \<longleftrightarrow> \<not> eofbit st \<and> \<not> failbit st \<and> \<not> badbit st"

definition fail :: "'b stream \<Rightarrow> bool" where
  "fail st \<longleftrightarrow> failbit st \<or> badbit st"

definition clear :: "'b stream \<Rightarrow> 'b stream" where
  "clear st = st\<lparr>eofbit := False, failbit := False, badbit := False\<rparr>"

text \<open>The sentry of an unformatted input function: a stream that is not good fails.\<close>

definition sentry :: "'b stream \<Rightarrow> 'b stream" where
  "sentry st = (if good st then st else st\<lparr>failbit := True\<rparr>)"

text \<open>
  \<open>istream::read\<close>: the count is a signed 64-bit integer, so a \<open>size_t\<close> from \<open>2 ^ 63\<close> on asks for a
  negative number of bytes and gets none.
\<close>

definition istream_read :: "'b vtable \<Rightarrow> nat \<Rightarrow> 'b stream \<Rightarrow> (byte list \<times> 'b stream) cpp" where
  "istream_read V n st =
     (if good st then
        bindE (sgetn V (if n < 2 ^ 63 then n else 0) (rdbuf st)) (\<lambda>(bs, b).
          let st' = st\<lparr>rdbuf := b, gcount := length bs\<rparr>
          in Inr (bs, if length bs = n then st' else st'\<lparr>eofbit := True, failbit := True\<rparr>))
      else Inr ([], st\<lparr>gcount := 0, failbit := True\<rparr>))"

definition ostream_write :: "'b vtable \<Rightarrow> byte list \<Rightarrow> 'b stream \<Rightarrow> 'b stream cpp" where
  "ostream_write V bs st =
     (if good st then
        bindE (sputn V bs (rdbuf st)) (\<lambda>(k, b).
          Inr (if k = length bs then st\<lparr>rdbuf := b\<rparr> else st\<lparr>rdbuf := b, badbit := True\<rparr>))
      else Inr (st\<lparr>failbit := True\<rparr>))"

definition tellg :: "'b vtable \<Rightarrow> 'b stream \<Rightarrow> (int \<times> 'b stream) cpp" where
  "tellg V st = (let st = sentry st in
     if fail st then Inr (-1, st)
     else bindE (sseekoff V 0 Cur only_in (rdbuf st)) (\<lambda>(p, b). Inr (p, st\<lparr>rdbuf := b\<rparr>)))"

definition tellp :: "'b vtable \<Rightarrow> 'b stream \<Rightarrow> (int \<times> 'b stream) cpp" where
  "tellp V st =
     (if fail st then Inr (-1, st)
      else bindE (sseekoff V 0 Cur only_out (rdbuf st)) (\<lambda>(p, b). Inr (p, st\<lparr>rdbuf := b\<rparr>)))"

definition seekg_with :: "('b \<Rightarrow> (int \<times> 'b) cpp) \<Rightarrow> 'b stream \<Rightarrow> 'b stream cpp" where
  "seekg_with f st = (let st = sentry (st\<lparr>eofbit := False\<rparr>) in
     if fail st then Inr st
     else bindE (f (rdbuf st)) (\<lambda>(p, b).
       Inr (if p = -1 then st\<lparr>rdbuf := b, failbit := True\<rparr> else st\<lparr>rdbuf := b\<rparr>)))"

definition seekp_with :: "('b \<Rightarrow> (int \<times> 'b) cpp) \<Rightarrow> 'b stream \<Rightarrow> 'b stream cpp" where
  "seekp_with f st =
     (if fail st then Inr st
      else bindE (f (rdbuf st)) (\<lambda>(p, b).
        Inr (if p = -1 then st\<lparr>rdbuf := b, failbit := True\<rparr> else st\<lparr>rdbuf := b\<rparr>)))"

definition seekg :: "'b vtable \<Rightarrow> int \<Rightarrow> 'b stream \<Rightarrow> 'b stream cpp" where
  "seekg V p = seekg_with (sseekpos V p only_in)"

definition seekg_off :: "'b vtable \<Rightarrow> int \<Rightarrow> seekdir \<Rightarrow> 'b stream \<Rightarrow> 'b stream cpp" where
  "seekg_off V off way = seekg_with (sseekoff V off way only_in)"

definition seekp :: "'b vtable \<Rightarrow> int \<Rightarrow> 'b stream \<Rightarrow> 'b stream cpp" where
  "seekp V p = seekp_with (sseekpos V p only_out)"

definition seekp_off :: "'b vtable \<Rightarrow> int \<Rightarrow> seekdir \<Rightarrow> 'b stream \<Rightarrow> 'b stream cpp" where
  "seekp_off V off way = seekp_with (sseekoff V off way only_out)"

text \<open>
  \<open>ostream::flush\<close> and \<open>istream::sync\<close> call \<open>pubsync\<close>, which none of the buffers here overrides: it
  answers 0 and does nothing.  On input the sentry may still set the fail bit.
\<close>

definition flush :: "'b stream \<Rightarrow> 'b stream" where
  "flush st = st"

definition istream_sync :: "'b stream \<Rightarrow> 'b stream" where
  "istream_sync st = sentry st"

section \<open>The contracts of a source and of a sink\<close>

text \<open>
  A source delivers the bytes \<open>ahead\<close> of its get position in order; a sink accepts up to \<open>room\<close>
  bytes and keeps them after what it holds.
\<close>

locale byte_source =
  fixes V :: "'b vtable"
    and ahead :: "'b \<Rightarrow> byte list"
    and src_inv :: "'b \<Rightarrow> bool"
  assumes sgetn_ok: "src_inv b \<Longrightarrow> n < 2 ^ 31 \<Longrightarrow> \<exists>b'. sgetn V n b = Inr (take n (ahead b), b') \<and>
      src_inv b' \<and> ahead b' = drop n (ahead b)"
begin

lemma istream_read_ok:
  assumes "src_inv (rdbuf st)" and "good st" and "n \<le> length (ahead (rdbuf st))" and "n < 2 ^ 31"
  shows "\<exists>b. istream_read V n st =
      Inr (take n (ahead (rdbuf st)), st\<lparr>rdbuf := b, gcount := n\<rparr>) \<and>
    src_inv b \<and> ahead b = drop n (ahead (rdbuf st))"
  using sgetn_ok [OF assms(1,4)] assms(2-4) by (auto simp: istream_read_def)

lemma istream_read_short:
  assumes "src_inv (rdbuf st)" and "good st" and "length (ahead (rdbuf st)) < n" and "n < 2 ^ 31"
  shows "\<exists>b. istream_read V n st = Inr (ahead (rdbuf st),
      st\<lparr>rdbuf := b, gcount := length (ahead (rdbuf st)), eofbit := True, failbit := True\<rparr>) \<and>
    src_inv b \<and> ahead b = []"
  using sgetn_ok [OF assms(1,4)] assms(2-4) by (auto simp: istream_read_def)

lemma istream_read_gcount:
  assumes "src_inv (rdbuf st)" and "n < 2 ^ 31" and "istream_read V n st = Inr (bs, st')"
  shows "gcount st' = length bs \<and> gcount st' \<le> n \<and> (gcount st' < n \<longrightarrow> failbit st')"
  using assms sgetn_ok [OF assms(1,2)]
  by (auto simp: istream_read_def Let_def split: if_splits)

end

locale byte_sink =
  fixes V :: "'b vtable"
    and held :: "'b \<Rightarrow> byte list"
    and room :: "'b \<Rightarrow> nat"
    and snk_inv :: "'b \<Rightarrow> bool"
  assumes sputn_ok: "snk_inv b \<Longrightarrow> length bs \<le> room b \<Longrightarrow> length bs < 2 ^ 31 \<Longrightarrow>
      \<exists>b'. sputn V bs b = Inr (length bs, b') \<and> snk_inv b' \<and> held b' = held b @ bs \<and>
        room b \<le> room b' + length bs"
begin

lemma ostream_write_ok:
  assumes "snk_inv (rdbuf st)" and "good st" and "length bs \<le> room (rdbuf st)"
    and "length bs < 2 ^ 31"
  shows "\<exists>b. ostream_write V bs st = Inr (st\<lparr>rdbuf := b\<rparr>) \<and> snk_inv b \<and>
    held b = held (rdbuf st) @ bs \<and> room (rdbuf st) \<le> room b + length bs"
  using sputn_ok [OF assms(1,3,4)] assms(2) by (auto simp: ostream_write_def)

end

section \<open>The string buffer of the standard library\<close>

text \<open>
  \<open>std::stringbuf\<close> opened for input and output: one sequence with a get and a put position.
  A write at the put position overwrites and extends.
\<close>

record stringbuf =
  str :: "byte list"
  gpos :: nat
  ppos :: nat

definition stringbuf_sgetn :: "nat \<Rightarrow> stringbuf \<Rightarrow> (byte list \<times> stringbuf) cpp" where
  "stringbuf_sgetn n b = (let bs = slice (gpos b) n (str b)
     in Inr (bs, b\<lparr>gpos := gpos b + length bs\<rparr>))"

definition stringbuf_sputn :: "byte list \<Rightarrow> stringbuf \<Rightarrow> (nat \<times> stringbuf) cpp" where
  "stringbuf_sputn bs b =
     Inr (length bs, b\<lparr>str := blit (ppos b) bs (str b), ppos := ppos b + length bs\<rparr>)"

definition stringbuf_target :: "int \<Rightarrow> seekdir \<Rightarrow> nat \<Rightarrow> nat \<Rightarrow> int" where
  "stringbuf_target off way pos len =
     (case way of Beg \<Rightarrow> off | Cur \<Rightarrow> int pos + off | End \<Rightarrow> int len + off)"

definition stringbuf_seekoff ::
  "int \<Rightarrow> seekdir \<Rightarrow> openmode \<Rightarrow> stringbuf \<Rightarrow> (int \<times> stringbuf) cpp" where
  "stringbuf_seekoff off way which b =
     (let p = stringbuf_target off way (if m_in which then gpos b else ppos b) (length (str b))
      in if 0 \<le> p \<and> p \<le> int (length (str b)) \<and> (m_in which \<or> m_out which)
         then Inr (p, (if m_in which then b\<lparr>gpos := nat p\<rparr> else b\<lparr>ppos := nat p\<rparr>))
         else Inr (-1, b))"

definition stringbuf_vtable :: "stringbuf vtable" where
  "stringbuf_vtable = \<lparr>sgetn = stringbuf_sgetn, sputn = stringbuf_sputn,
     in_avail = (\<lambda>b. int (length (str b)) - int (gpos b)),
     sseekoff = stringbuf_seekoff, sseekpos = (\<lambda>p. stringbuf_seekoff p Beg)\<rparr>"

definition stringbuf_inv :: "stringbuf \<Rightarrow> bool" where
  "stringbuf_inv b \<longleftrightarrow> gpos b \<le> length (str b) \<and> ppos b \<le> length (str b)"

interpretation string_source: byte_source stringbuf_vtable
  "\<lambda>b. drop (gpos b) (str b)" stringbuf_inv
  by unfold_locales
    (auto simp: stringbuf_vtable_def stringbuf_sgetn_def Let_def slice_def stringbuf_inv_def
      add.commute min_def)

interpretation string_sink: byte_sink stringbuf_vtable
  "\<lambda>b. take (ppos b) (str b)" "\<lambda>_. 2 ^ 64" "\<lambda>b. ppos b \<le> length (str b)"
  by unfold_locales
    (auto simp: stringbuf_vtable_def stringbuf_sputn_def blit_def min_def)

end
