(* ===== verification/Membuf.thy ===== *)
theory Membuf
  imports Iostream
begin

text \<open>
  \<open>iostreams::memory_streambuf\<close> of include/iostreams/memory_streambuf.hpp: a stream buffer over a
  fixed region of memory.  The pointers \<open>gptr\<close> and \<open>pptr\<close> are offsets from the region's start
  (\<open>eback\<close> and \<open>pbase\<close>), the ends \<open>egptr\<close> and \<open>epptr\<close> its length; they are integers because
  \<open>pbump\<close> and \<open>gbump\<close> take an \<open>int\<close>, to which the source casts the count.
\<close>

section \<open>State and operations\<close>

record membuf =
  mem :: "byte list"
  gptr :: int
  pptr :: int

definition memory_ctor :: "byte list \<Rightarrow> membuf" where
  "memory_ctor data = \<lparr>mem = data, gptr = 0, pptr = 0\<rparr>"

abbreviation m_end :: "membuf \<Rightarrow> int" where
  "m_end b \<equiv> int (length (mem b))"

text \<open>A copy of \<open>n\<close> bytes at a pointer outside the region is undefined.\<close>

definition memory_xsputn :: "byte list \<Rightarrow> membuf \<Rightarrow> (nat \<times> membuf) cpp" where
  "memory_xsputn s b =
     (let avail = m_end b - pptr b;
          n = (if int (length s) > avail then avail else int (length s))
      in if n = 0 then Inr (0, b)
         else if pptr b < 0 \<or> n < 0 then Inl Out_of_bounds
         else Inr (nat n, b\<lparr>mem := blit (nat (pptr b)) (take (nat n) s) (mem b),
                           pptr := pptr b + i32 n\<rparr>))"

definition memory_xsgetn :: "nat \<Rightarrow> membuf \<Rightarrow> (byte list \<times> membuf) cpp" where
  "memory_xsgetn k b =
     (let avail = m_end b - gptr b;
          n = (if int k > avail then avail else int k)
      in if n = 0 then Inr ([], b)
         else if gptr b < 0 \<or> n < 0 then Inl Out_of_bounds
         else Inr (slice (nat (gptr b)) (nat n) (mem b), b\<lparr>gptr := gptr b + i32 n\<rparr>))"

text \<open>\<open>traits_type::eof()\<close> is \<open>-1\<close>; a character is its value as an unsigned byte.\<close>

definition eof :: int where
  "eof = -1"

definition memory_overflow :: "int \<Rightarrow> membuf \<Rightarrow> (int \<times> membuf) cpp" where
  "memory_overflow ch b =
     (if ch = eof then Inr (eof, b)
      else if pptr b < m_end b then
        (if pptr b < 0 then Inl Out_of_bounds
         else Inr (ch, b\<lparr>mem := (mem b)[nat (pptr b) := word_of_int ch], pptr := pptr b + 1\<rparr>))
      else Inr (eof, b))"

definition memory_underflow :: "membuf \<Rightarrow> int cpp" where
  "memory_underflow b =
     (if gptr b < m_end b then
        (if gptr b < 0 then Inl Out_of_bounds else Inr (uint (mem b ! nat (gptr b))))
      else Inr eof)"

definition memory_seekoff :: "int \<Rightarrow> seekdir \<Rightarrow> openmode \<Rightarrow> membuf \<Rightarrow> (int \<times> membuf) cpp" where
  "memory_seekoff off way which b =
     (if m_in which then
        (let newpos = (case way of Beg \<Rightarrow> off | Cur \<Rightarrow> gptr b + off | End \<Rightarrow> m_end b + off)
         in if newpos < 0 \<or> newpos > m_end b then Inr (-1, b)
            else Inr (newpos, b\<lparr>gptr := newpos\<rparr>))
      else if m_out which then
        (let newpos = (case way of Beg \<Rightarrow> off | Cur \<Rightarrow> pptr b + off | End \<Rightarrow> m_end b + off)
         in if newpos < 0 \<or> newpos > m_end b then Inr (-1, b)
            else Inr (newpos, b\<lparr>pptr := i32 newpos\<rparr>))
      else Inr (-1, b))"

definition memory_seekpos :: "int \<Rightarrow> openmode \<Rightarrow> membuf \<Rightarrow> (int \<times> membuf) cpp" where
  "memory_seekpos sp which b = memory_seekoff sp Beg which b"

definition memory_vtable :: "membuf vtable" where
  "memory_vtable = \<lparr>sgetn = memory_xsgetn, sputn = memory_xsputn,
     in_avail = (\<lambda>b. m_end b - gptr b), sseekoff = memory_seekoff, sseekpos = memory_seekpos\<rparr>"

section \<open>Invariant and contracts\<close>

definition membuf_inv :: "membuf \<Rightarrow> bool" where
  "membuf_inv b \<longleftrightarrow> 0 \<le> gptr b \<and> gptr b \<le> m_end b \<and> 0 \<le> pptr b \<and> pptr b \<le> m_end b \<and>
     m_end b < 2 ^ 31"

definition unread :: "membuf \<Rightarrow> byte list" where
  "unread b = drop (nat (gptr b)) (mem b)"

lemma memory_ctor_inv: "length data < 2 ^ 31 \<Longrightarrow> membuf_inv (memory_ctor data)"
  by (simp add: membuf_inv_def memory_ctor_def)

lemma memory_xsputn_eq:
  assumes "membuf_inv b"
  shows "memory_xsputn s b = (let n = min (length s) (nat (m_end b - pptr b)) in
    Inr (n, b\<lparr>mem := blit (nat (pptr b)) (take n s) (mem b), pptr := pptr b + int n\<rparr>))"
proof -
  have bounds: "0 \<le> pptr b" "pptr b \<le> m_end b" "m_end b < 2 ^ 31"
    using assms by (simp_all add: membuf_inv_def)
  show ?thesis
  proof (cases "int (length s) > m_end b - pptr b")
    case True
    then show ?thesis using bounds
      by (auto simp: memory_xsputn_def Let_def min_def)
  next
    case False
    then show ?thesis using bounds
      by (auto simp: memory_xsputn_def Let_def min_def)
  qed
qed

lemma memory_xsgetn_eq:
  assumes "membuf_inv b"
  shows "memory_xsgetn n b = Inr (take n (unread b),
    b\<lparr>gptr := gptr b + int (min n (length (unread b)))\<rparr>)"
proof -
  have bounds: "0 \<le> gptr b" "gptr b \<le> m_end b" "m_end b < 2 ^ 31"
    using assms by (simp_all add: membuf_inv_def)
  show ?thesis
  proof (cases "int n > m_end b - gptr b")
    case True
    then show ?thesis using bounds
      by (auto simp: memory_xsgetn_def Let_def min_def unread_def slice_def)
  next
    case False
    then show ?thesis using bounds
      by (auto simp: memory_xsgetn_def Let_def min_def unread_def slice_def)
  qed
qed

lemma memory_seekoff_inv:
  assumes "membuf_inv b"
  shows "\<exists>p b'. memory_seekoff off way which b = Inr (p, b') \<and> membuf_inv b' \<and> mem b' = mem b"
  using assms by (auto simp: memory_seekoff_def membuf_inv_def Let_def split: seekdir.splits)

interpretation memory_source: byte_source memory_vtable unread membuf_inv
  by unfold_locales
    (auto simp: memory_vtable_def memory_xsgetn_eq membuf_inv_def unread_def nat_add_distrib
      min_def add.commute)

interpretation memory_sink: byte_sink memory_vtable
  "\<lambda>b. take (nat (pptr b)) (mem b)" "\<lambda>b. nat (m_end b - pptr b)" membuf_inv
proof
  fix b :: membuf and bs :: "byte list"
  assume inv: "membuf_inv b" and le: "length bs \<le> nat (m_end b - pptr b)"
  let ?p = "nat (pptr b)"
  let ?b = "b\<lparr>mem := blit ?p bs (mem b), pptr := pptr b + int (length bs)\<rparr>"
  have fit: "?p + length bs \<le> length (mem b)" using inv le by (auto simp: membuf_inv_def)
  have "sputn memory_vtable bs b = Inr (length bs, ?b)"
    using memory_xsputn_eq [OF inv, of bs] le
    by (simp add: memory_vtable_def Let_def min_def)
  moreover have "membuf_inv ?b" using inv fit by (auto simp: membuf_inv_def length_blit)
  moreover have "nat (pptr b + int (length bs)) = ?p + length bs"
    using inv by (simp add: membuf_inv_def nat_add_distrib)
  ultimately show "\<exists>b'. sputn memory_vtable bs b = Inr (length bs, b') \<and> membuf_inv b' \<and>
      take (nat (pptr b')) (mem b') = take ?p (mem b) @ bs \<and>
      nat (m_end b - pptr b) \<le> nat (m_end b' - pptr b') + length bs"
    using fit inv
    by (auto simp: take_blit length_blit membuf_inv_def)
qed

section \<open>Properties\<close>

text \<open>A write into the region stores as many bytes as are left, at the put position, changes no
  byte elsewhere, advances the position by what it stored, and never leaves the region; a read
  copies what is left at the get position and changes nothing but that position.
\<close>

theorem memory_read_write_functional:
  assumes "membuf_inv b" and "k = min (length s) (nat (m_end b - pptr b))"
  shows "\<exists>b1 b2. memory_xsputn s b = Inr (k, b1) \<and> membuf_inv b1 \<and>
    slice (nat (pptr b)) k (mem b1) = take k s \<and> gptr b1 = gptr b \<and> pptr b1 = pptr b + int k \<and>
    (\<forall>i < length (mem b). i < nat (pptr b) \<or> nat (pptr b) + k \<le> i \<longrightarrow> mem b1 ! i = mem b ! i) \<and>
    memory_xsgetn n b = Inr (take n (unread b), b2) \<and> membuf_inv b2 \<and> mem b2 = mem b \<and>
    unread b2 = drop n (unread b) \<and> pptr b2 = pptr b"
proof -
  let ?p = "nat (pptr b)"
  have fit: "?p + length (take k s) \<le> length (mem b)"
    using assms by (auto simp: membuf_inv_def)
  have "slice ?p k (blit ?p (take k s) (mem b)) = take k s"
    using slice_blit [of ?p "mem b" "take k s"] fit assms(2) by simp
  moreover have "blit ?p (take k s) (mem b) ! i = mem b ! i"
    if "i < length (mem b)" "i < ?p \<or> ?p + k \<le> i" for i
    using nth_blit [OF fit that(1)] that(2) assms(2) by auto
  moreover define b1 where "b1 = b\<lparr>mem := blit ?p (take k s) (mem b), pptr := pptr b + int k\<rparr>"
  moreover have "membuf_inv b1"
    using assms fit by (auto simp: membuf_inv_def length_blit b1_def)
  moreover define b2 where "b2 = b\<lparr>gptr := gptr b + int (min n (length (unread b)))\<rparr>"
  moreover have "membuf_inv b2" "unread b2 = drop n (unread b)"
    using assms(1)
    by (auto simp: membuf_inv_def unread_def nat_add_distrib min_def add.commute b2_def)
  moreover have "memory_xsputn s b = Inr (k, b1)"
    using memory_xsputn_eq [OF assms(1), of s] by (simp add: Let_def assms(2) b1_def)
  moreover have "memory_xsgetn n b = Inr (take n (unread b), b2)"
    using memory_xsgetn_eq [OF assms(1), of n] by (simp add: b2_def)
  ultimately show ?thesis by (intro exI [of _ b1] exI [of _ b2]) simp
qed

theorem memory_read_write_functional_witness:
  "\<exists>b1 b2. memory_xsputn [7, 8, 9] (memory_ctor [1, 2]) = Inr (2, b1) \<and>
     memory_xsgetn 1 (memory_ctor [1, 2]) = Inr ([1], b2) \<and> pptr b1 = 2 \<and> unread b2 = [2]"
  using memory_read_write_functional [of "memory_ctor [1, 2]" 2 "[7, 8, 9]" 1] memory_ctor_inv [of "[1, 2]"]
  by (auto simp: memory_ctor_def unread_def)

text \<open>C38: through a stream, bytes written at the put position are read back after \<open>seekg\<close> to that
  position, for any region and any position in it with room for them.
\<close>

theorem memory_stream_roundtrip:
  assumes "membuf_inv (rdbuf st)" and "good st"
    and "int (length bs) \<le> m_end (rdbuf st) - pptr (rdbuf st)"
  shows "\<exists>st1 st2 st3. ostream_write memory_vtable bs st = Inr st1 \<and>
    seekg memory_vtable (pptr (rdbuf st)) st1 = Inr st2 \<and>
    istream_read memory_vtable (length bs) st2 = Inr (bs, st3) \<and>
    gcount st3 = length bs \<and> good st3"
proof -
  let ?b = "rdbuf st"
  define b1 where "b1 = ?b\<lparr>mem := blit (nat (pptr ?b)) bs (mem ?b), pptr := pptr ?b + int (length bs)\<rparr>"
  define b2 where "b2 = b1\<lparr>gptr := pptr ?b\<rparr>"
  have fit: "nat (pptr ?b) + length bs \<le> length (mem ?b)" "length bs < 2 ^ 31"
    using assms(1,3) by (auto simp: membuf_inv_def)
  have inv2: "membuf_inv b2"
    using assms(1,3) fit by (auto simp: b2_def b1_def membuf_inv_def length_blit)
  have "memory_xsputn bs ?b = Inr (length bs, b1)"
  proof -
    have "min (length bs) (nat (m_end ?b - pptr ?b)) = length bs" using assms(3) by linarith
    with memory_xsputn_eq [OF assms(1), of bs] show ?thesis by (simp add: b1_def Let_def)
  qed
  then have w: "ostream_write memory_vtable bs st = Inr (st\<lparr>rdbuf := b1\<rparr>)"
    using assms(2) by (simp add: ostream_write_def memory_vtable_def)
  have good1: "good (st\<lparr>rdbuf := b\<rparr>)" for b using assms(2) by (simp add: good_def)
  have "memory_seekpos (pptr ?b) only_in b1 = Inr (pptr ?b, b2)"
    using assms(1) fit
    by (auto simp: memory_seekpos_def memory_seekoff_def Let_def b2_def b1_def membuf_inv_def length_blit)
  then have "seekg memory_vtable (pptr ?b) (st\<lparr>rdbuf := b1\<rparr>) = Inr (st\<lparr>rdbuf := b2\<rparr>)"
    using assms(1,2)
    by (simp add: seekg_def seekg_with_def memory_vtable_def sentry_def good_def fail_def Let_def
        membuf_inv_def)
  moreover have "unread b2 = bs @ drop (nat (pptr ?b) + length bs) (mem ?b)"
    using fit by (simp add: unread_def b2_def b1_def blit_def)
  then obtain b3 where "istream_read memory_vtable (length bs) (st\<lparr>rdbuf := b2\<rparr>) =
      Inr (bs, st\<lparr>rdbuf := b3, gcount := length bs\<rparr>)"
    using memory_source.istream_read_ok [of "st\<lparr>rdbuf := b2\<rparr>" "length bs"] inv2 good1 fit(2) by auto
  ultimately show ?thesis using w assms(2) by (force simp: good_def)
qed

theorem memory_stream_roundtrip_witness:
  "\<exists>st1 st2 st3. ostream_write memory_vtable [5, 6] (mk_stream (memory_ctor [0, 0, 0])) = Inr st1 \<and>
     seekg memory_vtable 0 st1 = Inr st2 \<and> istream_read memory_vtable (length [5, 6 :: byte]) st2 =
       Inr ([5, 6], st3)"
proof -
  have "membuf_inv (memory_ctor [0, 0, 0])" by (rule memory_ctor_inv) simp
  then show ?thesis
    using memory_stream_roundtrip [of "mk_stream (memory_ctor [0, 0, 0])" "[5, 6]"]
    by (auto simp: mk_stream_def good_def memory_ctor_def)
qed



text \<open>
  A write of \<open>2 ^ 31\<close> bytes moves the put pointer back by \<open>2 ^ 31\<close>, outside the region, because the
  count is cast to \<open>int\<close>; the next write is undefined.
\<close>

lemma memory_write_past_int_max:
  assumes "length s = 2 ^ 31" and "2 ^ 31 \<le> length data"
  shows "\<exists>b. memory_xsputn s (memory_ctor data) = Inr (2 ^ 31, b) \<and> pptr b = - (2 ^ 31) \<and>
    memory_xsputn [x] b = Inl Out_of_bounds"
proof -
  have "\<exists>b. memory_xsputn s (memory_ctor data) = Inr (2 ^ 31, b) \<and> pptr b = - (2 ^ 31)"
    using assms by (auto simp: memory_xsputn_def memory_ctor_def Let_def i32_def)
  moreover have "memory_xsputn [x] b = Inl Out_of_bounds" if "pptr b = - (2 ^ 31)" for b
    using that by (simp add: memory_xsputn_def Let_def)
  ultimately show ?thesis by blast
qed

end
