(* ===== verification/Countbuf.thy ===== *)
theory Countbuf
  imports Iostream
begin

text \<open>
  \<open>iostreams::counting_streambuf\<close> of include/iostreams/counting_streambuf.hpp: a stream buffer that
  discards what is written, counting it, and reads from a fixed region.  It keeps its own stream
  positions \<open>write_pos\<close> and \<open>read_pos\<close> beside the get and put areas of its base class, which are
  offsets into the region here.
\<close>

section \<open>State and operations\<close>

record countbuf =
  cbuffer :: "byte list option"
  cbuffer_size :: nat
  c_gptr :: int
  c_egptr :: int
  c_pptr :: int
  c_epptr :: int
  write_pos :: int
  read_pos :: int
  clength :: int
  total_bytes_written :: int
  total_bytes_read :: int

definition counting_ctor :: "byte list \<Rightarrow> countbuf" where
  "counting_ctor buf = \<lparr>cbuffer = Some buf, cbuffer_size = length buf,
     c_gptr = 0, c_egptr = int (length buf), c_pptr = 0, c_epptr = int (length buf),
     write_pos = 0, read_pos = 0, clength = 0, total_bytes_written = 0, total_bytes_read = 0\<rparr>"

definition bytes_written :: "countbuf \<Rightarrow> int" where
  "bytes_written b = total_bytes_written b"

definition bytes_read :: "countbuf \<Rightarrow> int" where
  "bytes_read b = total_bytes_read b"

definition counting_xsputn :: "byte list \<Rightarrow> countbuf \<Rightarrow> (nat \<times> countbuf) cpp" where
  "counting_xsputn s b =
     (let n = int (length s);
          b = b\<lparr>total_bytes_written := total_bytes_written b + n, write_pos := write_pos b + n\<rparr>;
          b = (if write_pos b > clength b then b\<lparr>clength := write_pos b\<rparr> else b)
      in Inr (length s, b))"

text \<open>The base class is called through \<open>sputc\<close>: a character goes into the put area while there is
  room, and only then to \<open>overflow\<close>.\<close>

definition counting_overflow :: "int \<Rightarrow> countbuf \<Rightarrow> int \<times> countbuf" where
  "counting_overflow ch b =
     (if ch \<noteq> -1 then
        (let b = b\<lparr>write_pos := write_pos b + 1, total_bytes_written := total_bytes_written b + 1\<rparr>;
             b = (if write_pos b > clength b then b\<lparr>clength := write_pos b\<rparr> else b)
         in (ch, b))
      else (ch, b))"

definition counting_sputc :: "byte \<Rightarrow> countbuf \<Rightarrow> (int \<times> countbuf) cpp" where
  "counting_sputc c b =
     (if c_pptr b < c_epptr b then
        (case cbuffer b of
           Some buf \<Rightarrow> Inr (uint c, b\<lparr>cbuffer := Some (buf[nat (c_pptr b) := c]), c_pptr := c_pptr b + 1\<rparr>)
         | None \<Rightarrow> Inl Null_deref)
      else Inr (counting_overflow (uint c) b))"

definition counting_underflow :: "countbuf \<Rightarrow> (int \<times> countbuf) cpp" where
  "counting_underflow b =
     (if read_pos b < int (cbuffer_size b) then
        (case cbuffer b of
           Some buf \<Rightarrow>
             (if read_pos b < 0 then Inl Out_of_bounds
              else Inr (uint (buf ! nat (read_pos b)),
                b\<lparr>c_gptr := read_pos b, c_egptr := int (cbuffer_size b)\<rparr>))
         | None \<Rightarrow> Inr (32, b))
      else Inr (-1, b))"

text \<open>The loop of \<open>xsgetn\<close>; the first argument bounds its iterations, \<open>out\<close> is what has been read.\<close>

fun counting_xsgetn_loop :: "nat \<Rightarrow> nat \<Rightarrow> byte list \<Rightarrow> countbuf \<Rightarrow> (byte list \<times> countbuf) cpp" where
  "counting_xsgetn_loop 0 n out b = Inl Out_of_fuel"
| "counting_xsgetn_loop (Suc fuel) n out b =
    (if length out < n then
       bindE (if c_gptr b \<ge> c_egptr b then counting_underflow b else Inr (0, b)) (\<lambda>(c, b).
         if c = -1 then Inr (out, b)
         else
           (let avail = c_egptr b - c_gptr b; need = int (n - length out);
                take' = (if avail < need then avail else need)
            in if take' = 0 then counting_xsgetn_loop fuel n out b
               else (case cbuffer b of
                 Some buf \<Rightarrow>
                   counting_xsgetn_loop fuel n (out @ slice (nat (c_gptr b)) (nat take') buf)
                     (b\<lparr>c_gptr := c_gptr b + i32 take', read_pos := read_pos b + take',
                        total_bytes_read := total_bytes_read b + take'\<rparr>)
               | None \<Rightarrow> Inl Null_deref)))
     else Inr (out, b))"

declare counting_xsgetn_loop.simps(2) [simp del]
lemmas counting_loop_step = counting_xsgetn_loop.simps(2)

definition counting_xsgetn :: "nat \<Rightarrow> countbuf \<Rightarrow> (byte list \<times> countbuf) cpp" where
  "counting_xsgetn n b = counting_xsgetn_loop (n + 2) n [] b"

definition counting_seekoff :: "int \<Rightarrow> seekdir \<Rightarrow> openmode \<Rightarrow> countbuf \<Rightarrow> (int \<times> countbuf) cpp" where
  "counting_seekoff off way which b =
     (if m_out which then
        (let wp = (case way of Beg \<Rightarrow> off | Cur \<Rightarrow> write_pos b + off | End \<Rightarrow> clength b + off);
             b = b\<lparr>write_pos := wp\<rparr>;
             b = (if write_pos b > clength b then b\<lparr>clength := write_pos b\<rparr> else b)
         in Inr (wp, b))
      else if m_in which then
        (let rp = (case way of Beg \<Rightarrow> off | Cur \<Rightarrow> read_pos b + off | End \<Rightarrow> clength b + off)
         in Inr (rp, b\<lparr>read_pos := rp\<rparr>))
      else Inr (-1, b))"

definition counting_seekpos :: "int \<Rightarrow> openmode \<Rightarrow> countbuf \<Rightarrow> (int \<times> countbuf) cpp" where
  "counting_seekpos sp which b = counting_seekoff sp Beg which b"

definition counting_vtable :: "countbuf vtable" where
  "counting_vtable = \<lparr>sgetn = counting_xsgetn, sputn = counting_xsputn,
     in_avail = (\<lambda>b. c_egptr b - c_gptr b), sseekoff = counting_seekoff, sseekpos = counting_seekpos\<rparr>"

section \<open>Invariants\<close>

text \<open>
  The get area and the stream position agree as long as the get position has not been moved; the
  region is small enough for \<open>gbump\<close>.
\<close>

definition counting_inv :: "countbuf \<Rightarrow> bool" where
  "counting_inv b = (case cbuffer b of
     Some buf \<Rightarrow> length buf = cbuffer_size b \<and> cbuffer_size b < 2 ^ 31 \<and>
       c_gptr b = read_pos b \<and> 0 \<le> read_pos b \<and> c_egptr b = int (cbuffer_size b) \<and>
       read_pos b \<le> c_egptr b
   | None \<Rightarrow> False)"

definition counting_ahead :: "countbuf \<Rightarrow> byte list" where
  "counting_ahead b = drop (nat (c_gptr b)) (case cbuffer b of Some buf \<Rightarrow> buf | None \<Rightarrow> [])"

definition length_inv :: "countbuf \<Rightarrow> bool" where
  "length_inv b \<longleftrightarrow> 0 \<le> clength b \<and> write_pos b \<le> clength b"

lemma counting_invE:
  assumes "counting_inv b"
  obtains buf where "cbuffer b = Some buf" "length buf = cbuffer_size b" "cbuffer_size b < 2 ^ 31"
    "c_gptr b = read_pos b" "0 \<le> read_pos b" "c_egptr b = int (cbuffer_size b)"
    "read_pos b \<le> c_egptr b" "counting_ahead b = drop (nat (read_pos b)) buf"
  using assms by (auto simp: counting_inv_def counting_ahead_def split: option.splits)

definition after_read :: "nat \<Rightarrow> countbuf \<Rightarrow> countbuf" where
  "after_read k b = b\<lparr>c_gptr := c_gptr b + int k, read_pos := read_pos b + int k,
     total_bytes_read := total_bytes_read b + int k\<rparr>"

lemma after_read_0 [simp]: "after_read 0 b = b"
  by (simp add: after_read_def)

lemma after_read_ok:
  assumes "counting_inv b" and "k \<le> length (counting_ahead b)"
  shows "counting_inv (after_read k b)" "counting_ahead (after_read k b) = drop k (counting_ahead b)"
proof -
  obtain buf where b: "cbuffer b = Some buf" "length buf = cbuffer_size b" "cbuffer_size b < 2 ^ 31"
      "c_gptr b = read_pos b" "0 \<le> read_pos b" "c_egptr b = int (cbuffer_size b)"
      "read_pos b \<le> c_egptr b" "counting_ahead b = drop (nat (read_pos b)) buf"
    using assms(1) by (rule counting_invE)
  then show "counting_inv (after_read k b)"
    using assms(2) by (auto simp: counting_inv_def after_read_def)
  show "counting_ahead (after_read k b) = drop k (counting_ahead b)"
    using b by (simp add: counting_ahead_def after_read_def nat_add_distrib add.commute)
qed

lemma counting_xsgetn_eq:
  assumes "counting_inv b"
  shows "counting_xsgetn n b = (let k = min n (length (counting_ahead b)) in
    Inr (take n (counting_ahead b), if k = 0 then b else after_read k b))"
proof -
  obtain buf where b: "cbuffer b = Some buf" "length buf = cbuffer_size b" "cbuffer_size b < 2 ^ 31"
      "c_gptr b = read_pos b" "0 \<le> read_pos b" "c_egptr b = int (cbuffer_size b)"
      "read_pos b \<le> c_egptr b" "counting_ahead b = drop (nat (read_pos b)) buf"
    using assms by (rule counting_invE)
  define k where "k = min n (length (counting_ahead b))"
  have run: "counting_xsgetn n b = counting_xsgetn_loop (Suc (Suc n)) n [] b"
    by (simp add: counting_xsgetn_def)
  show ?thesis
  proof (cases "k = 0")
    case True
    then have "n = 0 \<or> counting_ahead b = []" by (auto simp: k_def min_def split: if_splits)
    moreover from this have "counting_xsgetn n b = Inr ([], b)"
      using b unfolding run by (subst counting_loop_step) (auto simp: counting_underflow_def)
    ultimately show ?thesis by auto
  next
    case False
    then have n: "0 < n" "read_pos b < int (cbuffer_size b)" using b by (auto simp: k_def)
    have s: "slice (nat (c_gptr b)) k buf = take n (counting_ahead b)"
      using b by (auto simp: slice_def k_def min_def)
    have ng: "\<not> c_egptr b \<le> c_gptr b" using b n by simp
    have t: "(if c_egptr b - c_gptr b < int n then c_egptr b - c_gptr b else int n) = int k"
      using b n by (auto simp: k_def)
    have i: "i32 (int k) = int k" using b by (intro i32_id) (auto simp: k_def)
    have l: "length (take n (counting_ahead b)) = k" by (simp add: k_def)
    have "counting_xsgetn n b =
        counting_xsgetn_loop (Suc n) n (take n (counting_ahead b)) (after_read k b)"
      unfolding run using False n(1) b(1) ng
      by (subst counting_loop_step) (simp add: Let_def t s i after_read_def split del: if_split)
    also have "\<dots> = Inr (take n (counting_ahead b), after_read k b)"
    proof (cases "k < n")
      case True
      then have "k = length (counting_ahead b)" by (simp add: k_def)
      then have "read_pos b + int k = int (cbuffer_size b)" using b by auto
      with True show ?thesis using b(1,4-7) l
        by (subst counting_loop_step) (simp add: after_read_def counting_underflow_def)
    next
      case False
      then have "\<not> length (take n (counting_ahead b)) < n" by (simp add: l del: length_take)
      then show ?thesis by (subst counting_loop_step) (simp only: if_False)
    qed
    finally show ?thesis using False by (simp add: Let_def k_def)
  qed
qed

interpretation counting_source: byte_source counting_vtable counting_ahead counting_inv
proof
  fix b :: countbuf and n :: nat
  assume inv: "counting_inv b"
  show "\<exists>b'. sgetn counting_vtable n b = Inr (take n (counting_ahead b), b') \<and> counting_inv b' \<and>
      counting_ahead b' = drop n (counting_ahead b)"
    using inv after_read_ok [OF inv, of "min n (length (counting_ahead b))"]
    by (auto simp: counting_vtable_def counting_xsgetn_eq Let_def min_def)
qed

section \<open>Properties\<close>

text \<open>Writing a list of chunks.\<close>

fun write_all :: "byte list list \<Rightarrow> countbuf \<Rightarrow> countbuf cpp" where
  "write_all [] b = Inr b"
| "write_all (s # ss) b = bindE (counting_xsputn s b) (\<lambda>(_, b). write_all ss b)"

lemma write_all_counts:
  "length_inv b \<Longrightarrow> \<exists>b'. write_all ss b = Inr b' \<and>
     total_bytes_written b' = total_bytes_written b + int (length (concat ss)) \<and>
     write_pos b' = write_pos b + int (length (concat ss)) \<and>
     clength b' = max (clength b) (write_pos b') \<and> cbuffer b' = cbuffer b \<and>
     total_bytes_read b' = total_bytes_read b"
proof (induction ss arbitrary: b)
  case (Cons s ss)
  obtain b1 where b1: "counting_xsputn s b = Inr (length s, b1)" "length_inv b1"
      "total_bytes_written b1 = total_bytes_written b + int (length s)"
      "write_pos b1 = write_pos b + int (length s)" "clength b1 = max (clength b) (write_pos b1)"
      "cbuffer b1 = cbuffer b" "total_bytes_read b1 = total_bytes_read b"
    using Cons.prems by (auto simp: counting_xsputn_def Let_def length_inv_def)
  from Cons.IH [OF b1(2)] b1 show ?case by auto
qed (simp add: length_inv_def max_def)

text \<open>After any sequence of block writes the buffer reports exactly the number of bytes written,
  its put position has moved by as many, its length is the largest position reached, and the
  bytes of the region it reads from are untouched.
\<close>

theorem counting_writes_counted:
  assumes "length_inv b"
  shows "\<exists>b'. write_all ss b = Inr b' \<and>
    bytes_written b' = bytes_written b + int (length (concat ss)) \<and>
    counting_seekoff 0 Cur only_out b' = Inr (write_pos b + int (length (concat ss)), b') \<and>
    clength b' = max (clength b) (write_pos b + int (length (concat ss))) \<and>
    bytes_read b' = bytes_read b \<and> cbuffer b' = cbuffer b"
  using write_all_counts [OF assms, of ss]
  by (auto simp: bytes_written_def bytes_read_def counting_seekoff_def Let_def)

theorem counting_writes_counted_witness:
  "\<exists>b'. write_all [[1, 2, 3], [], [4, 5]] (counting_ctor [9]) = Inr b' \<and> bytes_written b' = 5"
  using counting_writes_counted [of "counting_ctor [9]" "[[1, 2, 3], [], [4, 5]]"]
  by (auto simp: counting_ctor_def length_inv_def bytes_written_def)

text \<open>Without seeks, block reads deliver the region in order, as much as is left of it, and every
  byte delivered is counted once.
\<close>

theorem counting_reads_counted:
  assumes "counting_inv b"
  shows "\<exists>b'. counting_xsgetn n b = Inr (take n (counting_ahead b), b') \<and> counting_inv b' \<and>
    counting_ahead b' = drop n (counting_ahead b) \<and>
    bytes_read b' = bytes_read b + int (min n (length (counting_ahead b))) \<and>
    bytes_written b' = bytes_written b"
proof -
  let ?k = "min n (length (counting_ahead b))"
  note ok = after_read_ok [OF assms min.cobounded2 [of n "length (counting_ahead b)"]]
  show ?thesis
  proof (cases "?k = 0")
    case True
    then have "n = 0 \<or> counting_ahead b = []" by (auto simp: min_def split: if_splits)
    with True show ?thesis using counting_xsgetn_eq [OF assms, of n] assms by (auto simp: Let_def)
  next
    case False
    then show ?thesis using counting_xsgetn_eq [OF assms, of n] ok
      by (auto simp: Let_def after_read_def bytes_read_def bytes_written_def min_def)
  qed
qed

lemma counting_ctor_inv:
  "length buf < 2 ^ 31 \<Longrightarrow> counting_inv (counting_ctor buf) \<and> counting_ahead (counting_ctor buf) = buf"
  by (simp add: counting_inv_def counting_ahead_def counting_ctor_def)

theorem counting_reads_counted_witness:
  "\<exists>b'. counting_xsgetn 2 (counting_ctor [7, 8, 9]) = Inr ([7, 8], b') \<and> bytes_read b' = 2"
  using counting_reads_counted [of "counting_ctor [7, 8, 9]" 2] counting_ctor_inv [of "[7, 8, 9]"]
  by (auto simp: bytes_read_def counting_ctor_def)

text \<open>
  Two ways the counters and positions part from the bytes.  A character put while the put area has
  room is stored in the region and not counted; and a seek of the get position does not move the
  get area, so the next read goes on where the last one stopped.
\<close>

lemma counting_put_uncounted:
  "\<exists>b. counting_sputc 7 (counting_ctor [1, 2]) = Inr (7, b) \<and> bytes_written b = 0 \<and>
     cbuffer b = Some [7, 2]"
  by (simp add: counting_sputc_def counting_ctor_def bytes_written_def)

lemma counting_seek_ignored:
  assumes "counting_inv b" and "0 < n" and "n \<le> length (counting_ahead b)"
  shows "\<exists>b1 b2. counting_seekoff p Beg only_in b = Inr (p, b1) \<and>
    counting_xsgetn n b1 = Inr (take n (counting_ahead b), b2)"
proof -
  obtain buf where b: "cbuffer b = Some buf" "length buf = cbuffer_size b" "cbuffer_size b < 2 ^ 31"
      "c_gptr b = read_pos b" "0 \<le> read_pos b" "c_egptr b = int (cbuffer_size b)"
      "read_pos b \<le> c_egptr b" "counting_ahead b = drop (nat (read_pos b)) buf"
    using assms(1) by (rule counting_invE)
  let ?b1 = "b\<lparr>read_pos := p\<rparr>"
  obtain m where m: "n = Suc m" using assms(2) by (cases n) auto
  have t: "\<not> c_egptr b - c_gptr b < int n" and s: "slice (nat (read_pos b)) n buf = take n (counting_ahead b)"
    using b assms(3) by (auto simp: slice_def)
  have "counting_xsgetn n ?b1 = counting_xsgetn_loop (Suc (Suc n)) n [] ?b1"
    by (simp add: counting_xsgetn_def)
  also have "\<dots> = counting_xsgetn_loop (Suc n) n (take n (counting_ahead b))
      (?b1\<lparr>c_gptr := c_gptr b + i32 (int n), read_pos := p + int n,
        total_bytes_read := total_bytes_read b + int n\<rparr>)"
    using assms b s t by (subst counting_loop_step) (auto simp: Let_def simp del: i32_id)
  also have "\<dots> = Inr (take n (counting_ahead b),
      ?b1\<lparr>c_gptr := c_gptr b + i32 (int n), read_pos := p + int n,
        total_bytes_read := total_bytes_read b + int n\<rparr>)"
    using assms(3) by (subst counting_loop_step) (simp add: min_def)
  finally show ?thesis by (auto simp: counting_seekoff_def)
qed

end
