(* ===== verification/Serial.thy ===== *)
theory Serial
  imports Iostream
begin

text \<open>
  \<open>struct Serial\<close> of include/iostreams/Serial.hpp: its state, the byte and bit operations and the
  positions.  One object works in one of four modes, tested in this order: counting, over a memory
  region, over a \<open>APassthrough\<close> object, over streams.
\<close>

unbundle bit_operations_syntax

section \<open>State\<close>

text \<open>
  The fields of the struct, in its order; \<open>m_SerialValue\<close> and its neighbours are never used.  Pointers
  are names of objects in the world, \<open>None\<close> when null.  The two mismatch flags are \<open>_size_mismatch_flag\<close>
  and \<open>__size_mismatch_flag\<close>.  \<open>currentReadBuffer\<close> is the tuple of size, allocation and index.
\<close>

record serial =
  currentReadByte :: byte
  bitsReadReadByte :: nat
  currentWriteByte :: byte
  bitsWrittenWriteByte :: nat
  bitStream :: bool
  currentReadBuffer :: "nat \<times> byte list option \<times> nat"
  pushedReadBuffer :: bool
  read_eof :: bool
  read_empty :: bool
  size_mismatch :: bool
  last_size_mismatch :: bool
  last_bytes_read :: nat
  next_read_offset :: int
  start_read_offset_position :: int
  is_count_serial :: bool
  count_write :: nat
  count_write_index :: nat
  count_read_index :: nat
  is_buffer_serial :: bool
  buffer_read_index :: int
  buffer_write_index :: int
  buffer_size :: int
  buffer_pointer :: "nat option"
  writeStreamPointer :: "nat option"
  readStreamPointer :: "nat option"
  read_buffer :: bool
  passthrough_ptr :: "nat option"

text \<open>
  The world an object points into: streams, memory regions, \<open>APassthrough\<close> objects, and the \<open>Serial\<close>
  that \<open>read_buffer\<close> points to when it is set.
\<close>

record ('b, 'p) world =
  streams :: "nat \<Rightarrow> 'b stream"
  regions :: "nat \<Rightarrow> byte list"
  passthroughs :: "nat \<Rightarrow> 'p"
  other :: serial

text \<open>
  What is not this library's code: the virtual functions of the streams' buffers and of the user's
  subclass of \<open>APassthrough\<close>.  Its \<open>read\<close> yields the bytes it stored at the destination.
\<close>

record ('b, 'p) platform =
  vt :: "'b vtable"
  pt_write :: "byte list \<Rightarrow> 'p \<Rightarrow> int \<times> 'p"
  pt_read :: "nat \<Rightarrow> 'p \<Rightarrow> int \<times> byte list \<times> 'p"

text \<open>The virtual functions of \<open>APassthrough\<close> itself.\<close>

definition apassthrough_write :: "byte list \<Rightarrow> 'p \<Rightarrow> int \<times> 'p" where
  "apassthrough_write src p = (0, p)"

definition apassthrough_read :: "nat \<Rightarrow> 'p \<Rightarrow> int \<times> byte list \<times> 'p" where
  "apassthrough_read n p = (0, [], p)"

section \<open>Construction\<close>

definition serial_default :: serial where
  "serial_default = \<lparr>currentReadByte = 0, bitsReadReadByte = 8, currentWriteByte = 0,
     bitsWrittenWriteByte = 0, bitStream = False, currentReadBuffer = (0, None, 0),
     pushedReadBuffer = False, read_eof = False, read_empty = False, size_mismatch = False,
     last_size_mismatch = False, last_bytes_read = 0, next_read_offset = 0,
     start_read_offset_position = 0, is_count_serial = False, count_write = 0,
     count_write_index = 0, count_read_index = 0, is_buffer_serial = False,
     buffer_read_index = 0, buffer_write_index = 0, buffer_size = 0, buffer_pointer = None,
     writeStreamPointer = None, readStreamPointer = None, read_buffer = False,
     passthrough_ptr = None\<rparr>"

definition serial_count :: "bool \<Rightarrow> serial" where
  "serial_count c = serial_default\<lparr>is_count_serial := c\<rparr>"

definition serial_buffer :: "int \<Rightarrow> nat option \<Rightarrow> bool \<Rightarrow> serial" where
  "serial_buffer n buf bits =
     serial_default\<lparr>bitStream := bits, is_buffer_serial := True, buffer_size := n,
       buffer_pointer := buf\<rparr>"

definition serial_streams :: "nat option \<Rightarrow> nat option \<Rightarrow> bool \<Rightarrow> serial" where
  "serial_streams wr rd bits =
     serial_default\<lparr>bitStream := bits, writeStreamPointer := wr, readStreamPointer := rd\<rparr>"

definition serial_passthrough :: "nat \<Rightarrow> serial" where
  "serial_passthrough p = serial_default\<lparr>passthrough_ptr := Some p\<rparr>"

text \<open>Assignment; the copy constructor assigns to a default object.  The pending read buffer, the
  stream pointers and \<open>read_buffer\<close> are not copied.\<close>

definition serial_assign :: "serial \<Rightarrow> serial \<Rightarrow> serial" where
  "serial_assign this o' = this\<lparr>
     currentReadByte := currentReadByte o', bitsReadReadByte := bitsReadReadByte o',
     currentWriteByte := currentWriteByte o', bitsWrittenWriteByte := bitsWrittenWriteByte o',
     bitStream := bitStream o', pushedReadBuffer := pushedReadBuffer o', read_eof := read_eof o',
     read_empty := read_empty o', size_mismatch := size_mismatch o',
     last_size_mismatch := last_size_mismatch o', last_bytes_read := last_bytes_read o',
     next_read_offset := next_read_offset o',
     start_read_offset_position := start_read_offset_position o',
     is_count_serial := is_count_serial o', count_write := count_write o',
     count_write_index := count_write_index o', count_read_index := count_read_index o',
     is_buffer_serial := is_buffer_serial o', buffer_read_index := buffer_read_index o',
     buffer_write_index := buffer_write_index o', buffer_size := buffer_size o',
     buffer_pointer := buffer_pointer o', passthrough_ptr := passthrough_ptr o'\<rparr>"

definition serial_copy :: "serial \<Rightarrow> serial" where
  "serial_copy o' = serial_assign serial_default o'"

section \<open>Access to the world\<close>

text \<open>Copies between a region and a local buffer; a copy that leaves the region is undefined.\<close>

definition load :: "('b, 'p) world \<Rightarrow> nat option \<Rightarrow> int \<Rightarrow> nat \<Rightarrow> byte list cpp" where
  "load w p i n = (if n = 0 then Inr [] else case p of
     None \<Rightarrow> Inl Null_deref
   | Some a \<Rightarrow> if i < 0 \<or> i + int n > int (length (regions w a)) then Inl Out_of_bounds
       else Inr (slice (nat i) n (regions w a)))"

definition store :: "('b, 'p) world \<Rightarrow> nat option \<Rightarrow> int \<Rightarrow> byte list \<Rightarrow> ('b, 'p) world cpp" where
  "store w p i src = (if src = [] then Inr w else case p of
     None \<Rightarrow> Inl Null_deref
   | Some a \<Rightarrow> if i < 0 \<or> i + int (length src) > int (length (regions w a)) then Inl Out_of_bounds
       else Inr (w\<lparr>regions := (regions w)(a := blit (nat i) src (regions w a))\<rparr>))"

definition set_stream :: "nat \<Rightarrow> 'b stream \<Rightarrow> ('b, 'p) world \<Rightarrow> ('b, 'p) world" where
  "set_stream a st w = w\<lparr>streams := (streams w)(a := st)\<rparr>"

section \<open>Reading\<close>

text \<open>\<open>pushReadBytes\<close>: what the streams deliver while a read buffer is pushed is kept in it.\<close>

definition pushReadBytes :: "byte list \<Rightarrow> nat \<Rightarrow> serial \<Rightarrow> serial" where
  "pushReadBytes data expected_size s =
     (let s = (if length data \<noteq> expected_size then s\<lparr>size_mismatch := True\<rparr> else s) in
      if pushedReadBuffer s then
        (case currentReadBuffer s of (n, ptr, index) \<Rightarrow>
          (let n = n + length data in
           if data = [] then s\<lparr>currentReadBuffer := (n, ptr, index)\<rparr>
           else
             (let grown = (case ptr of
                  Some p \<Rightarrow> take n (p @ replicate (n - length p) 0)
                | None \<Rightarrow> replicate n 0)
              in s\<lparr>currentReadBuffer := (n, Some (blit index data grown), index + length data)\<rparr>)))
      else s)"

text \<open>The branch of \<open>readBytes\<close> that reads a stream without the bit stream.\<close>

definition read_stream ::
  "('b, 'p) platform \<Rightarrow> nat \<Rightarrow> byte list \<Rightarrow> serial \<Rightarrow> ('b, 'p) world \<Rightarrow>
   (int \<times> byte list \<times> serial \<times> ('b, 'p) world) cpp" where
  "read_stream P a dest s w =
     (let off = next_read_offset s;
          reading_bytes = wrap64 (int (length dest) - off)
      in bindE (istream_read (vt P) reading_bytes (streams w a)) (\<lambda>(bs, st).
        if bs \<noteq> [] \<and> (off < 0 \<or> off + int (length bs) > int (length dest)) then Inl Out_of_bounds
        else
          (let dest' = (if bs = [] then dest else blit (nat off) bs dest);
               bytes_read = gcount st;
               s = (if bytes_read \<noteq> reading_bytes then s\<lparr>size_mismatch := True\<rparr> else s);
               s = pushReadBytes bs reading_bytes s;
               avail = in_avail (vt P) (rdbuf st);
               s = (if bytes_read \<noteq> reading_bytes \<and> avail = -1 then s\<lparr>read_eof := True\<rparr>
                    else if (bytes_read = 0 \<or> bytes_read \<noteq> reading_bytes) \<and> avail = 0
                      then s\<lparr>read_empty := True\<rparr>
                    else s\<lparr>read_empty := False, read_eof := False\<rparr>);
               s = (if off \<noteq> 0 then s\<lparr>next_read_offset := 0, start_read_offset_position := 0\<rparr> else s);
               s = s\<lparr>last_bytes_read := bytes_read\<rparr>
           in Inr (int bytes_read, dest', s, set_stream a st w))))"

text \<open>
  \<open>readBytes\<close>, given the \<open>readByte\<close> it calls on a bit stream.  \<open>dest\<close> is the destination before the
  call, its length the size asked for; the results are the returned count and the destination after.
\<close>

definition readBytes_body ::
  "('b, 'p) platform \<Rightarrow> (serial \<Rightarrow> ('b, 'p) world \<Rightarrow> (byte \<times> serial \<times> ('b, 'p) world) cpp) \<Rightarrow>
   byte list \<Rightarrow> serial \<Rightarrow> ('b, 'p) world \<Rightarrow> (int \<times> byte list \<times> serial \<times> ('b, 'p) world) cpp" where
  "readBytes_body P rd dest s w =
     (if is_count_serial s then
        Inr (i64 (int (length dest)), dest,
          s\<lparr>count_read_index := wrap64 (int (count_read_index s) + int (length dest))\<rparr>, w)
      else if is_buffer_serial s then
        (if buffer_read_index s \<le> buffer_size s - i64 (int (length dest)) then
           bindE (load w (buffer_pointer s) (buffer_read_index s) (length dest)) (\<lambda>bs.
             Inr (i64 (int (length dest)), bs,
               s\<lparr>buffer_read_index := buffer_read_index s + int (length dest)\<rparr>, w))
         else Inr (0, dest, s, w))
      else case passthrough_ptr s of
        Some p \<Rightarrow> (case pt_read P (length dest) (passthroughs w p) of (r, bs, x) \<Rightarrow>
          Inr (r, blit 0 bs dest, s, w\<lparr>passthroughs := (passthroughs w)(p := x)\<rparr>))
      | None \<Rightarrow> (case readStreamPointer s of
          None \<Rightarrow> Inr (0, dest, s, w)
        | Some a \<Rightarrow>
            if bitStream s then
              bindE (forE [0..<length dest] (\<lambda>i (dest, s, w). bindE (rd s w) (\<lambda>(b, s, w).
                  Inr (dest[i := b], s, w))) (dest, s, w))
                (\<lambda>(dest, s, w). Inr (int (length dest), dest,
                   s\<lparr>last_bytes_read := length dest\<rparr>, w))
            else read_stream P a dest s w))"

section \<open>Positions and status\<close>

definition getReadPosition ::
  "('b, 'p) platform \<Rightarrow> serial \<Rightarrow> ('b, 'p) world \<Rightarrow> (int \<times> ('b, 'p) world) cpp" where
  "getReadPosition P s w =
     (if is_count_serial s then Inr (i64 (int (count_read_index s)), w)
      else if is_buffer_serial s then Inr (buffer_read_index s, w)
      else case readStreamPointer s of
        Some a \<Rightarrow> bindE (tellg (vt P) (streams w a)) (\<lambda>(p, st). Inr (p, set_stream a st w))
      | None \<Rightarrow> Inr (-1, w))"

definition getWritePosition ::
  "('b, 'p) platform \<Rightarrow> serial \<Rightarrow> ('b, 'p) world \<Rightarrow> (int \<times> ('b, 'p) world) cpp" where
  "getWritePosition P s w =
     (if is_count_serial s then Inr (i64 (int (count_write_index s)), w)
      else if is_buffer_serial s then Inr (buffer_write_index s, w)
      else case writeStreamPointer s of
        Some a \<Rightarrow> bindE (tellp (vt P) (streams w a)) (\<lambda>(p, st). Inr (p, set_stream a st w))
      | None \<Rightarrow> Inr (-1, w))"

definition setReadPosition ::
  "('b, 'p) platform \<Rightarrow> nat \<Rightarrow> serial \<Rightarrow> ('b, 'p) world \<Rightarrow> (serial \<times> ('b, 'p) world) cpp" where
  "setReadPosition P index s w =
     (if is_count_serial s then Inr (s\<lparr>count_read_index := index\<rparr>, w)
      else if is_buffer_serial s then Inr (s\<lparr>buffer_read_index := i64 (int index)\<rparr>, w)
      else case readStreamPointer s of
        Some a \<Rightarrow> bindE (seekg (vt P) (i64 (int index)) (streams w a)) (\<lambda>st.
          Inr (s, set_stream a st w))
      | None \<Rightarrow> Inr (s, w))"

definition setWritePosition ::
  "('b, 'p) platform \<Rightarrow> nat \<Rightarrow> serial \<Rightarrow> ('b, 'p) world \<Rightarrow> (serial \<times> ('b, 'p) world) cpp" where
  "setWritePosition P index s w =
     (if is_count_serial s then Inr (s\<lparr>count_write_index := index\<rparr>, w)
      else if is_buffer_serial s then Inr (s\<lparr>buffer_write_index := i64 (int index)\<rparr>, w)
      else case writeStreamPointer s of
        Some a \<Rightarrow> bindE (seekp (vt P) (i64 (int index)) (streams w a)) (\<lambda>st.
          Inr (s, set_stream a st w))
      | None \<Rightarrow> Inr (s, w))"

text \<open>The length of a stream is found by going to its end and back.\<close>

definition getWriteLength ::
  "('b, 'p) platform \<Rightarrow> serial \<Rightarrow> ('b, 'p) world \<Rightarrow> (int \<times> ('b, 'p) world) cpp" where
  "getWriteLength P s w =
     (if is_count_serial s then Inr (i64 (int (count_write s)), w)
      else if is_buffer_serial s then Inr (buffer_size s, w)
      else case writeStreamPointer s of
        None \<Rightarrow> Inr (0, w)
      | Some a \<Rightarrow>
          bindE (getWritePosition P s w) (\<lambda>(orgpos, w).
          bindE (seekp_off (vt P) 0 End (streams w a)) (\<lambda>st.
          bindE (getWritePosition P s (set_stream a st w)) (\<lambda>(pos, w).
          bindE (seekp_off (vt P) orgpos Beg (streams w a)) (\<lambda>st.
            Inr (pos, set_stream a st w))))))"

definition getReadLength ::
  "('b, 'p) platform \<Rightarrow> serial \<Rightarrow> ('b, 'p) world \<Rightarrow> (int \<times> ('b, 'p) world) cpp" where
  "getReadLength P s w =
     (if is_count_serial s then Inr (i64 (int (count_write s)), w)
      else if is_buffer_serial s then Inr (buffer_size s, w)
      else case readStreamPointer s of
        None \<Rightarrow> Inr (0, w)
      | Some a \<Rightarrow>
          bindE (getReadPosition P s w) (\<lambda>(orgpos, w).
          bindE (seekg_off (vt P) 0 End (streams w a)) (\<lambda>st.
          bindE (getReadPosition P s (set_stream a st w)) (\<lambda>(pos, w).
          bindE (seekg_off (vt P) orgpos Beg (streams w a)) (\<lambda>st.
            Inr (pos, set_stream a st w))))))"

definition canRead ::
  "('b, 'p) platform \<Rightarrow> serial \<Rightarrow> ('b, 'p) world \<Rightarrow> (bool \<times> ('b, 'p) world) cpp" where
  "canRead P s w =
     (if is_count_serial s \<or> is_buffer_serial s then Inr (True, w)
      else case readStreamPointer s of
        Some a \<Rightarrow> bindE (tellg (vt P) (streams w a)) (\<lambda>(p, st). Inr (p \<ge> 0, set_stream a st w))
      | None \<Rightarrow> Inr (False, w))"

definition canWrite ::
  "('b, 'p) platform \<Rightarrow> serial \<Rightarrow> ('b, 'p) world \<Rightarrow> (bool \<times> ('b, 'p) world) cpp" where
  "canWrite P s w =
     (if is_count_serial s \<or> is_buffer_serial s then Inr (True, w)
      else case writeStreamPointer s of
        Some a \<Rightarrow> bindE (tellp (vt P) (streams w a)) (\<lambda>(p, st). Inr (p \<ge> 0, set_stream a st w))
      | None \<Rightarrow> Inr (False, w))"

definition is_read_eof :: "serial \<Rightarrow> bool" where
  "is_read_eof s = read_eof s"

definition is_read_empty :: "serial \<Rightarrow> bool" where
  "is_read_empty s = read_empty s"

definition did_not_read_whole_size :: "serial \<Rightarrow> bool \<times> serial" where
  "did_not_read_whole_size s =
     (size_mismatch s, s\<lparr>last_size_mismatch := size_mismatch s, size_mismatch := False\<rparr>)"

definition last_did_not_read_whole_size :: "serial \<Rightarrow> bool" where
  "last_did_not_read_whole_size s = last_size_mismatch s"

definition get_last_bytes_read :: "serial \<Rightarrow> nat" where
  "get_last_bytes_read s = last_bytes_read s"

definition clearRead :: "serial \<Rightarrow> ('b, 'p) world \<Rightarrow> serial \<times> ('b, 'p) world" where
  "clearRead s w =
     (s\<lparr>last_size_mismatch := False, size_mismatch := False\<rparr>,
      case readStreamPointer s of Some a \<Rightarrow> set_stream a (clear (streams w a)) w | None \<Rightarrow> w)"

section \<open>Reading bytes and bits\<close>

text \<open>
  \<open>readBytes\<close>, \<open>readByte\<close> and \<open>readBit\<close> call each other; each body below takes the functions it
  calls, and \<open>readByte\<close> closes the recursion with a bound on the depth of nested calls.  \<open>char\<close> is
  signed, so bits from the eighth on are copies of the sign.
\<close>

definition char_bit :: "byte \<Rightarrow> nat \<Rightarrow> bool" where
  "char_bit b k = bit b (min k 7)"

definition readBit_body ::
  "('b, 'p) platform \<Rightarrow>
   (byte list \<Rightarrow> serial \<Rightarrow> ('b, 'p) world \<Rightarrow> (int \<times> byte list \<times> serial \<times> ('b, 'p) world) cpp) \<Rightarrow>
   serial \<Rightarrow> ('b, 'p) world \<Rightarrow> (bool \<times> serial \<times> ('b, 'p) world) cpp" where
  "readBit_body P rds s w =
     bindE (if bitsReadReadByte s = 0 \<or> bitsReadReadByte s = 8 then
              (if next_read_offset s = 0 then Inr (True, w)
               else bindE (getReadPosition P s w) (\<lambda>(pos, w).
                 Inr (start_read_offset_position s + next_read_offset s > pos, w)))
            else Inr (False, w))
     (\<lambda>(fetch, w).
     bindE (if fetch then
              bindE (rds [currentReadByte s] s w) (\<lambda>(r, dest, s, w).
                Inr (s\<lparr>currentReadByte := hd dest, bitsReadReadByte := 0\<rparr>, w))
            else Inr (s, w))
     (\<lambda>(s, w).
       if 31 < bitsReadReadByte s then Inl Bad_shift
       else Inr (char_bit (currentReadByte s) (bitsReadReadByte s),
              s\<lparr>bitsReadReadByte := Suc (bitsReadReadByte s)\<rparr>, w)))"

definition readByte_body ::
  "(byte list \<Rightarrow> serial \<Rightarrow> ('b, 'p) world \<Rightarrow> (int \<times> byte list \<times> serial \<times> ('b, 'p) world) cpp) \<Rightarrow>
   (serial \<Rightarrow> ('b, 'p) world \<Rightarrow> (bool \<times> serial \<times> ('b, 'p) world) cpp) \<Rightarrow>
   serial \<Rightarrow> ('b, 'p) world \<Rightarrow> (byte \<times> serial \<times> ('b, 'p) world) cpp" where
  "readByte_body rds rbit s w =
     (if bitStream s \<and> bitsReadReadByte s > 0 \<and> bitsReadReadByte s < 8 then
        forE [0..<8] (\<lambda>e (b, s, w). bindE (rbit s w) (\<lambda>(x, s, w).
          Inr (b OR push_bit e (of_bool x), s, w))) (0, s, w)
      else bindE (rds [currentReadByte s] s w) (\<lambda>(r, dest, s, w).
        Inr (hd dest, s\<lparr>currentReadByte := hd dest, bitsReadReadByte := 0\<rparr>, w)))"

primrec readByte ::
  "('b, 'p) platform \<Rightarrow> nat \<Rightarrow> serial \<Rightarrow> ('b, 'p) world \<Rightarrow> (byte \<times> serial \<times> ('b, 'p) world) cpp" where
  "readByte P 0 = (\<lambda>s w. Inl Out_of_fuel)"
| "readByte P (Suc d) =
     readByte_body (readBytes_body P (readByte P d))
       (readBit_body P (readBytes_body P (readByte P d)))"

definition readBytes ::
  "('b, 'p) platform \<Rightarrow> nat \<Rightarrow> byte list \<Rightarrow> serial \<Rightarrow> ('b, 'p) world \<Rightarrow>
   (int \<times> byte list \<times> serial \<times> ('b, 'p) world) cpp" where
  "readBytes P d = readBytes_body P (readByte P d)"

definition readBit ::
  "('b, 'p) platform \<Rightarrow> nat \<Rightarrow> serial \<Rightarrow> ('b, 'p) world \<Rightarrow> (bool \<times> serial \<times> ('b, 'p) world) cpp" where
  "readBit P d = readBit_body P (readBytes P d)"

text \<open>
  \<open>readBits\<close>: the inner loop takes bits of the current byte, the outer one fetches the next byte
  when eight are used up.  The container is indexed without a check.
\<close>

function readBits_inner ::
  "nat \<Rightarrow> nat \<Rightarrow> nat \<Rightarrow> nat \<Rightarrow> bool list \<Rightarrow> serial \<Rightarrow> (nat \<times> bool list \<times> serial) cpp" where
  "readBits_inner index n k i c s =
     (if k < 8 \<and> i < n then
        (if i + index < length c then
           readBits_inner index n (Suc k) (Suc i) (c[i + index := bit (currentReadByte s) k])
             (s\<lparr>bitsReadReadByte := Suc (bitsReadReadByte s)\<rparr>)
         else Inl Out_of_bounds)
      else Inr (i, c, s))"
  by pat_completeness auto
termination by (relation "measure (\<lambda>(index, n, k, i, c, s). 8 - k)") auto

fun readBits_loop ::
  "('b, 'p) platform \<Rightarrow> nat \<Rightarrow> nat \<Rightarrow> nat \<Rightarrow> nat \<Rightarrow> nat \<Rightarrow> bool list \<Rightarrow> serial \<Rightarrow> ('b, 'p) world \<Rightarrow>
   (bool list \<times> serial \<times> ('b, 'p) world) cpp" where
  "readBits_loop P d index n 0 i c s w = (if i < n then Inl Out_of_fuel else Inr (c, s, w))"
| "readBits_loop P d index n (Suc f) i c s w =
     (if i < n then
        bindE (if bitsReadReadByte s = 8 then
                 bindE (readByte P d s w) (\<lambda>(b, s, w). Inr (s, w))
               else Inr (s, w))
        (\<lambda>(s, w). bindE (readBits_inner index n (bitsReadReadByte s) i c s) (\<lambda>(i, c, s).
           readBits_loop P d index n f i c s w))
      else Inr (c, s, w))"

text \<open>Each round of the outer loop takes a bit, so as many rounds as bits asked for are enough.\<close>

definition readBits ::
  "('b, 'p) platform \<Rightarrow> nat \<Rightarrow> bool list \<Rightarrow> nat \<Rightarrow> nat \<Rightarrow> serial \<Rightarrow> ('b, 'p) world \<Rightarrow>
   (bool list \<times> serial \<times> ('b, 'p) world) cpp" where
  "readBits P d c index n s w =
     (if \<not> bitStream s then Inl (Runtime_error ''readBits called and Serial is not a bitStream'')
      else readBits_loop P d index n n 0 c s w)"

section \<open>Writing bytes and bits\<close>

definition writeBytes_body ::
  "('b, 'p) platform \<Rightarrow> (byte \<Rightarrow> serial \<Rightarrow> ('b, 'p) world \<Rightarrow> (serial \<times> ('b, 'p) world) cpp) \<Rightarrow>
   byte list \<Rightarrow> serial \<Rightarrow> ('b, 'p) world \<Rightarrow> (int \<times> serial \<times> ('b, 'p) world) cpp" where
  "writeBytes_body P wr src s w =
     (if is_count_serial s then
        Inr (i64 (int (length src)),
          s\<lparr>count_write := wrap64 (int (count_write s) + int (length src)),
            count_write_index := wrap64 (int (count_write_index s) + int (length src))\<rparr>, w)
      else if is_buffer_serial s then
        (if buffer_write_index s \<le> buffer_size s - i64 (int (length src)) then
           bindE (store w (buffer_pointer s) (buffer_write_index s) src) (\<lambda>w.
             Inr (i64 (int (length src)),
               s\<lparr>buffer_write_index := buffer_write_index s + int (length src)\<rparr>, w))
         else Inr (i64 (int (length src)), s, w))
      else case passthrough_ptr s of
        Some p \<Rightarrow> (case pt_write P src (passthroughs w p) of (r, x) \<Rightarrow>
          Inr (r, s, w\<lparr>passthroughs := (passthroughs w)(p := x)\<rparr>))
      | None \<Rightarrow> (case writeStreamPointer s of
          None \<Rightarrow> Inr (0, s, w)
        | Some a \<Rightarrow>
            if bitStream s then
              bindE (forE [0..<length src] (\<lambda>i (s, w). wr (src ! i) s w) (s, w))
                (\<lambda>(s, w). Inr (0, s, w))
            else bindE (ostream_write (vt P) src (streams w a)) (\<lambda>st.
              Inr (i64 (int (length src)), s, set_stream a st w))))"

definition writeBit_body ::
  "(byte \<Rightarrow> serial \<Rightarrow> ('b, 'p) world \<Rightarrow> (serial \<times> ('b, 'p) world) cpp) \<Rightarrow>
   bool \<Rightarrow> serial \<Rightarrow> ('b, 'p) world \<Rightarrow> (serial \<times> ('b, 'p) world) cpp" where
  "writeBit_body wr x s w =
     (let s = s\<lparr>currentWriteByte :=
            currentWriteByte s OR push_bit (bitsWrittenWriteByte s) (of_bool x),
          bitsWrittenWriteByte := Suc (bitsWrittenWriteByte s)\<rparr>
      in if bitsWrittenWriteByte s = 8 then wr (currentWriteByte s) s w else Inr (s, w))"

definition writeByte_body ::
  "(byte list \<Rightarrow> serial \<Rightarrow> ('b, 'p) world \<Rightarrow> (int \<times> serial \<times> ('b, 'p) world) cpp) \<Rightarrow>
   (bool \<Rightarrow> serial \<Rightarrow> ('b, 'p) world \<Rightarrow> (serial \<times> ('b, 'p) world) cpp) \<Rightarrow>
   byte \<Rightarrow> serial \<Rightarrow> ('b, 'p) world \<Rightarrow> (serial \<times> ('b, 'p) world) cpp" where
  "writeByte_body wrs wbit b s w =
     (if bitStream s \<and> bitsWrittenWriteByte s > 0 \<and> bitsWrittenWriteByte s < 8 then
        forE [0..<8] (\<lambda>e (s, w). wbit (bit b e) s w) (s, w)
      else bindE (wrs [b] s w) (\<lambda>(r, s, w).
        Inr (s\<lparr>currentWriteByte := 0, bitsWrittenWriteByte := 0\<rparr>, w)))"

primrec writeByte ::
  "('b, 'p) platform \<Rightarrow> nat \<Rightarrow> byte \<Rightarrow> serial \<Rightarrow> ('b, 'p) world \<Rightarrow> (serial \<times> ('b, 'p) world) cpp" where
  "writeByte P 0 = (\<lambda>b s w. Inl Out_of_fuel)"
| "writeByte P (Suc d) =
     writeByte_body (writeBytes_body P (writeByte P d)) (writeBit_body (writeByte P d))"

definition writeBytes ::
  "('b, 'p) platform \<Rightarrow> nat \<Rightarrow> byte list \<Rightarrow> serial \<Rightarrow> ('b, 'p) world \<Rightarrow>
   (int \<times> serial \<times> ('b, 'p) world) cpp" where
  "writeBytes P d = writeBytes_body P (writeByte P d)"

definition writeBit ::
  "('b, 'p) platform \<Rightarrow> nat \<Rightarrow> bool \<Rightarrow> serial \<Rightarrow> ('b, 'p) world \<Rightarrow> (serial \<times> ('b, 'p) world) cpp" where
  "writeBit P d = writeBit_body (writeByte P d)"

text \<open>
  \<open>writeBits\<close>: \<open>index\<close> is not used, and \<open>bitsToGo\<close> and \<open>bitsThisByte\<close> influence nothing.  A round
  takes a bit, except a first one that finds a full byte, hence the extra round.
\<close>

function writeBits_inner ::
  "nat \<Rightarrow> nat \<Rightarrow> nat \<Rightarrow> bool list \<Rightarrow> serial \<Rightarrow> (nat \<times> serial) cpp" where
  "writeBits_inner n k i c s =
     (if k < 8 \<and> i < n then
        (if i < length c then
           writeBits_inner n (Suc k) (Suc i) c
             (s\<lparr>currentWriteByte := currentWriteByte s OR push_bit k (of_bool (c ! i)),
                bitsWrittenWriteByte := Suc (bitsWrittenWriteByte s)\<rparr>)
         else Inl Out_of_bounds)
      else Inr (i, s))"
  by pat_completeness auto
termination by (relation "measure (\<lambda>(n, k, i, c, s). 8 - k)") auto

fun writeBits_loop ::
  "('b, 'p) platform \<Rightarrow> nat \<Rightarrow> nat \<Rightarrow> nat \<Rightarrow> nat \<Rightarrow> bool list \<Rightarrow> serial \<Rightarrow> ('b, 'p) world \<Rightarrow>
   (serial \<times> ('b, 'p) world) cpp" where
  "writeBits_loop P d n 0 i c s w = (if i < n then Inl Out_of_fuel else Inr (s, w))"
| "writeBits_loop P d n (Suc f) i c s w =
     (if i < n then
        bindE (writeBits_inner n (bitsWrittenWriteByte s) i c s) (\<lambda>(i, s).
        bindE (if bitsWrittenWriteByte s = 8 then writeByte P d (currentWriteByte s) s w
               else Inr (s, w)) (\<lambda>(s, w).
          writeBits_loop P d n f i c s w))
      else Inr (s, w))"

definition writeBits ::
  "('b, 'p) platform \<Rightarrow> nat \<Rightarrow> bool list \<Rightarrow> nat \<Rightarrow> nat \<Rightarrow> serial \<Rightarrow> ('b, 'p) world \<Rightarrow>
   (serial \<times> ('b, 'p) world) cpp" where
  "writeBits P d c index n s w =
     (if \<not> bitStream s then Inl (Runtime_error ''writeBits called and Serial is not a bitStream'')
      else writeBits_loop P d n (Suc n) 0 c s w)"

text \<open>\<open>synchronize\<close> writes an incomplete byte out, filled up with zero bits.\<close>

definition synchronize ::
  "('b, 'p) platform \<Rightarrow> nat \<Rightarrow> serial \<Rightarrow> ('b, 'p) world \<Rightarrow> (serial \<times> ('b, 'p) world) cpp" where
  "synchronize P d s w =
     bindE (if bitsWrittenWriteByte s > 0 \<and> bitsWrittenWriteByte s < 8 then
              writeByte P d (currentWriteByte s) (s\<lparr>bitsWrittenWriteByte := 8\<rparr>) w
            else Inr (s, w))
     (\<lambda>(s, w).
       let w = (case writeStreamPointer s of Some a \<Rightarrow> set_stream a (flush (streams w a)) w | None \<Rightarrow> w);
           w = (case readStreamPointer s of
                  Some a \<Rightarrow> set_stream a (istream_sync (streams w a)) w | None \<Rightarrow> w)
       in Inr (s, w))"

declare readByte.simps(2) [simp del] writeByte.simps(2) [simp del]
  readBits_inner.simps [simp del] writeBits_inner.simps [simp del]

section \<open>The read buffer\<close>

definition pushByteReadBuffer :: "serial \<Rightarrow> serial" where
  "pushByteReadBuffer s = s\<lparr>currentReadBuffer := (0, None, 0), pushedReadBuffer := True\<rparr>"

definition popByteReadBuffer :: "serial \<Rightarrow> serial" where
  "popByteReadBuffer s =
     (if pushedReadBuffer s then s\<lparr>pushedReadBuffer := False, currentReadBuffer := (0, None, 0)\<rparr>
      else s)"

definition peekByteReadBuffer :: "serial \<Rightarrow> (nat \<times> byte list option \<times> nat) cpp" where
  "peekByteReadBuffer s =
     (if pushedReadBuffer s then Inr (currentReadBuffer s)
      else Inl (Runtime_error ''peeked when empty''))"

text \<open>
  \<open>readBytesWithBuffer\<close>: what an earlier, interrupted attempt left in the buffer is read first; the
  rest comes from the object itself and is added to the buffer.
\<close>

definition write_popped ::
  "('b, 'p) platform \<Rightarrow> nat \<Rightarrow> nat \<times> byte list option \<times> nat \<Rightarrow> serial \<Rightarrow> ('b, 'p) world \<Rightarrow>
   (serial \<times> ('b, 'p) world) cpp" where
  "write_popped P d popped b w =
     (case popped of (n, ptr, index) \<Rightarrow>
        if n = 0 then Inr (b, w)
        else case ptr of
          None \<Rightarrow> Inl Null_deref
        | Some p \<Rightarrow> bindE (writeBytes P d (take n p) b w) (\<lambda>(r, b, w). Inr (b, w)))"

definition readBytesWithBuffer ::
  "('b, 'p) platform \<Rightarrow> nat \<Rightarrow> byte list \<Rightarrow> serial \<Rightarrow> ('b, 'p) world \<Rightarrow>
   (int \<times> byte list \<times> serial \<times> ('b, 'p) world) cpp" where
  "readBytesWithBuffer P d dest s w =
     bindE (getReadPosition P (other w) w) (\<lambda>(begin_pos, w).
     bindE (readBytes P d dest (other w) w) (\<lambda>(buffer_read, dest, b, w).
       if buffer_read \<noteq> 0 \<and> wrap64 buffer_read = length dest then
         Inr (buffer_read, dest, s\<lparr>size_mismatch := False\<rparr>, w\<lparr>other := b\<rparr>)
       else
     bindE (if buffer_read \<noteq> 0 then
              bindE (getReadPosition P s w) (\<lambda>(p, w).
                Inr (s\<lparr>next_read_offset := buffer_read, start_read_offset_position := p\<rparr>, w))
            else Inr (s, w)) (\<lambda>(s, w).
     bindE (readBytes P d dest (pushByteReadBuffer s) w) (\<lambda>(main_read, dest, s, w).
     bindE (peekByteReadBuffer s) (\<lambda>popped.
     case clearRead b w of (b, w) \<Rightarrow>
     bindE (write_popped P d popped b w) (\<lambda>(b, w).
     bindE (setReadPosition P (wrap64 (begin_pos + buffer_read + int (fst popped))) b w) (\<lambda>(b, w).
       Inr (buffer_read + main_read, dest, popByteReadBuffer s, w\<lparr>other := b\<rparr>))))))))"

section \<open>The shift operators on the built-in types\<close>

text \<open>
  \<open>operator<<\<close> and \<open>operator>>\<close> on \<open>bool\<close> and on a trivially copyable type, the latter given by its
  object representation.  The other types go through \<open>serialize\<close> and \<open>deserialize\<close>.
\<close>

definition put_bool ::
  "('b, 'p) platform \<Rightarrow> nat \<Rightarrow> bool \<Rightarrow> serial \<Rightarrow> ('b, 'p) world \<Rightarrow> (serial \<times> ('b, 'p) world) cpp" where
  "put_bool P d x s w =
     (if bitStream s then writeBit P d x s w else writeByte P d (of_bool x) s w)"

definition put_value ::
  "('b, 'p) platform \<Rightarrow> nat \<Rightarrow> byte list \<Rightarrow> serial \<Rightarrow> ('b, 'p) world \<Rightarrow>
   (serial \<times> ('b, 'p) world) cpp" where
  "put_value P d bs s w = bindE (writeBytes P d bs s w) (\<lambda>(r, s, w). Inr (s, w))"

definition get_bool ::
  "('b, 'p) platform \<Rightarrow> nat \<Rightarrow> serial \<Rightarrow> ('b, 'p) world \<Rightarrow> (bool \<times> serial \<times> ('b, 'p) world) cpp" where
  "get_bool P d s w =
     (if bitStream s then readBit P d s w
      else bindE (readByte P d s w) (\<lambda>(b, s, w). Inr (b \<noteq> 0, s, w)))"

definition get_value ::
  "('b, 'p) platform \<Rightarrow> nat \<Rightarrow> byte list \<Rightarrow> serial \<Rightarrow> ('b, 'p) world \<Rightarrow>
   (byte list \<times> serial \<times> ('b, 'p) world) cpp" where
  "get_value P d dest s w =
     bindE (if read_buffer s then readBytesWithBuffer P d dest s w else readBytes P d dest s w)
       (\<lambda>(r, dest, s, w). Inr (dest, s, w))"

text \<open>\<open>readTypeWithBuffer\<close>, given the \<open>operator>>\<close> of the type.\<close>

definition readTypeWithBuffer ::
  "(serial \<Rightarrow> ('b, 'p) world \<Rightarrow> ('v \<times> serial \<times> ('b, 'p) world) cpp) \<Rightarrow>
   serial \<Rightarrow> ('b, 'p) world \<Rightarrow> (bool \<times> 'v \<times> serial \<times> ('b, 'p) world) cpp" where
  "readTypeWithBuffer get s w =
     bindE (get (s\<lparr>read_buffer := True\<rparr>) w) (\<lambda>(v, s, w).
       let s = s\<lparr>read_buffer := False\<rparr>;
           unread = (\<lambda>s. last_did_not_read_whole_size s \<or> is_read_empty s \<or> is_read_eof s)
       in Inr (\<not> (unread (other w) \<and> unread s), v, s, w))"

section \<open>An object over a memory region\<close>

definition region_of :: "serial \<Rightarrow> ('b, 'p) world \<Rightarrow> byte list" where
  "region_of s w = (case buffer_pointer s of Some a \<Rightarrow> regions w a | None \<Rightarrow> [])"

text \<open>The region has the announced size and both positions lie in it.\<close>

definition mem_ok :: "serial \<Rightarrow> ('b, 'p) world \<Rightarrow> bool" where
  "mem_ok s w \<longleftrightarrow> is_buffer_serial s \<and> \<not> is_count_serial s \<and> buffer_pointer s \<noteq> None \<and>
     buffer_size s = int (length (region_of s w)) \<and> buffer_size s < 2 ^ 63 \<and>
     0 \<le> buffer_read_index s \<and> buffer_read_index s \<le> buffer_size s \<and>
     0 \<le> buffer_write_index s \<and> buffer_write_index s \<le> buffer_size s"

definition mem_store :: "serial \<Rightarrow> byte list \<Rightarrow> ('b, 'p) world \<Rightarrow> ('b, 'p) world" where
  "mem_store s src w = w\<lparr>regions := (regions w)
     (the (buffer_pointer s) := blit (nat (buffer_write_index s)) src (region_of s w))\<rparr>"

named_theorems mem_simps \<open>reading and writing a memory region through its object\<close>

lemma mem_write [mem_simps]:
  assumes "mem_ok s w" and "length src < 2 ^ 63"
  shows "writeBytes_body P f src s w =
    (if buffer_write_index s + int (length src) \<le> buffer_size s
     then Inr (int (length src), s\<lparr>buffer_write_index := buffer_write_index s + int (length src)\<rparr>,
            mem_store s src w)
     else Inr (int (length src), s, w))"
proof -
  have i: "i64 (int (length src)) = int (length src)" using assms(2) by simp
  show ?thesis
    using assms by (auto simp: writeBytes_body_def i store_def mem_ok_def mem_store_def region_of_def)
qed

lemma mem_read [mem_simps]:
  assumes "mem_ok s w" and "length dest < 2 ^ 63"
  shows "readBytes_body P f dest s w =
    (if buffer_read_index s + int (length dest) \<le> buffer_size s
     then Inr (int (length dest), slice (nat (buffer_read_index s)) (length dest) (region_of s w),
            s\<lparr>buffer_read_index := buffer_read_index s + int (length dest)\<rparr>, w)
     else Inr (0, dest, s, w))"
proof -
  have i: "i64 (int (length dest)) = int (length dest)" using assms(2) by simp
  show ?thesis
    using assms by (auto simp: readBytes_body_def i load_def mem_ok_def region_of_def)
qed

lemma region_of_mem_store:
  "mem_ok s w \<Longrightarrow> buffer_pointer s' = buffer_pointer s \<Longrightarrow>
   region_of s' (mem_store s src w) = blit (nat (buffer_write_index s)) src (region_of s w)"
  by (auto simp: region_of_def mem_store_def mem_ok_def)

lemma mem_ok_write:
  assumes "mem_ok s w" and "buffer_write_index s + int (length src) \<le> buffer_size s"
  shows "mem_ok (s\<lparr>buffer_write_index := buffer_write_index s + int (length src)\<rparr>) (mem_store s src w)"
proof -
  have "nat (buffer_write_index s) + length src \<le> length (region_of s w)"
    using assms by (auto simp: mem_ok_def)
  then show ?thesis
    using assms by (simp add: mem_ok_def region_of_mem_store length_blit)
qed

lemma mem_ok_read:
  "mem_ok s w \<Longrightarrow> buffer_read_index s + int n \<le> buffer_size s \<Longrightarrow>
   mem_ok (s\<lparr>buffer_read_index := buffer_read_index s + int n\<rparr>) w"
  by (simp add: mem_ok_def region_of_def)

lemma mem_ok_cong:
  assumes "mem_ok s w" and "is_buffer_serial s' = is_buffer_serial s"
    and "is_count_serial s' = is_count_serial s" and "buffer_pointer s' = buffer_pointer s"
    and "buffer_size s' = buffer_size s" and "buffer_read_index s' = buffer_read_index s"
    and "buffer_write_index s' = buffer_write_index s"
  shows "mem_ok s' w"
  using assms by (simp add: mem_ok_def region_of_def)

lemma mem_store_cong:
  "buffer_pointer s' = buffer_pointer s \<Longrightarrow> buffer_write_index s' = buffer_write_index s \<Longrightarrow>
   mem_store s' src w = mem_store s src w"
  by (simp add: mem_store_def region_of_def)

text \<open>C35: over a memory region, \<open>writeBytes\<close> either copies the whole source to the write position and
  advances it, or, when the source does not fit, changes nothing; it never writes outside the
  region, leaves every other byte of it alone, and reports the full size in both cases.\<close>

theorem serial_buffer_write:
  assumes "mem_ok s w" and "length src < 2 ^ 63"
  shows "\<exists>s' w'. writeBytes P d src s w = Inr (int (length src), s', w') \<and> mem_ok s' w' \<and>
    buffer_read_index s' = buffer_read_index s \<and>
    (if buffer_write_index s + int (length src) \<le> buffer_size s
     then buffer_write_index s' = buffer_write_index s + int (length src) \<and>
       region_of s' w' = blit (nat (buffer_write_index s)) src (region_of s w)
     else s' = s \<and> w' = w)"
  using assms mem_ok_write [OF assms(1), of src]
  by (auto simp: writeBytes_def mem_simps region_of_mem_store)

definition demo_world :: "(stringbuf, unit) world" where
  "demo_world = \<lparr>streams = (\<lambda>_. mk_stream \<lparr>str = [], gpos = 0, ppos = 0\<rparr>),
     regions = (\<lambda>_. [0, 0, 0, 0]), passthroughs = (\<lambda>_. ()), other = serial_default\<rparr>"

definition demo_platform :: "(stringbuf, unit) platform" where
  "demo_platform = \<lparr>vt = stringbuf_vtable, pt_write = apassthrough_write, pt_read = apassthrough_read\<rparr>"

lemma demo_mem_ok: "mem_ok (serial_buffer 4 (Some 0) b) demo_world"
  by (simp add: mem_ok_def region_of_def demo_world_def serial_buffer_def serial_default_def)

theorem serial_buffer_write_witness:
  "\<exists>s' w'. writeBytes demo_platform 0 [1, 2, 3] (serial_buffer 4 (Some 0) False) demo_world =
      Inr (3, s', w') \<and> region_of s' w' = [1, 2, 3, 0]"
  using serial_buffer_write [OF demo_mem_ok [of False], where src = "[1, 2, 3]" and P = demo_platform and d = 0]
  by (auto simp: serial_buffer_def serial_default_def region_of_def demo_world_def blit_def)

text \<open>Over a memory region, \<open>readBytes\<close> either delivers the bytes at the read position and
  advances it, or, when fewer are left than asked for, delivers nothing, answers 0 and changes
  nothing; it never reads outside the region.\<close>

theorem serial_buffer_read:
  assumes "mem_ok s w" and "length dest < 2 ^ 63"
  shows "if buffer_read_index s + int (length dest) \<le> buffer_size s
    then \<exists>s'. readBytes P d dest s w = Inr (int (length dest),
           slice (nat (buffer_read_index s)) (length dest) (region_of s w), s', w) \<and>
         mem_ok s' w \<and> buffer_read_index s' = buffer_read_index s + int (length dest) \<and>
         buffer_write_index s' = buffer_write_index s
    else readBytes P d dest s w = Inr (0, dest, s, w)"
  using assms mem_ok_read [OF assms(1), of "length dest"]
  by (auto simp: readBytes_def mem_simps)

theorem serial_buffer_read_witness:
  "\<exists>s'. readBytes demo_platform 0 [7, 7] (serial_buffer 4 (Some 0) False) demo_world =
      Inr (2, [0, 0], s', demo_world)"
  using serial_buffer_read [OF demo_mem_ok [of False], where dest = "[7, 7]" and P = demo_platform and d = 0]
  by (auto simp: serial_buffer_def serial_default_def region_of_def demo_world_def slice_def)

section \<open>Bit streams over streams\<close>

text \<open>
  With the bit stream switched on and a stream behind the object, \<open>readBytes\<close> and \<open>readByte\<close> call
  each other without end, as do \<open>writeBytes\<close> and \<open>writeByte\<close>: no depth of calls is enough.
\<close>

lemma serial_stream_bits_read_never_returns:
  assumes "\<not> is_count_serial s" and "\<not> is_buffer_serial s" and "passthrough_ptr s = None"
    and "readStreamPointer s \<noteq> None" and "bitStream s"
    and "bitsReadReadByte s = 0 \<or> bitsReadReadByte s = 8"
  shows "readByte P d s w = Inl Out_of_fuel"
  using assms by (induction d) (auto simp: readByte.simps(2) readByte_body_def readBytes_body_def)

lemma serial_stream_bits_write_never_returns:
  assumes "\<not> is_count_serial s" and "\<not> is_buffer_serial s" and "passthrough_ptr s = None"
    and "writeStreamPointer s \<noteq> None" and "bitStream s"
    and "bitsWrittenWriteByte s = 0 \<or> bitsWrittenWriteByte s = 8"
  shows "writeByte P d b s w = Inl Out_of_fuel"
  using assms by (induction d) (auto simp: writeByte.simps(2) writeByte_body_def writeBytes_body_def)

text \<open>A copy of an object over streams has no streams: it reads and writes nothing.\<close>

lemma serial_copy_drops_streams:
  "readStreamPointer (serial_copy s) = None \<and> writeStreamPointer (serial_copy s) = None"
  by (simp add: serial_copy_def serial_assign_def serial_default_def)

end
