(* ===== verification/Serial_Bits.thy ===== *)
theory Serial_Bits
  imports Serial
begin

text \<open>
  Bits and bytes written to and read from a \<open>Serial\<close> over a memory region whose bit stream is
  switched on.  What has been written is a list of bits, least significant bit of a byte first: the
  bits of the bytes up to the write position and those waiting in \<open>currentWriteByte\<close>.
\<close>

section \<open>Bits of bytes\<close>

definition byte_bits :: "byte \<Rightarrow> bool list" where
  "byte_bits b = map (bit b) [0..<8]"

definition bits_of :: "byte list \<Rightarrow> bool list" where
  "bits_of bs = concat (map byte_bits bs)"

named_theorems bits_simps \<open>bits of bytes and of byte lists\<close>

lemma length_byte_bits [simp]: "length (byte_bits b) = 8"
  by (simp add: byte_bits_def)

lemma nth_byte_bits [bits_simps]: "k < 8 \<Longrightarrow> byte_bits b ! k = bit b k"
  by (simp add: byte_bits_def)

lemma bits_of_Nil [simp]: "bits_of [] = []"
  by (simp add: bits_of_def)

lemma bits_of_Cons [simp]: "bits_of (b # bs) = byte_bits b @ bits_of bs"
  by (simp add: bits_of_def)

lemma bits_of_append [simp]: "bits_of (xs @ ys) = bits_of xs @ bits_of ys"
  by (simp add: bits_of_def)

lemma length_bits_of [simp]: "length (bits_of bs) = 8 * length bs"
  by (induction bs) auto

text \<open>A byte whose bits from the \<open>k\<close>-th on are clear, and setting that bit.\<close>

definition clean :: "byte \<Rightarrow> nat \<Rightarrow> bool" where
  "clean b k \<longleftrightarrow> drop_bit k b = 0"

lemma clean_bit: "clean b k \<Longrightarrow> k \<le> j \<Longrightarrow> \<not> bit b j"
proof
  assume "clean b k" "k \<le> j" "bit b j"
  then have "bit (drop_bit k b) (j - k)" by (simp add: bit_drop_bit_eq)
  with \<open>clean b k\<close> show False by (simp add: clean_def)
qed

lemma clean_0 [simp]: "clean 0 k"
  by (simp add: clean_def)

lemma bit_set_next:
  "bit (b OR push_bit k (of_bool x) :: byte) j \<longleftrightarrow> bit b j \<or> (j = k \<and> x \<and> k < 8)"
  by (cases x) (auto simp: bit_simps)

lemma clean_set_next:
  assumes "clean b k"
  shows "clean (b OR push_bit k (of_bool x)) (Suc k)"
  unfolding clean_def
proof (rule bit_word_eqI)
  fix n
  have "\<not> bit (b OR push_bit k (of_bool x)) (Suc k + n)"
    unfolding bit_set_next using clean_bit [OF assms, of "Suc k + n"] by simp
  then show "bit (drop_bit (Suc k) (b OR push_bit k (of_bool x))) n = bit 0 n"
    by (simp only: bit_drop_bit_eq o_def bit_0_eq bot_apply bot_bool_def)
qed

lemma pending_set_next:
  assumes "clean b k" and "k < 8"
  shows "take (Suc k) (byte_bits (b OR push_bit k (of_bool x))) = take k (byte_bits b) @ [x]"
proof (rule nth_equalityI)
  show "length (take (Suc k) (byte_bits (b OR push_bit k (of_bool x)))) =
      length (take k (byte_bits b) @ [x])" using assms(2) by simp
  fix i
  assume "i < length (take (Suc k) (byte_bits (b OR push_bit k (of_bool x))))"
  then have "i < Suc k" "i < 8" by simp_all
  moreover have "\<not> bit b k" using clean_bit [OF assms(1), of k] by simp
  ultimately show "take (Suc k) (byte_bits (b OR push_bit k (of_bool x))) ! i =
      (take k (byte_bits b) @ [x]) ! i"
    unfolding nth_take [OF \<open>i < Suc k\<close>] nth_byte_bits [OF \<open>i < 8\<close>] bit_set_next
    using assms(2) by (auto simp: nth_append bits_simps less_Suc_eq)
qed

lemma byte_of_bits_eq: "byte_bits a = byte_bits b \<Longrightarrow> a = b"
proof (rule bit_word_eqI)
  fix n assume "byte_bits a = byte_bits b" "n < LENGTH(8)"
  then show "bit a n = bit b n" using nth_byte_bits [of n a] nth_byte_bits [of n b] by simp
qed

lemma rebuild_byte:
  assumes "clean c k" and "k < 8" and "take k (byte_bits c) = take k (byte_bits b)"
  shows "clean (c OR push_bit k (of_bool (bit b k))) (Suc k) \<and>
    take (Suc k) (byte_bits (c OR push_bit k (of_bool (bit b k)))) = take (Suc k) (byte_bits b)"
  using assms clean_set_next [OF assms(1)] pending_set_next [OF assms(1,2)]
  by (simp add: take_Suc_conv_app_nth bits_simps)

section \<open>What has been written\<close>

definition written_bits :: "serial \<Rightarrow> ('b, 'p) world \<Rightarrow> bool list" where
  "written_bits s w = bits_of (take (nat (buffer_write_index s)) (region_of s w)) @
     take (bitsWrittenWriteByte s) (byte_bits (currentWriteByte s))"

definition bit_writer :: "serial \<Rightarrow> ('b, 'p) world \<Rightarrow> bool" where
  "bit_writer s w \<longleftrightarrow> mem_ok s w \<and> bitStream s \<and> bitsWrittenWriteByte s < 8 \<and>
     clean (currentWriteByte s) (bitsWrittenWriteByte s) \<and>
     (bitsWrittenWriteByte s = 0 \<or> buffer_write_index s < buffer_size s)"

text \<open>The bits the region still has room for.\<close>

definition room_bits :: "serial \<Rightarrow> nat" where
  "room_bits s = 8 * nat (buffer_size s - buffer_write_index s) - bitsWrittenWriteByte s"

text \<open>A step of the writer: it appends bits, uses up their room and touches nothing of the reader.\<close>

definition writes :: "serial \<Rightarrow> ('b, 'p) world \<Rightarrow> bool list \<Rightarrow> serial \<Rightarrow> ('b, 'p) world \<Rightarrow> bool" where
  "writes s w xs s' w' \<longleftrightarrow> bit_writer s' w' \<and> written_bits s' w' = written_bits s w @ xs \<and>
     room_bits s' + length xs = room_bits s \<and> buffer_pointer s' = buffer_pointer s \<and>
     buffer_size s' = buffer_size s \<and> buffer_read_index s' = buffer_read_index s"

lemma writes_refl: "bit_writer s w \<Longrightarrow> writes s w [] s w"
  by (simp add: writes_def)

lemma writes_trans:
  "writes s w xs s1 w1 \<Longrightarrow> writes s1 w1 ys s2 w2 \<Longrightarrow> writes s w (xs @ ys) s2 w2"
  by (auto simp: writes_def)

lemma take_mem_store:
  assumes "mem_ok s w" and "buffer_pointer s' = buffer_pointer s"
  shows "take (nat (buffer_write_index s + int (length src))) (region_of s' (mem_store s src w)) =
    take (nat (buffer_write_index s)) (region_of s w) @ src"
proof -
  have "nat (buffer_write_index s) \<le> length (region_of s w)"
    and n: "nat (buffer_write_index s + int (length src)) = nat (buffer_write_index s) + length src"
    using assms by (auto simp: mem_ok_def)
  then show ?thesis using assms by (simp add: region_of_mem_store take_blit n)
qed

text \<open>A full byte, or one written while none is pending, goes to the region at once.\<close>

lemma writeByte_aligned:
  assumes "mem_ok s w" and "bitsWrittenWriteByte s = 0 \<or> bitsWrittenWriteByte s = 8"
    and "buffer_write_index s < buffer_size s"
  shows "writeByte P (Suc d) b s w =
    Inr (s\<lparr>buffer_write_index := buffer_write_index s + 1, currentWriteByte := 0,
           bitsWrittenWriteByte := 0\<rparr>, mem_store s [b] w)"
  using assms by (auto simp: writeByte.simps(2) writeByte_body_def mem_simps)

lemma writer_flush:
  assumes "mem_ok s w" and "bitStream s" and "buffer_write_index s < buffer_size s"
    and "s' = s\<lparr>buffer_write_index := buffer_write_index s + 1, currentWriteByte := 0,
           bitsWrittenWriteByte := 0\<rparr>" and "w' = mem_store s [b] w"
  shows "bit_writer s' w' \<and>
    written_bits s' w' = bits_of (take (nat (buffer_write_index s)) (region_of s w)) @ byte_bits b \<and>
    room_bits s' = 8 * nat (buffer_size s - buffer_write_index s) - 8"
proof -
  have m: "mem_ok (s\<lparr>buffer_write_index := buffer_write_index s + 1\<rparr>) w'"
    using mem_ok_write [OF assms(1), of "[b]"] assms(3,5) by simp
  have "mem_ok s' w'" using m by (rule mem_ok_cong) (simp_all add: assms(4))
  moreover have "take (nat (buffer_write_index s + 1)) (region_of s' w') =
      take (nat (buffer_write_index s)) (region_of s w) @ [b]"
    using take_mem_store [OF assms(1), of s' "[b]"] by (simp add: assms(4,5))
  ultimately show ?thesis
    using assms(2,3) by (auto simp: bit_writer_def written_bits_def room_bits_def assms(4))
qed

lemma writeBit_writes:
  assumes "bit_writer s w" and "0 < room_bits s"
  shows "\<exists>s' w'. writeBit P (Suc d) x s w = Inr (s', w') \<and> writes s w [x] s' w'"
proof -
  define s1 where "s1 = s\<lparr>currentWriteByte :=
       currentWriteByte s OR push_bit (bitsWrittenWriteByte s) (of_bool x),
     bitsWrittenWriteByte := Suc (bitsWrittenWriteByte s)\<rparr>"
  have k: "bitsWrittenWriteByte s < 8" and c: "clean (currentWriteByte s) (bitsWrittenWriteByte s)"
    and m: "mem_ok s w" and bs: "bitStream s"
    using assms(1) by (auto simp: bit_writer_def)
  have m1: "mem_ok s1 w" using m by (rule mem_ok_cong) (simp_all add: s1_def)
  have reg: "region_of s1 w = region_of s w" by (simp add: s1_def region_of_def)
  have p: "take (Suc (bitsWrittenWriteByte s)) (byte_bits (currentWriteByte s1)) =
      take (bitsWrittenWriteByte s) (byte_bits (currentWriteByte s)) @ [x]"
    by (simp add: s1_def pending_set_next [OF c k])
  have lt: "buffer_write_index s < buffer_size s" using assms(2) by (auto simp: room_bits_def)
  show ?thesis
  proof (cases "bitsWrittenWriteByte s = 7")
    case True
    have w: "writeBit P (Suc d) x s w = writeByte P (Suc d) (currentWriteByte s1) s1 w"
      using True by (simp add: writeBit_def writeBit_body_def s1_def)
    have fl: "writeByte P (Suc d) (currentWriteByte s1) s1 w =
        Inr (s1\<lparr>buffer_write_index := buffer_write_index s1 + 1, currentWriteByte := 0,
           bitsWrittenWriteByte := 0\<rparr>, mem_store s1 [currentWriteByte s1] w)"
      using writeByte_aligned [OF m1] lt True by (simp add: s1_def)
    have "byte_bits (currentWriteByte s1) = take 7 (byte_bits (currentWriteByte s)) @ [x]"
      using p True by simp
    moreover have "bitStream s1" "buffer_write_index s1 = buffer_write_index s"
        "buffer_size s1 = buffer_size s" "buffer_pointer s1 = buffer_pointer s"
        "buffer_read_index s1 = buffer_read_index s"
      using bs by (simp_all add: s1_def)
    ultimately show ?thesis
      using writer_flush [OF m1 _ _ refl refl, of "currentWriteByte s1"] lt True assms(2)
      by (simp add: w fl writes_def written_bits_def reg) (simp add: room_bits_def)
  next
    case False
    then have w: "writeBit P (Suc d) x s w = Inr (s1, w)"
      using k by (simp add: writeBit_def writeBit_body_def s1_def)
    have "clean (currentWriteByte s1) (Suc (bitsWrittenWriteByte s))"
      by (simp add: s1_def clean_set_next [OF c])
    moreover have "bitsWrittenWriteByte s1 = Suc (bitsWrittenWriteByte s)" by (simp add: s1_def)
    ultimately have "writes s w [x] s1 w"
      using False k m1 bs p assms(2) lt
      by (simp add: writes_def bit_writer_def written_bits_def reg) (simp add: s1_def room_bits_def)
    with w show ?thesis by auto
  qed
qed

lemma forE_writeBit_writes:
  assumes "bit_writer s w" and "length is \<le> room_bits s"
  shows "\<exists>s' w'. forE is (\<lambda>i (s, w). writeBit P (Suc d) (f i) s w) (s, w) = Inr (s', w') \<and>
    writes s w (map f is) s' w'"
  using assms
proof (induction "is" arbitrary: s w)
  case (Cons i js)
  obtain s1 w1 where w1: "writeBit P (Suc d) (f i) s w = Inr (s1, w1)" "writes s w [f i] s1 w1"
    using writeBit_writes [OF Cons.prems(1), of P d "f i"] Cons.prems(2) by auto
  then have "bit_writer s1 w1" "length js \<le> room_bits s1"
    using Cons.prems(2) by (auto simp: writes_def)
  from Cons.IH [OF this] obtain s' w'
    where "forE js (\<lambda>i (s, w). writeBit P (Suc d) (f i) s w) (s1, w1) = Inr (s', w')"
      "writes s1 w1 (map f js) s' w'" by auto
  with w1 show ?case using writes_trans [OF w1(2)] by auto
qed (simp add: writes_refl)

lemma writeByte_writes:
  assumes "bit_writer s w" and "8 \<le> room_bits s"
  shows "\<exists>s' w'. writeByte P (Suc (Suc d)) b s w = Inr (s', w') \<and> writes s w (byte_bits b) s' w'"
proof (cases "bitsWrittenWriteByte s = 0")
  case True
  then have m: "mem_ok s w" and bs: "bitStream s" and lt: "buffer_write_index s < buffer_size s"
    using assms by (auto simp: bit_writer_def room_bits_def)
  show ?thesis
    using writeByte_aligned [OF m _ lt, of P "Suc d" b] writer_flush [OF m bs lt refl refl, of b]
      True assms(2)
    by (simp add: writes_def written_bits_def room_bits_def)
next
  case False
  have b: "bitStream s" "bitsWrittenWriteByte s < 8" using assms(1) by (auto simp: bit_writer_def)
  show ?thesis
    using forE_writeBit_writes [OF assms(1), of "[0..<8]" P d "bit b"] assms(2) b False
    by (simp add: writeByte.simps(2) [of P "Suc d"] writeByte_body_def
        writeBit_def [of P "Suc d", symmetric] byte_bits_def)
qed

section \<open>writeBits writes its bits one by one\<close>

lemma writeByte_full_resets:
  "writeByte P d b s w = Inr (s', w') \<Longrightarrow> bitsWrittenWriteByte s = 8 \<Longrightarrow> bitsWrittenWriteByte s' = 0"
  by (cases d) (auto simp: writeByte.simps(2) writeByte_body_def bind_elims)

lemma writeBit_pending:
  "writeBit P d x s w = Inr (s', w') \<Longrightarrow> bitsWrittenWriteByte s < 8 \<Longrightarrow> bitsWrittenWriteByte s' < 8"
  by (auto simp: writeBit_def writeBit_body_def Let_def split: if_splits dest: writeByte_full_resets)

lemma forE_writeBit_pending:
  "forE is (\<lambda>i (s, w). writeBit P d (f i) s w) (s, w) = Inr (s', w') \<Longrightarrow>
   bitsWrittenWriteByte s < 8 \<Longrightarrow> bitsWrittenWriteByte s' < 8"
  by (induction "is" arbitrary: s w) (auto simp: bind_elims dest: writeBit_pending)

text \<open>One round of the outer loop: the inner loop and the write of a full byte.\<close>

lemma writeBits_round:
  assumes "bitsWrittenWriteByte s < 8" and "n \<le> length c"
  shows "bindE (writeBits_inner n (bitsWrittenWriteByte s) i c s) (\<lambda>(i, s).
      bindE (if bitsWrittenWriteByte s = 8 then writeByte P d (currentWriteByte s) s w
             else Inr (s, w)) (K i)) =
    bindE (forE [i..<i + min (8 - bitsWrittenWriteByte s) (n - i)]
       (\<lambda>i (s, w). writeBit P d (c ! i) s w) (s, w))
      (K (i + min (8 - bitsWrittenWriteByte s) (n - i)))"
  using assms
proof (induction "8 - bitsWrittenWriteByte s" arbitrary: s i)
  case (Suc k)
  define s1 where "s1 = s\<lparr>currentWriteByte :=
       currentWriteByte s OR push_bit (bitsWrittenWriteByte s) (of_bool (c ! i)),
     bitsWrittenWriteByte := Suc (bitsWrittenWriteByte s)\<rparr>"
  show ?case
  proof (cases "i < n")
    case True
    then have inner: "writeBits_inner n (bitsWrittenWriteByte s) i c s =
        writeBits_inner n (bitsWrittenWriteByte s1) (Suc i) c s1"
      using Suc.prems by (subst writeBits_inner.simps) (simp add: s1_def)
    have wb: "writeBit P d (c ! i) s w = (if bitsWrittenWriteByte s1 = 8
        then writeByte P d (currentWriteByte s1) s1 w else Inr (s1, w))"
      by (simp add: writeBit_def writeBit_body_def s1_def)
    have m: "min (8 - bitsWrittenWriteByte s) (n - i) =
        Suc (min (8 - bitsWrittenWriteByte s1) (n - Suc i))"
      using Suc.prems True by (simp add: s1_def)
    show ?thesis
    proof (cases "bitsWrittenWriteByte s1 = 8")
      case full: True
      have "writeBits_inner n 8 (Suc i) c s1 = Inr (Suc i, s1)"
        by (subst writeBits_inner.simps) simp
      with inner wb m full show ?thesis by simp
    next
      case False
      then have "bitsWrittenWriteByte s1 < 8" "k = 8 - bitsWrittenWriteByte s1"
        using Suc by (auto simp: s1_def)
      from Suc.hyps(1) [OF this(2,1) Suc.prems(2), of "Suc i"] show ?thesis
        using False by (simp add: inner m wb upt_conv_Cons del: upt_Suc)
    qed
  next
    case False
    then have "writeBits_inner n (bitsWrittenWriteByte s) i c s = Inr (i, s)"
      by (subst writeBits_inner.simps) simp
    with False Suc.prems show ?thesis by simp
  qed
qed simp

lemma writeBits_loop_eq:
  assumes "bitsWrittenWriteByte s < 8" and "n \<le> length c" and "n - i \<le> f"
  shows "writeBits_loop P d n f i c s w =
    (if i < n then forE [i..<n] (\<lambda>i (s, w). writeBit P d (c ! i) s w) (s, w) else Inr (s, w))"
  using assms
proof (induction f arbitrary: i s w)
  case (Suc f)
  define m where "m = min (8 - bitsWrittenWriteByte s) (n - i)"
  show ?case
  proof (cases "i < n")
    case True
    then have m: "0 < m" "i + m \<le> n" using Suc.prems by (auto simp: m_def)
    have rest: "writeBits_loop P d n f (i + m) c s1 w1 =
        forE [i + m..<n] (\<lambda>i (s, w). writeBit P d (c ! i) s w) (s1, w1)"
      if "forE [i..<i + m] (\<lambda>i (s, w). writeBit P d (c ! i) s w) (s, w) = Inr (s1, w1)" for s1 w1
      using Suc.IH [OF forE_writeBit_pending [OF that Suc.prems(1)] Suc.prems(2), of "i + m" w1]
        m Suc.prems(3) by auto
    have "writeBits_loop P d n (Suc f) i c s w =
        bindE (forE [i..<i + m] (\<lambda>i (s, w). writeBit P d (c ! i) s w) (s, w))
          (\<lambda>(s, w). writeBits_loop P d n f (i + m) c s w)"
      using True writeBits_round [OF Suc.prems(1,2), where i = i and P = P and d = d and w = w
          and K = "\<lambda>i (s, w). writeBits_loop P d n f i c s w"]
      by (simp add: m_def)
    also have "\<dots> = forE [i..<n] (\<lambda>i (s, w). writeBit P d (c ! i) s w) (s, w)"
      unfolding forE_upt_split [OF m(2), of _ "(s, w)"]
      by (cases "forE [i..<i + m] (\<lambda>i (s, w). writeBit P d (c ! i) s w) (s, w)")
        (auto simp: rest)
    finally show ?thesis using True by simp
  qed simp
qed simp



section \<open>What is ahead of the reader\<close>

definition ahead_bits :: "serial \<Rightarrow> ('b, 'p) world \<Rightarrow> bool list" where
  "ahead_bits s w =
     (if 0 < bitsReadReadByte s \<and> bitsReadReadByte s < 8
      then drop (bitsReadReadByte s) (byte_bits (currentReadByte s)) else []) @
     bits_of (drop (nat (buffer_read_index s)) (region_of s w))"

definition bit_reader :: "serial \<Rightarrow> ('b, 'p) world \<Rightarrow> bool" where
  "bit_reader s w \<longleftrightarrow> mem_ok s w \<and> bitStream s \<and> next_read_offset s = 0 \<and> bitsReadReadByte s \<le> 8"

definition reads :: "serial \<Rightarrow> nat \<Rightarrow> serial \<Rightarrow> ('b, 'p) world \<Rightarrow> bool" where
  "reads s n s' w \<longleftrightarrow> bit_reader s' w \<and> ahead_bits s' w = drop n (ahead_bits s w) \<and>
     buffer_pointer s' = buffer_pointer s \<and> buffer_write_index s' = buffer_write_index s"

lemma reads_trans: "reads s m s1 w \<Longrightarrow> reads s1 n s2 w \<Longrightarrow> reads s (m + n) s2 w"
  by (auto simp: reads_def add.commute)

lemma reads_refl: "bit_reader s w \<Longrightarrow> reads s 0 s w"
  by (simp add: reads_def)

text \<open>Fetching the next byte.\<close>

lemma fetch_byte:
  assumes "bit_reader s w" and "bitsReadReadByte s = 0 \<or> bitsReadReadByte s = 8"
    and "ahead_bits s w \<noteq> []"
  shows "\<exists>b s'. readBytes_body P f [currentReadByte s] s w = Inr (1, [b], s', w) \<and>
    s' = s\<lparr>buffer_read_index := buffer_read_index s + 1\<rparr> \<and> mem_ok s' w \<and>
    ahead_bits s w = byte_bits b @ bits_of (drop (nat (buffer_read_index s')) (region_of s w))"
proof -
  let ?i = "nat (buffer_read_index s)"
  have m: "mem_ok s w" using assms(1) by (simp add: bit_reader_def)
  have a: "ahead_bits s w = bits_of (drop ?i (region_of s w))" using assms(2) by (auto simp: ahead_bits_def)
  then have lt: "?i < length (region_of s w)" using assms(3) by (cases "?i < length (region_of s w)") auto
  have d: "drop ?i (region_of s w) = region_of s w ! ?i # drop (Suc ?i) (region_of s w)"
    using lt by (simp add: Cons_nth_drop_Suc)
  have le: "buffer_read_index s + int (length [currentReadByte s]) \<le> buffer_size s"
    using m lt by (auto simp: mem_ok_def)
  have sl: "slice ?i (Suc 0) (region_of s w) = [region_of s w ! ?i]"
    by (simp add: slice_def d)
  have n: "nat (buffer_read_index s + 1) = Suc ?i" using m by (auto simp: mem_ok_def)
  show ?thesis
    using mem_read [OF m, of "[currentReadByte s]" P f] mem_ok_read [OF m, of 1] le
    by (auto simp: sl a d n)
qed

lemma readBit_reads:
  assumes "bit_reader s w" and "ahead_bits s w \<noteq> []"
  shows "\<exists>s'. readBit P d s w = Inr (hd (ahead_bits s w), s', w) \<and> reads s 1 s' w"
proof (cases "bitsReadReadByte s = 0 \<or> bitsReadReadByte s = 8")
  case True
  obtain b s1 where f: "readBytes_body P (readByte P d) [currentReadByte s] s w = Inr (1, [b], s1, w)"
      "s1 = s\<lparr>buffer_read_index := buffer_read_index s + 1\<rparr>" "mem_ok s1 w"
      "ahead_bits s w = byte_bits b @ bits_of (drop (nat (buffer_read_index s1)) (region_of s w))"
    using fetch_byte [OF assms(1) True assms(2)] by blast
  define s2 where "s2 = s1\<lparr>currentReadByte := b, bitsReadReadByte := 1\<rparr>"
  have fields: "next_read_offset s = 0" "bitStream s" using assms(1) by (auto simp: bit_reader_def)
  have "mem_ok s2 w" using f(3) by (rule mem_ok_cong) (simp_all add: s2_def)
  moreover have "region_of s2 w = region_of s w" by (simp add: s2_def f(2) region_of_def)
  ultimately have r: "reads s 1 s2 w"
    using fields by (simp add: reads_def bit_reader_def ahead_bits_def [of s2] f(4)) (simp add: s2_def f(2))
  have "byte_bits b \<noteq> []" by (simp add: byte_bits_def)
  then have "hd (ahead_bits s w) = bit b 0"
    by (simp add: f(4)) (simp add: byte_bits_def hd_map)
  moreover have "readBit P d s w = Inr (bit b 0, s2, w)"
    using True fields
    by (simp add: readBit_def readBit_body_def readBytes_def f(1) char_bit_def) (simp add: s2_def f(2))
  ultimately show ?thesis using r by auto
next
  case False
  define k where "k = bitsReadReadByte s"
  have k: "0 < k" "k < 8" using False assms(1) by (auto simp: bit_reader_def k_def)
  define s2 where "s2 = s\<lparr>bitsReadReadByte := Suc k\<rparr>"
  have "drop k (byte_bits (currentReadByte s)) =
      bit (currentReadByte s) k # drop (Suc k) (byte_bits (currentReadByte s))"
    using k by (simp add: Cons_nth_drop_Suc [symmetric] bits_simps)
  then have a: "ahead_bits s w = bit (currentReadByte s) k # drop (Suc k) (byte_bits (currentReadByte s)) @
      bits_of (drop (nat (buffer_read_index s)) (region_of s w))"
    using k by (simp add: ahead_bits_def k_def)
  have "mem_ok s w" "bitStream s" "next_read_offset s = 0" using assms(1) by (auto simp: bit_reader_def)
  moreover have "region_of s2 w = region_of s w" by (simp add: s2_def region_of_def)
  moreover have "mem_ok s2 w" using \<open>mem_ok s w\<close> by (rule mem_ok_cong) (simp_all add: s2_def)
  ultimately have r: "reads s 1 s2 w"
    using k by (auto simp: reads_def bit_reader_def a) (auto simp: ahead_bits_def s2_def)
  have "readBit P d s w = Inr (bit (currentReadByte s) k, s2, w)"
    using k False by (simp add: readBit_def readBit_body_def char_bit_def k_def [symmetric] min_absorb1)
      (simp add: s2_def k_def [symmetric])
  then show ?thesis using r by (simp add: a)
qed

text \<open>A byte is rebuilt from the next eight bits, wherever they start.\<close>

lemma forE_readBit_reads:
  assumes "bit_reader s w" and "e + n = 8" and "n \<le> length (ahead_bits s w)" and "clean acc e"
  shows "\<exists>b s'. forE [e..<8] (\<lambda>e (b, s, w). bindE (readBit P d s w) (\<lambda>(x, s, w).
        Inr (b OR push_bit e (of_bool x), s, w))) (acc, s, w) = Inr (b, s', w) \<and>
    byte_bits b = take e (byte_bits acc) @ take n (ahead_bits s w) \<and> reads s n s' w"
  using assms
proof (induction n arbitrary: e acc s)
  case 0
  then show ?case by (auto simp: reads_refl)
next
  case (Suc n)
  then have e: "e < 8" and ne: "ahead_bits s w \<noteq> []" by auto
  obtain s1 where s1: "readBit P d s w = Inr (hd (ahead_bits s w), s1, w)" "reads s 1 s1 w"
    using readBit_reads [OF Suc.prems(1) ne] by blast
  let ?x = "hd (ahead_bits s w)"
  let ?a = "acc OR push_bit e (of_bool ?x)"
  have a1: "ahead_bits s1 w = tl (ahead_bits s w)" using s1(2) by (simp add: reads_def drop_Suc)
  have pre: "bit_reader s1 w" "Suc e + n = 8" "n \<le> length (ahead_bits s1 w)" "clean ?a (Suc e)"
    using Suc.prems s1(2) a1 clean_set_next [of acc e ?x] by (auto simp: reads_def)
  obtain b s' where ih: "forE [Suc e..<8] (\<lambda>e (b, s, w). bindE (readBit P d s w) (\<lambda>(x, s, w).
        Inr (b OR push_bit e (of_bool x), s, w))) (?a, s1, w) = Inr (b, s', w)"
      "byte_bits b = take (Suc e) (byte_bits ?a) @ take n (ahead_bits s1 w)" "reads s1 n s' w"
    using Suc.IH [OF pre] by blast
  have "take (Suc e) (byte_bits ?a) = take e (byte_bits acc) @ [?x]"
    using pending_set_next [OF Suc.prems(4) e] by simp
  then have "byte_bits b = take e (byte_bits acc) @ take (Suc n) (ahead_bits s w)"
    using ih(2) a1 ne by (cases "ahead_bits s w") auto
  moreover have "reads s (Suc n) s' w" using reads_trans [OF s1(2) ih(3)] by simp
  moreover
  let ?F = "\<lambda>e (b, s, w). bindE (readBit P d s w) (\<lambda>(x, s, w).
        Inr (b OR push_bit e (of_bool x), s, w))"
  have "?F e (acc, s, w) = Inr (?a, s1, w)" by (simp add: s1(1))
  then have "forE [e..<8] ?F (acc, s, w) = Inr (b, s', w)"
    by (simp only: forE_upt_rec [OF e, of ?F] bindE_Inr ih(1))
  ultimately show ?case by blast
qed

lemma readByte_reads:
  assumes "bit_reader s w" and "8 \<le> length (ahead_bits s w)"
  shows "\<exists>b s'. readByte P (Suc d) s w = Inr (b, s', w) \<and> byte_bits b = take 8 (ahead_bits s w) \<and>
    reads s 8 s' w"
proof (cases "bitsReadReadByte s = 0 \<or> bitsReadReadByte s = 8")
  case True
  have "ahead_bits s w \<noteq> []" using assms(2) by auto
  then obtain b s1 where f: "readBytes_body P (readByte P d) [currentReadByte s] s w = Inr (1, [b], s1, w)"
      "s1 = s\<lparr>buffer_read_index := buffer_read_index s + 1\<rparr>" "mem_ok s1 w"
      "ahead_bits s w = byte_bits b @ bits_of (drop (nat (buffer_read_index s1)) (region_of s w))"
    using fetch_byte [OF assms(1) True] by blast
  define s2 where "s2 = s1\<lparr>currentReadByte := b, bitsReadReadByte := 0\<rparr>"
  have fields: "next_read_offset s = 0" "bitStream s" using assms(1) by (auto simp: bit_reader_def)
  have "mem_ok s2 w" using f(3) by (rule mem_ok_cong) (simp_all add: s2_def)
  moreover have "region_of s2 w = region_of s w" by (simp add: s2_def f(2) region_of_def)
  ultimately have r: "reads s 8 s2 w"
    using fields by (simp add: reads_def bit_reader_def ahead_bits_def [of s2] f(4)) (simp add: s2_def f(2))
  have "readByte P (Suc d) s w = Inr (b, s2, w)"
    using True by (auto simp: readByte.simps(2) readByte_body_def f(1)) (simp_all add: s2_def)
  with r show ?thesis by (simp add: f(4))
next
  case False
  then have b: "bitStream s" "0 < bitsReadReadByte s" "bitsReadReadByte s < 8"
    using assms(1) by (auto simp: bit_reader_def)
  show ?thesis
    using forE_readBit_reads [OF assms(1), of 0 8 0 P d] assms(2) b
    by (simp add: readByte.simps(2) readByte_body_def readBit_def readBytes_def)
qed

section \<open>readBits takes the bits ahead\<close>

lemma blit_next:
  assumes "j + length xs < length c"
  shows "blit (Suc j) xs (c[j := x]) = blit j (x # xs) c"
  using assms by (simp add: blit_def take_Suc_conv_app_nth)

lemma readBits_inner_takes:
  assumes "bitsReadReadByte s \<le> 8" and "m = min (8 - bitsReadReadByte s) (n - i)"
    and "i + index + m \<le> length c"
  shows "readBits_inner index n (bitsReadReadByte s) i c s =
    Inr (i + m, blit (i + index) (take m (drop (bitsReadReadByte s) (byte_bits (currentReadByte s)))) c,
      s\<lparr>bitsReadReadByte := bitsReadReadByte s + m\<rparr>)"
  using assms
proof (induction m arbitrary: s i c)
  case 0
  then have "\<not> (bitsReadReadByte s < 8 \<and> i < n)" by (auto simp: min_def split: if_splits)
  then have "readBits_inner index n (bitsReadReadByte s) i c s = Inr (i, c, s)"
    by (subst readBits_inner.simps) auto
  then show ?case by simp
next
  case (Suc m)
  let ?k = "bitsReadReadByte s"
  define s1 where "s1 = s\<lparr>bitsReadReadByte := Suc ?k\<rparr>"
  define c1 where "c1 = c[i + index := bit (currentReadByte s) ?k]"
  have k: "?k < 8" "i < n" "i + index < length c" using Suc.prems by (auto simp: min_def split: if_splits)
  have le: "i + index + Suc m \<le> length c" using Suc.prems(2,3) by simp
  have d: "drop ?k (byte_bits (currentReadByte s)) =
      bit (currentReadByte s) ?k # drop (Suc ?k) (byte_bits (currentReadByte s))"
    using k by (simp add: Cons_nth_drop_Suc [symmetric] bits_simps)
  have "readBits_inner index n ?k i c s = readBits_inner index n (bitsReadReadByte s1) (Suc i) c1 s1"
    using k by (subst readBits_inner.simps) (simp add: s1_def c1_def)
  also have "\<dots> = Inr (Suc i + m,
      blit (Suc i + index) (take m (drop (bitsReadReadByte s1) (byte_bits (currentReadByte s1)))) c1,
      s1\<lparr>bitsReadReadByte := bitsReadReadByte s1 + m\<rparr>)"
    by (rule Suc.IH) (use Suc.prems k in \<open>auto simp: s1_def c1_def min_def split: if_splits\<close>)
  also have "\<dots> = Inr (i + Suc m, blit (i + index)
      (take (Suc m) (drop ?k (byte_bits (currentReadByte s)))) c, s\<lparr>bitsReadReadByte := ?k + Suc m\<rparr>)"
    using blit_next [of "i + index" "take m (drop (Suc ?k) (byte_bits (currentReadByte s)))" c
        "bit (currentReadByte s) ?k"] le
    by (simp add: d c1_def s1_def)
  finally show ?case .
qed

text \<open>A round with unread bits in the current byte, and the fetch before one without.\<close>

lemma take_current:
  assumes "bit_reader s w" and "0 < bitsReadReadByte s" and "bitsReadReadByte s < 8"
    and "m \<le> 8 - bitsReadReadByte s" and "s' = s\<lparr>bitsReadReadByte := bitsReadReadByte s + m\<rparr>"
  shows "take m (drop (bitsReadReadByte s) (byte_bits (currentReadByte s))) = take m (ahead_bits s w) \<and>
    reads s m s' w"
proof -
  have "mem_ok s' w" using assms(1,5) by (auto simp: bit_reader_def intro: mem_ok_cong)
  moreover have "region_of s' w = region_of s w" by (simp add: assms(5) region_of_def)
  ultimately show ?thesis
    using assms by (auto simp: reads_def bit_reader_def ahead_bits_def add.commute)
qed

lemma take_fetched:
  assumes "bit_reader s w" and "bitsReadReadByte s = 8" and "ahead_bits s w \<noteq> []"
    and "0 < m" and "m \<le> 8"
  shows "\<exists>b s1 s2. readByte P (Suc d) s w = Inr (b, s1, w) \<and> bitsReadReadByte s1 = 0 \<and>
    take m (byte_bits (currentReadByte s1)) = take m (ahead_bits s w) \<and>
    s2 = s1\<lparr>bitsReadReadByte := m\<rparr> \<and> reads s m s2 w"
proof -
  obtain b s1 where f: "readBytes_body P (readByte P d) [currentReadByte s] s w = Inr (1, [b], s1, w)"
      "s1 = s\<lparr>buffer_read_index := buffer_read_index s + 1\<rparr>" "mem_ok s1 w"
      "ahead_bits s w = byte_bits b @ bits_of (drop (nat (buffer_read_index s1)) (region_of s w))"
    using fetch_byte [OF assms(1) _ assms(3)] assms(2) by blast
  define s2 where "s2 = s1\<lparr>currentReadByte := b, bitsReadReadByte := 0\<rparr>"
  define s3 where "s3 = s2\<lparr>bitsReadReadByte := m\<rparr>"
  have fields: "next_read_offset s = 0" "bitStream s" using assms(1) by (auto simp: bit_reader_def)
  have "mem_ok s3 w" using f(3) by (rule mem_ok_cong) (simp_all add: s3_def s2_def)
  moreover have "region_of s3 w = region_of s w" by (simp add: s3_def s2_def f(2) region_of_def)
  ultimately have r: "reads s m s3 w"
    using fields assms(4,5)
    by (auto simp: reads_def bit_reader_def ahead_bits_def [of s3] f(4)) (simp_all add: s3_def s2_def f(2))
  have "readByte P (Suc d) s w = Inr (b, s2, w)"
    using assms(2) by (simp add: readByte.simps(2) readByte_body_def f(1) s2_def)
  moreover have "take m (byte_bits (currentReadByte s2)) = take m (ahead_bits s w)"
    using assms(5) by (simp add: s2_def f(4))
  ultimately show ?thesis using r by (auto simp: s3_def s2_def)
qed

lemma readBits_loop_takes:
  assumes "bit_reader s w" and "0 < bitsReadReadByte s" and "n - i \<le> length (ahead_bits s w)"
    and "i \<le> n" and "n + index \<le> length c" and "n - i \<le> f"
  shows "\<exists>s'. readBits_loop P (Suc d) index n f i c s w =
      Inr (blit (i + index) (take (n - i) (ahead_bits s w)) c, s', w) \<and>
    reads s (n - i) s' w \<and> 0 < bitsReadReadByte s'"
  using assms
proof (induction f arbitrary: i c s)
  case 0
  then show ?case by (auto simp: reads_refl)
next
  case (Suc f)
  show ?case
  proof (cases "i < n")
    case True
    obtain s1 s2 m where r: "bindE (if bitsReadReadByte s = 8 then
                 bindE (readByte P (Suc d) s w) (\<lambda>(b, s, w). Inr (s, w))
               else Inr (s, w)) (\<lambda>(s, w). bindE (readBits_inner index n (bitsReadReadByte s) i c s)
                 (\<lambda>(i, c, s). readBits_loop P (Suc d) index n f i c s w)) =
        readBits_loop P (Suc d) index n f (i + m) (blit (i + index) (take m (ahead_bits s w)) c) s2 w"
      and m: "0 < m" "m \<le> n - i" "reads s m s2 w" "0 < bitsReadReadByte s2"
    proof (cases "bitsReadReadByte s = 8")
      case full: True
      define m where "m = min 8 (n - i)"
      have "ahead_bits s w \<noteq> []" using Suc.prems(3) True by auto
      then obtain b s1 s2 where f: "readByte P (Suc d) s w = Inr (b, s1, w)" "bitsReadReadByte s1 = 0"
          "take m (byte_bits (currentReadByte s1)) = take m (ahead_bits s w)"
          "s2 = s1\<lparr>bitsReadReadByte := m\<rparr>" "reads s m s2 w"
        using take_fetched [OF Suc.prems(1) full, of m P d] True by (auto simp: m_def)
      have "readBits_inner index n (bitsReadReadByte s1) i c s1 =
          Inr (i + m, blit (i + index) (take m (ahead_bits s w)) c, s2)"
        using readBits_inner_takes [of s1 m n i index c] f(2-4) Suc.prems(4,5) by (simp add: m_def)
      then show thesis
        using that [of m s2] f True full by (simp add: m_def)
    next
      case False
      define m where "m = min (8 - bitsReadReadByte s) (n - i)"
      define s2 where "s2 = s\<lparr>bitsReadReadByte := bitsReadReadByte s + m\<rparr>"
      have k: "bitsReadReadByte s < 8" using False Suc.prems(1) by (auto simp: bit_reader_def)
      have t: "take m (drop (bitsReadReadByte s) (byte_bits (currentReadByte s))) = take m (ahead_bits s w)"
        "reads s m s2 w"
        using take_current [OF Suc.prems(1,2) k _ s2_def] by (auto simp: m_def)
      have "readBits_inner index n (bitsReadReadByte s) i c s =
          Inr (i + m, blit (i + index) (take m (ahead_bits s w)) c, s2)"
        using readBits_inner_takes [of s m n i index c] t(1) k Suc.prems(4,5)
        by (simp add: m_def s2_def)
      then show thesis
        using that [of m s2] t(2) k False True Suc.prems(2) by (simp add: m_def s2_def)
    qed
    let ?c = "blit (i + index) (take m (ahead_bits s w)) c"
    have a: "ahead_bits s2 w = drop m (ahead_bits s w)" using m(3) by (simp add: reads_def)
    have lt: "length (take m (ahead_bits s w)) = m" using m(2) Suc.prems(3) by simp
    have lc: "length ?c = length c" using lt m(2) Suc.prems(4,5) by (simp add: length_blit)
    have pre: "bit_reader s2 w" "0 < bitsReadReadByte s2" "n - (i + m) \<le> length (ahead_bits s2 w)"
        "i + m \<le> n" "n + index \<le> length ?c" "n - (i + m) \<le> f"
      using m a lc Suc.prems(3-6) True by (auto simp: reads_def)
    obtain s' where ih: "readBits_loop P (Suc d) index n f (i + m) ?c s2 w =
          Inr (blit (i + m + index) (take (n - (i + m)) (ahead_bits s2 w)) ?c, s', w)"
        "reads s2 (n - (i + m)) s' w" "0 < bitsReadReadByte s'"
      using Suc.IH [OF pre] by blast
    have "blit (i + m + index) (take (n - (i + m)) (ahead_bits s2 w)) ?c =
        blit (i + index) (take (n - i) (ahead_bits s w)) c"
      using blit_blit_append [of "i + index" "take m (ahead_bits s w)" c
          "take (n - (i + m)) (ahead_bits s2 w)"] lt m(2) Suc.prems(4,5)
        take_add [of m "n - (i + m)" "ahead_bits s w"]
      by (simp add: a add.commute add.left_commute)
    moreover have "m + (n - (i + m)) = n - i" using m(2) by simp
    then have "reads s (n - i) s' w" using reads_trans [OF m(3) ih(2)] by (simp only:)
    ultimately show ?thesis using r ih True by simp
  qed (use Suc.prems in \<open>simp add: reads_refl\<close>)
qed



section \<open>The round trip\<close>

lemma region_of_set_stream [simp]: "region_of s (set_stream a st w) = region_of s w"
  by (simp add: region_of_def set_stream_def split: option.splits)

lemma mem_ok_set_stream [simp]: "mem_ok s (set_stream a st w) = mem_ok s w"
  by (simp add: mem_ok_def)

text \<open>\<open>synchronize\<close> completes a pending byte with zero bits.\<close>

lemma synchronize_writes:
  assumes "bit_writer s w"
  shows "\<exists>s' w' z. synchronize P (Suc d) s w = Inr (s', w') \<and> mem_ok s' w' \<and>
    bits_of (take (nat (buffer_write_index s')) (region_of s' w')) = written_bits s w @ z \<and>
    buffer_pointer s' = buffer_pointer s \<and> buffer_size s' = buffer_size s"
proof (cases "bitsWrittenWriteByte s = 0")
  case True
  then show ?thesis using assms
    by (auto simp: synchronize_def bit_writer_def written_bits_def Let_def split: option.splits)
next
  case False
  define s1 where "s1 = s\<lparr>bitsWrittenWriteByte := 8\<rparr>"
  define s2 where "s2 = s1\<lparr>buffer_write_index := buffer_write_index s1 + 1, currentWriteByte := 0,
           bitsWrittenWriteByte := 0\<rparr>"
  define w2 where "w2 = mem_store s1 [currentWriteByte s] w"
  have f: "mem_ok s w" "bitStream s" "buffer_write_index s < buffer_size s" "bitsWrittenWriteByte s < 8"
    using assms False by (auto simp: bit_writer_def)
  have m1: "mem_ok s1 w" using f(1) by (rule mem_ok_cong) (simp_all add: s1_def)
  have "writeByte P (Suc d) (currentWriteByte s) s1 w = Inr (s2, w2)"
    using writeByte_aligned [OF m1, of P d "currentWriteByte s"] f by (simp add: s1_def s2_def w2_def)
  then have sync: "\<exists>w'. synchronize P (Suc d) s w = Inr (s2, w') \<and> mem_ok s2 w' = mem_ok s2 w2 \<and>
      region_of s2 w' = region_of s2 w2"
    using False f(4) by (auto simp: synchronize_def s1_def Let_def split: option.splits)
  have fl: "bit_writer s2 w2 \<and> written_bits s2 w2 =
      bits_of (take (nat (buffer_write_index s1)) (region_of s1 w)) @ byte_bits (currentWriteByte s)"
    using writer_flush [OF m1 _ _ s2_def w2_def] f by (simp add: s1_def)
  have "byte_bits (currentWriteByte s) = take (bitsWrittenWriteByte s) (byte_bits (currentWriteByte s)) @
      drop (bitsWrittenWriteByte s) (byte_bits (currentWriteByte s))" by simp
  then have "written_bits s2 w2 = written_bits s w @
      drop (bitsWrittenWriteByte s) (byte_bits (currentWriteByte s))"
    using fl by (simp add: written_bits_def s1_def region_of_def)
  moreover have "bitsWrittenWriteByte s2 = 0" by (simp add: s2_def)
  ultimately have "bits_of (take (nat (buffer_write_index s2)) (region_of s2 w2)) = written_bits s w @
      drop (bitsWrittenWriteByte s) (byte_bits (currentWriteByte s))"
    by (simp add: written_bits_def [of s2])
  with sync fl show ?thesis by (auto simp: bit_writer_def s2_def s1_def)
qed

text \<open>A sequence of single bits and whole bytes, written and read with the operations of the object.\<close>

datatype bit_item = Bit bool | Byte byte

fun item_bits :: "bit_item \<Rightarrow> bool list" where
  "item_bits (Bit x) = [x]"
| "item_bits (Byte b) = byte_bits b"

fun write_items ::
  "('b, 'p) platform \<Rightarrow> nat \<Rightarrow> bit_item list \<Rightarrow> serial \<Rightarrow> ('b, 'p) world \<Rightarrow>
   (serial \<times> ('b, 'p) world) cpp" where
  "write_items P d [] s w = Inr (s, w)"
| "write_items P d (Bit x # is) s w = bindE (writeBit P d x s w) (\<lambda>(s, w). write_items P d is s w)"
| "write_items P d (Byte b # is) s w = bindE (writeByte P d b s w) (\<lambda>(s, w). write_items P d is s w)"

text \<open>Reading takes the shape of the items from a template.\<close>

fun read_items ::
  "('b, 'p) platform \<Rightarrow> nat \<Rightarrow> bit_item list \<Rightarrow> serial \<Rightarrow> ('b, 'p) world \<Rightarrow>
   (bit_item list \<times> serial \<times> ('b, 'p) world) cpp" where
  "read_items P d [] s w = Inr ([], s, w)"
| "read_items P d (Bit x # is) s w = bindE (readBit P d s w) (\<lambda>(x, s, w).
     bindE (read_items P d is s w) (\<lambda>(xs, s, w). Inr (Bit x # xs, s, w)))"
| "read_items P d (Byte b # is) s w = bindE (readByte P d s w) (\<lambda>(b, s, w).
     bindE (read_items P d is s w) (\<lambda>(xs, s, w). Inr (Byte b # xs, s, w)))"

definition items_bits :: "bit_item list \<Rightarrow> bool list" where
  "items_bits is = concat (map item_bits is)"

lemma items_bits_simps [simp]:
  "items_bits [] = []"
  "items_bits (i # is) = item_bits i @ items_bits is"
  by (simp_all add: items_bits_def)

lemma write_items_writes:
  assumes "bit_writer s w" and "length (items_bits is) \<le> room_bits s"
  shows "\<exists>s' w'. write_items P (Suc (Suc d)) is s w = Inr (s', w') \<and> writes s w (items_bits is) s' w'"
  using assms
proof (induction "is" arbitrary: s w)
  case (Cons i js)
  obtain s1 w1 where w1: "write_items P (Suc (Suc d)) (i # js) s w =
        write_items P (Suc (Suc d)) js s1 w1" "writes s w (item_bits i) s1 w1"
  proof (cases i)
    case (Bit x)
    with Cons.prems(2) have "0 < room_bits s" by simp
    from writeBit_writes [OF Cons.prems(1) this, of P "Suc d" x] that Bit show thesis by auto
  next
    case (Byte b)
    with Cons.prems(2) have "8 \<le> room_bits s" by simp
    from writeByte_writes [OF Cons.prems(1) this, of P d b] that Byte show thesis by auto
  qed
  have "bit_writer s1 w1" "length (items_bits js) \<le> room_bits s1"
    using w1(2) Cons.prems(2) by (auto simp: writes_def)
  from Cons.IH [OF this] w1 show ?case using writes_trans [OF w1(2)] by auto
qed (simp add: writes_refl)

lemma read_items_reads:
  assumes "bit_reader s w" and "ahead_bits s w = items_bits is @ rest"
  shows "\<exists>s'. read_items P (Suc d) is s w = Inr (is, s', w) \<and> bit_reader s' w \<and>
    ahead_bits s' w = rest"
  using assms
proof (induction "is" arbitrary: s)
  case (Cons i js)
  show ?case
  proof (cases i)
    case (Bit x)
    obtain s1 where s1: "readBit P (Suc d) s w = Inr (x, s1, w)" "reads s 1 s1 w"
      using readBit_reads [OF Cons.prems(1), of P "Suc d"] Cons.prems(2) Bit by auto
    then have "bit_reader s1 w" "ahead_bits s1 w = items_bits js @ rest"
      using Cons.prems(2) Bit by (auto simp: reads_def)
    from Cons.IH [OF this] s1(1) Bit show ?thesis by auto
  next
    case (Byte b)
    obtain b' s1 where s1: "readByte P (Suc d) s w = Inr (b', s1, w)" "byte_bits b' = byte_bits b"
        "reads s 8 s1 w"
      using readByte_reads [OF Cons.prems(1), of P d] Cons.prems(2) Byte by auto
    then have "bit_reader s1 w" "ahead_bits s1 w = items_bits js @ rest"
      using Cons.prems(2) Byte by (auto simp: reads_def)
    from Cons.IH [OF this] s1(1) byte_of_bits_eq [OF s1(2)] Byte show ?thesis by auto
  qed
qed simp

text \<open>C3: bits and bytes written in any order to a bit stream over a memory region with room for them,
  followed by \<open>synchronize\<close>, are read back by a new object over the region exactly as written;
  bytes need not start at byte boundaries.\<close>

theorem serial_bit_roundtrip:
  assumes "length m < 2 ^ 60" and "length (items_bits is) \<le> 8 * length m"
    and "regions w a = m" and "s = serial_buffer (int (length m)) (Some a) True"
  shows "\<exists>s1 w1 s2 w2 s3. write_items P (Suc (Suc d)) is s w = Inr (s1, w1) \<and>
    synchronize P (Suc (Suc d)) s1 w1 = Inr (s2, w2) \<and>
    read_items P (Suc (Suc d)) is s w2 = Inr (is, s3, w2)"
proof -
  have wr: "bit_writer s w" "written_bits s w = []" "length (items_bits is) \<le> room_bits s"
    using assms
    by (simp_all add: bit_writer_def written_bits_def room_bits_def mem_ok_def region_of_def
        serial_buffer_def serial_default_def)
  obtain s1 w1 where w1: "write_items P (Suc (Suc d)) is s w = Inr (s1, w1)"
      "writes s w (items_bits is) s1 w1"
    using write_items_writes [OF wr(1,3)] by blast
  have b1: "bit_writer s1 w1" "written_bits s1 w1 = items_bits is" "buffer_pointer s1 = Some a"
      "buffer_size s1 = int (length m)"
    using w1(2) wr(2) assms(4) by (auto simp: writes_def serial_buffer_def serial_default_def)
  obtain s2 w2 z where w2: "synchronize P (Suc (Suc d)) s1 w1 = Inr (s2, w2)" "mem_ok s2 w2"
      "bits_of (take (nat (buffer_write_index s2)) (region_of s2 w2)) = items_bits is @ z"
      "buffer_pointer s2 = Some a" "buffer_size s2 = buffer_size s1"
    using synchronize_writes [OF b1(1), of P "Suc d"] b1(2,3) by auto
  have reg: "region_of s w2 = region_of s2 w2"
    using w2(4) assms(4) by (simp add: region_of_def serial_buffer_def serial_default_def)
  have "mem_ok s w2"
    using w2(2,5) b1(4) assms(4) unfolding mem_ok_def reg
    by (simp add: serial_buffer_def serial_default_def)
  then have rd: "bit_reader s w2"
    using assms(4) by (simp add: bit_reader_def serial_buffer_def serial_default_def)
  have "region_of s2 w2 = take (nat (buffer_write_index s2)) (region_of s2 w2) @
      drop (nat (buffer_write_index s2)) (region_of s2 w2)" by simp
  then have "bits_of (region_of s2 w2) = items_bits is @ z @
      bits_of (drop (nat (buffer_write_index s2)) (region_of s2 w2))"
    using w2(3) by (metis append.assoc bits_of_append)
  then have "ahead_bits s w2 = items_bits is @ z @
      bits_of (drop (nat (buffer_write_index s2)) (region_of s2 w2))"
    unfolding ahead_bits_def reg using assms(4) by (simp add: serial_buffer_def serial_default_def)
  from read_items_reads [OF rd this, of P "Suc d"] w1(1) w2(1) show ?thesis by auto
qed

theorem serial_bit_roundtrip_witness:
  "\<exists>s1 w1 s2 w2 s3.
     write_items demo_platform 2 [Bit True, Byte 165, Bit False, Byte 7] (serial_buffer 4 (Some 0) True)
       demo_world = Inr (s1, w1) \<and>
     synchronize demo_platform 2 s1 w1 = Inr (s2, w2) \<and>
     read_items demo_platform 2 [Bit True, Byte 165, Bit False, Byte 7] (serial_buffer 4 (Some 0) True)
       w2 = Inr ([Bit True, Byte 165, Bit False, Byte 7], s3, w2)"
  unfolding numeral_2_eq_2
  by (rule serial_bit_roundtrip [of "[0, 0, 0, 0]" _ _ 0]) (simp_all add: demo_world_def)

end
