(* ===== verification/Serial_Codec.thy ===== *)
theory Serial_Codec
  imports Serial Membuf
begin

text \<open>
  Values on a \<open>Serial\<close>: strings, paths, vectors, maps and sets, with the \<open>serialize\<close> and
  \<open>deserialize\<close> functions of Serial.hpp and Serial.cpp.  What a \<open>Serial\<close> promises to them is stated
  as two interfaces, one for writing and one for reading, which its counting, memory and stream
  modes provide.
\<close>

section \<open>Strings and paths\<close>

text \<open>A \<open>std::string\<close> is its bytes.  \<open>max_size\<close> of strings is \<open>2 ^ 63 - 1\<close>; a resize beyond it throws.\<close>

definition put_size ::
  "('b, 'p) platform \<Rightarrow> nat \<Rightarrow> nat \<Rightarrow> serial \<Rightarrow> ('b, 'p) world \<Rightarrow> (serial \<times> ('b, 'p) world) cpp" where
  "put_size P d n = put_value P d (le_bytes 8 n)"

definition get_size ::
  "('b, 'p) platform \<Rightarrow> nat \<Rightarrow> nat \<Rightarrow> serial \<Rightarrow> ('b, 'p) world \<Rightarrow>
   (nat \<times> serial \<times> ('b, 'p) world) cpp" where
  "get_size P d n s w =
     bindE (get_value P d (le_bytes 8 n) s w) (\<lambda>(bs, s, w). Inr (le_val bs, s, w))"

definition serialize_string ::
  "('b, 'p) platform \<Rightarrow> nat \<Rightarrow> byte list \<Rightarrow> serial \<Rightarrow> ('b, 'p) world \<Rightarrow>
   (serial \<times> ('b, 'p) world) cpp" where
  "serialize_string P d cs s w =
     bindE (put_size P d (length cs) s w) (\<lambda>(s, w).
     bindE (writeBytes P d cs s w) (\<lambda>(r, s, w). Inr (s, w)))"

definition resize :: "byte list \<Rightarrow> nat \<Rightarrow> byte list cpp" where
  "resize cs n = (if 2 ^ 63 - 1 < n then Inl Bad_alloc
     else Inr (take n cs @ replicate (n - length cs) 0))"

definition deserialize_string ::
  "('b, 'p) platform \<Rightarrow> nat \<Rightarrow> byte list \<Rightarrow> serial \<Rightarrow> ('b, 'p) world \<Rightarrow>
   (byte list \<times> serial \<times> ('b, 'p) world) cpp" where
  "deserialize_string P d cs s w =
     bindE (get_size P d (length cs) s w) (\<lambda>(n, s, w).
       if last_did_not_read_whole_size s then Inr (cs, s, w)
       else bindE (resize cs n) (\<lambda>cs.
         bindE (if read_buffer s then readBytesWithBuffer P d cs s w else readBytes P d cs s w)
           (\<lambda>(r, cs, s, w). Inr (cs, s, w))))"

definition serialize_path ::
  "('b, 'p) platform \<Rightarrow> nat \<Rightarrow> byte list \<Rightarrow> serial \<Rightarrow> ('b, 'p) world \<Rightarrow>
   (serial \<times> ('b, 'p) world) cpp" where
  "serialize_path P d path = serialize_string P d path"

definition deserialize_path ::
  "('b, 'p) platform \<Rightarrow> nat \<Rightarrow> byte list \<Rightarrow> serial \<Rightarrow> ('b, 'p) world \<Rightarrow>
   (byte list \<times> serial \<times> ('b, 'p) world) cpp" where
  "deserialize_path P d path s w =
     bindE (deserialize_string P d path s w) (\<lambda>(cs, s, w).
       if last_did_not_read_whole_size s then Inr (path, s, w) else Inr (cs, s, w))"

section \<open>Containers\<close>

text \<open>
  The element's \<open>operator<<\<close> and \<open>operator>>\<close> are arguments.  A vector is a list; a \<open>std::map\<close> or
  \<open>std::set\<close> is its contents in the order of its keys; of an unordered container the order of
  iteration is some list of its contents, and what is read is kept as a map or a set.
\<close>

fun put_all ::
  "('v \<Rightarrow> serial \<Rightarrow> ('b, 'p) world \<Rightarrow> (serial \<times> ('b, 'p) world) cpp) \<Rightarrow> 'v list \<Rightarrow> serial \<Rightarrow>
   ('b, 'p) world \<Rightarrow> (serial \<times> ('b, 'p) world) cpp" where
  "put_all put [] s w = Inr (s, w)"
| "put_all put (x # xs) s w = bindE (put x s w) (\<lambda>(s, w). put_all put xs s w)"

definition serialize_vector ::
  "('b, 'p) platform \<Rightarrow> nat \<Rightarrow> ('v \<Rightarrow> serial \<Rightarrow> ('b, 'p) world \<Rightarrow> (serial \<times> ('b, 'p) world) cpp) \<Rightarrow>
   'v list \<Rightarrow> serial \<Rightarrow> ('b, 'p) world \<Rightarrow> (serial \<times> ('b, 'p) world) cpp" where
  "serialize_vector P d put xs s w =
     bindE (put_size P d (length xs) s w) (\<lambda>(s, w). put_all put xs s w)"

text \<open>The loop of the \<open>deserialize\<close> functions: \<open>n\<close> elements are read and added to a container.\<close>

primrec get_all ::
  "(serial \<Rightarrow> ('b, 'p) world \<Rightarrow> ('v \<times> serial \<times> ('b, 'p) world) cpp) \<Rightarrow> ('v \<Rightarrow> 'c \<Rightarrow> 'c) \<Rightarrow> nat \<Rightarrow>
   'c \<Rightarrow> serial \<Rightarrow> ('b, 'p) world \<Rightarrow> ('c \<times> serial \<times> ('b, 'p) world) cpp" where
  "get_all get add 0 st s w = Inr (st, s, w)"
| "get_all get add (Suc n) st s w =
     bindE (get s w) (\<lambda>(v, s, w). get_all get add n (add v st) s w)"

text \<open>\<open>reserve\<close> throws when the count exceeds the vector's \<open>max_size\<close>.\<close>

definition deserialize_vector ::
  "('b, 'p) platform \<Rightarrow> nat \<Rightarrow> nat \<Rightarrow>
   (serial \<Rightarrow> ('b, 'p) world \<Rightarrow> ('v \<times> serial \<times> ('b, 'p) world) cpp) \<Rightarrow> 'v list \<Rightarrow> serial \<Rightarrow>
   ('b, 'p) world \<Rightarrow> ('v list \<times> serial \<times> ('b, 'p) world) cpp" where
  "deserialize_vector P d max_size get st s w =
     bindE (get_size P d 0 s w) (\<lambda>(n, s, w).
       if max_size < n then Inl Bad_alloc
       else get_all get (\<lambda>v st. st @ [v]) n st s w)"

definition put_pair ::
  "('k \<Rightarrow> serial \<Rightarrow> ('b, 'p) world \<Rightarrow> (serial \<times> ('b, 'p) world) cpp) \<Rightarrow>
   ('v \<Rightarrow> serial \<Rightarrow> ('b, 'p) world \<Rightarrow> (serial \<times> ('b, 'p) world) cpp) \<Rightarrow> 'k \<times> 'v \<Rightarrow> serial \<Rightarrow>
   ('b, 'p) world \<Rightarrow> (serial \<times> ('b, 'p) world) cpp" where
  "put_pair pk pv kv s w = bindE (pk (fst kv) s w) (\<lambda>(s, w). pv (snd kv) s w)"

definition get_pair ::
  "(serial \<Rightarrow> ('b, 'p) world \<Rightarrow> ('k \<times> serial \<times> ('b, 'p) world) cpp) \<Rightarrow>
   (serial \<Rightarrow> ('b, 'p) world \<Rightarrow> ('v \<times> serial \<times> ('b, 'p) world) cpp) \<Rightarrow> serial \<Rightarrow>
   ('b, 'p) world \<Rightarrow> (('k \<times> 'v) \<times> serial \<times> ('b, 'p) world) cpp" where
  "get_pair gk gv s w = bindE (gk s w) (\<lambda>(k, s, w). bindE (gv s w) (\<lambda>(v, s, w). Inr ((k, v), s, w)))"

text \<open>\<open>kv[k] = v\<close> of a \<open>std::map\<close> and \<open>insert\<close> of a \<open>std::set\<close>.\<close>

fun map_set :: "'k::linorder \<times> 'v \<Rightarrow> ('k \<times> 'v) list \<Rightarrow> ('k \<times> 'v) list" where
  "map_set (k, v) [] = [(k, v)]"
| "map_set (k, v) ((k', v') # kv) =
     (if k < k' then (k, v) # (k', v') # kv else if k = k' then (k, v) # kv
      else (k', v') # map_set (k, v) kv)"

fun set_insert :: "'v::linorder \<Rightarrow> 'v list \<Rightarrow> 'v list" where
  "set_insert v [] = [v]"
| "set_insert v (x # xs) =
     (if v < x then v # x # xs else if v = x then x # xs else x # set_insert v xs)"

definition serialize_map ::
  "('b, 'p) platform \<Rightarrow> nat \<Rightarrow> ('k \<Rightarrow> serial \<Rightarrow> ('b, 'p) world \<Rightarrow> (serial \<times> ('b, 'p) world) cpp) \<Rightarrow>
   ('v \<Rightarrow> serial \<Rightarrow> ('b, 'p) world \<Rightarrow> (serial \<times> ('b, 'p) world) cpp) \<Rightarrow> ('k \<times> 'v) list \<Rightarrow>
   serial \<Rightarrow> ('b, 'p) world \<Rightarrow> (serial \<times> ('b, 'p) world) cpp" where
  "serialize_map P d pk pv kv s w =
     bindE (put_size P d (length kv) s w) (\<lambda>(s, w). put_all (put_pair pk pv) kv s w)"

definition deserialize_map ::
  "('b, 'p) platform \<Rightarrow> nat \<Rightarrow> (serial \<Rightarrow> ('b, 'p) world \<Rightarrow> ('k \<times> serial \<times> ('b, 'p) world) cpp) \<Rightarrow>
   (serial \<Rightarrow> ('b, 'p) world \<Rightarrow> ('v \<times> serial \<times> ('b, 'p) world) cpp) \<Rightarrow> ('k::linorder \<times> 'v) list \<Rightarrow>
   serial \<Rightarrow> ('b, 'p) world \<Rightarrow> (('k \<times> 'v) list \<times> serial \<times> ('b, 'p) world) cpp" where
  "deserialize_map P d gk gv kv s w =
     bindE (get_size P d 0 s w) (\<lambda>(n, s, w). get_all (get_pair gk gv) map_set n kv s w)"

definition serialize_unordered_map ::
  "('b, 'p) platform \<Rightarrow> nat \<Rightarrow> ('k \<Rightarrow> serial \<Rightarrow> ('b, 'p) world \<Rightarrow> (serial \<times> ('b, 'p) world) cpp) \<Rightarrow>
   ('v \<Rightarrow> serial \<Rightarrow> ('b, 'p) world \<Rightarrow> (serial \<times> ('b, 'p) world) cpp) \<Rightarrow> ('k \<times> 'v) list \<Rightarrow>
   serial \<Rightarrow> ('b, 'p) world \<Rightarrow> (serial \<times> ('b, 'p) world) cpp" where
  "serialize_unordered_map P d pk pv kv s w =
     bindE (put_size P d (length kv) s w) (\<lambda>(s, w). put_all (put_pair pk pv) kv s w)"

definition deserialize_unordered_map ::
  "('b, 'p) platform \<Rightarrow> nat \<Rightarrow> (serial \<Rightarrow> ('b, 'p) world \<Rightarrow> ('k \<times> serial \<times> ('b, 'p) world) cpp) \<Rightarrow>
   (serial \<Rightarrow> ('b, 'p) world \<Rightarrow> ('v \<times> serial \<times> ('b, 'p) world) cpp) \<Rightarrow> ('k \<Rightarrow> 'v option) \<Rightarrow>
   serial \<Rightarrow> ('b, 'p) world \<Rightarrow> (('k \<Rightarrow> 'v option) \<times> serial \<times> ('b, 'p) world) cpp" where
  "deserialize_unordered_map P d gk gv kv s w =
     bindE (get_size P d 0 s w) (\<lambda>(n, s, w).
       get_all (get_pair gk gv) (\<lambda>(k, v) kv. kv(k \<mapsto> v)) n kv s w)"

definition serialize_set ::
  "('b, 'p) platform \<Rightarrow> nat \<Rightarrow> ('v \<Rightarrow> serial \<Rightarrow> ('b, 'p) world \<Rightarrow> (serial \<times> ('b, 'p) world) cpp) \<Rightarrow>
   'v list \<Rightarrow> serial \<Rightarrow> ('b, 'p) world \<Rightarrow> (serial \<times> ('b, 'p) world) cpp" where
  "serialize_set P d put st s w =
     bindE (put_size P d (length st) s w) (\<lambda>(s, w). put_all put st s w)"

definition deserialize_set ::
  "('b, 'p) platform \<Rightarrow> nat \<Rightarrow> (serial \<Rightarrow> ('b, 'p) world \<Rightarrow> ('v \<times> serial \<times> ('b, 'p) world) cpp) \<Rightarrow>
   'v::linorder list \<Rightarrow> serial \<Rightarrow> ('b, 'p) world \<Rightarrow> ('v list \<times> serial \<times> ('b, 'p) world) cpp" where
  "deserialize_set P d get st s w =
     bindE (get_size P d 0 s w) (\<lambda>(n, s, w). get_all get set_insert n st s w)"

definition serialize_unordered_set ::
  "('b, 'p) platform \<Rightarrow> nat \<Rightarrow> ('v \<Rightarrow> serial \<Rightarrow> ('b, 'p) world \<Rightarrow> (serial \<times> ('b, 'p) world) cpp) \<Rightarrow>
   'v list \<Rightarrow> serial \<Rightarrow> ('b, 'p) world \<Rightarrow> (serial \<times> ('b, 'p) world) cpp" where
  "serialize_unordered_set P d put st s w =
     bindE (put_size P d (length st) s w) (\<lambda>(s, w). put_all put st s w)"

definition deserialize_unordered_set ::
  "('b, 'p) platform \<Rightarrow> nat \<Rightarrow> (serial \<Rightarrow> ('b, 'p) world \<Rightarrow> ('v \<times> serial \<times> ('b, 'p) world) cpp) \<Rightarrow>
   'v set \<Rightarrow> serial \<Rightarrow> ('b, 'p) world \<Rightarrow> ('v set \<times> serial \<times> ('b, 'p) world) cpp" where
  "deserialize_unordered_set P d get st s w =
     bindE (get_size P d 0 s w) (\<lambda>(n, s, w). get_all get insert n st s w)"

section \<open>The encodings\<close>

text \<open>What a string and a sequence of elements look like on a \<open>Serial\<close>: the size in eight bytes first.\<close>

definition enc_string :: "byte list \<Rightarrow> byte list" where
  "enc_string cs = le_bytes 8 (length cs) @ cs"

definition enc_vector :: "('v \<Rightarrow> byte list) \<Rightarrow> 'v list \<Rightarrow> byte list" where
  "enc_vector enc xs = le_bytes 8 (length xs) @ concat (map enc xs)"

definition enc_pair :: "('k \<Rightarrow> byte list) \<Rightarrow> ('v \<Rightarrow> byte list) \<Rightarrow> 'k \<times> 'v \<Rightarrow> byte list" where
  "enc_pair ek ev kv = ek (fst kv) @ ev (snd kv)"

lemma enc_vector_member: "x \<in> set xs \<Longrightarrow> length (enc x) \<le> length (enc_vector enc xs)"
  unfolding enc_vector_def by (induction xs) auto

section \<open>The interface for writing\<close>

text \<open>
  An action \<open>delivers\<close> bytes when, wherever there is room for them, it adds exactly them to what is
  held.  What is held is the bytes themselves, or, when an object only counts, their number.
\<close>

definition delivers ::
  "(serial \<Rightarrow> 'w \<Rightarrow> bool) \<Rightarrow> (serial \<Rightarrow> 'w \<Rightarrow> 'h) \<Rightarrow> ('h \<Rightarrow> byte list \<Rightarrow> 'h) \<Rightarrow> (serial \<Rightarrow> 'w \<Rightarrow> nat) \<Rightarrow>
   (serial \<Rightarrow> 'w \<Rightarrow> (serial \<times> 'w) cpp) \<Rightarrow> byte list \<Rightarrow> bool" where
  "delivers ok held app room act bs \<longleftrightarrow> (\<forall>s w. ok s w \<longrightarrow> length bs \<le> room s w \<longrightarrow>
     (\<exists>s' w'. act s w = Inr (s', w') \<and> ok s' w' \<and> held s' w' = app (held s w) bs \<and>
        room s w \<le> room s' w' + length bs))"

locale serial_writer =
  fixes P :: "('b, 'p) platform" and d :: nat
    and ok :: "serial \<Rightarrow> ('b, 'p) world \<Rightarrow> bool"
    and held :: "serial \<Rightarrow> ('b, 'p) world \<Rightarrow> 'h"
    and app :: "'h \<Rightarrow> byte list \<Rightarrow> 'h"
    and room :: "serial \<Rightarrow> ('b, 'p) world \<Rightarrow> nat"
  assumes write_ok: "ok s w \<Longrightarrow> length bs \<le> room s w \<Longrightarrow>
      \<exists>r s' w'. writeBytes P d bs s w = Inr (r, s', w') \<and> ok s' w' \<and>
        held s' w' = app (held s w) bs \<and> room s w \<le> room s' w' + length bs"
    and byte_ok: "ok s w \<Longrightarrow> 1 \<le> room s w \<Longrightarrow> \<exists>s' w'. put_bool P d x s w = Inr (s', w') \<and> ok s' w' \<and>
        held s' w' = app (held s w) [of_bool x] \<and> room s w \<le> room s' w' + 1"
    and app_append: "app (app h a) b = app h (a @ b)"
    and app_Nil: "ok s w \<Longrightarrow> app (held s w) [] = held s w"
begin

lemma delivers_value: "delivers ok held app room (put_value P d bs) bs"
  unfolding delivers_def
proof (intro allI impI)
  fix s w assume "ok s w" "length bs \<le> room s w"
  from write_ok [OF this] obtain r s' w' where "writeBytes P d bs s w = Inr (r, s', w')" "ok s' w'"
      "held s' w' = app (held s w) bs" "room s w \<le> room s' w' + length bs" by blast
  then show "\<exists>s' w'. put_value P d bs s w = Inr (s', w') \<and> ok s' w' \<and>
      held s' w' = app (held s w) bs \<and> room s w \<le> room s' w' + length bs"
    by (simp add: put_value_def)
qed

lemma delivers_bool: "delivers ok held app room (put_bool P d x) [of_bool x]"
  using byte_ok [of _ _ x] by (simp add: delivers_def)

lemma delivers_Nil: "delivers ok held app room (\<lambda>s w. Inr (s, w)) []"
  using app_Nil by (simp add: delivers_def)

lemma delivers_append:
  assumes "delivers ok held app room f bs" and "delivers ok held app room g cs"
  shows "delivers ok held app room (\<lambda>s w. bindE (f s w) (\<lambda>(s, w). g s w)) (bs @ cs)"
  unfolding delivers_def
proof (intro allI impI)
  fix s w assume ok: "ok s w" and le: "length (bs @ cs) \<le> room s w"
  obtain s1 w1 where f: "f s w = Inr (s1, w1)" "ok s1 w1" "held s1 w1 = app (held s w) bs"
      "room s w \<le> room s1 w1 + length bs"
    using assms(1) ok le by (fastforce simp: delivers_def)
  obtain s2 w2 where g: "g s1 w1 = Inr (s2, w2)" "ok s2 w2" "held s2 w2 = app (held s1 w1) cs"
      "room s1 w1 \<le> room s2 w2 + length cs"
    using assms(2) f(2,4) le by (fastforce simp: delivers_def)
  show "\<exists>s' w'. bindE (f s w) (\<lambda>(s, w). g s w) = Inr (s', w') \<and> ok s' w' \<and>
      held s' w' = app (held s w) (bs @ cs) \<and> room s w \<le> room s' w' + length (bs @ cs)"
    using f g by (auto simp: app_append)
qed

lemma delivers_size: "delivers ok held app room (put_size P d n) (le_bytes 8 n)"
  unfolding put_size_def by (rule delivers_value)

lemma delivers_string:
  "delivers ok held app room (serialize_string P d cs) (enc_string cs)"
  using delivers_append [OF delivers_size delivers_value, of "length cs" cs]
  by (simp add: serialize_string_def [abs_def] put_value_def [abs_def] enc_string_def)

lemma delivers_all:
  assumes "\<And>x. x \<in> set xs \<Longrightarrow> delivers ok held app room (put x) (enc x)"
  shows "delivers ok held app room (put_all put xs) (concat (map enc xs))"
  using assms
proof (induction xs)
  case Nil
  show ?case using delivers_Nil by (simp add: delivers_def)
next
  case (Cons x xs)
  then have "delivers ok held app room (\<lambda>s w. bindE (put x s w) (\<lambda>(s, w). put_all put xs s w))
      (enc x @ concat (map enc xs))"
    by (intro delivers_append) auto
  then show ?case by (simp add: delivers_def)
qed

lemma delivers_counted:
  assumes "\<And>x. x \<in> set xs \<Longrightarrow> delivers ok held app room (put x) (enc x)"
  shows "delivers ok held app room
    (\<lambda>s w. bindE (put_size P d (length xs) s w) (\<lambda>(s, w). put_all put xs s w))
    (enc_vector enc xs)"
  unfolding enc_vector_def by (rule delivers_append [OF delivers_size delivers_all [OF assms]])

lemma delivers_vector:
  assumes "\<And>x. x \<in> set xs \<Longrightarrow> delivers ok held app room (put x) (enc x)"
  shows "delivers ok held app room (serialize_vector P d put xs) (enc_vector enc xs)"
  using delivers_counted [OF assms] by (simp add: serialize_vector_def [abs_def])

lemma delivers_set:
  assumes "\<And>x. x \<in> set xs \<Longrightarrow> delivers ok held app room (put x) (enc x)"
  shows "delivers ok held app room (serialize_set P d put xs) (enc_vector enc xs)"
  using delivers_counted [OF assms] by (simp add: serialize_set_def [abs_def])

lemma delivers_pair:
  assumes "delivers ok held app room (pk (fst kv)) (ek (fst kv))"
    and "delivers ok held app room (pv (snd kv)) (ev (snd kv))"
  shows "delivers ok held app room (put_pair pk pv kv) (enc_pair ek ev kv)"
  using delivers_append [OF assms] by (simp add: put_pair_def [abs_def] enc_pair_def)

lemma delivers_map:
  assumes "\<And>k v. (k, v) \<in> set kv \<Longrightarrow>
    delivers ok held app room (pk k) (ek k) \<and> delivers ok held app room (pv v) (ev v)"
  shows "delivers ok held app room (serialize_map P d pk pv kv) (enc_vector (enc_pair ek ev) kv)"
  unfolding serialize_map_def [abs_def]
  by (intro delivers_counted delivers_pair) (use assms in auto)

lemma delivers_unordered_map:
  assumes "\<And>k v. (k, v) \<in> set kv \<Longrightarrow>
    delivers ok held app room (pk k) (ek k) \<and> delivers ok held app room (pv v) (ev v)"
  shows "delivers ok held app room (serialize_unordered_map P d pk pv kv) (enc_vector (enc_pair ek ev) kv)"
  unfolding serialize_unordered_map_def [abs_def]
  by (intro delivers_counted delivers_pair) (use assms in auto)

end

section \<open>The interface for reading\<close>

text \<open>
  An action \<open>consumes\<close> bytes to a value when, wherever they are the next ones, it yields the value
  and moves past exactly them.
\<close>

definition consumes ::
  "(serial \<Rightarrow> 'w \<Rightarrow> bool) \<Rightarrow> (serial \<Rightarrow> 'w \<Rightarrow> byte list) \<Rightarrow>
   (serial \<Rightarrow> 'w \<Rightarrow> ('v \<times> serial \<times> 'w) cpp) \<Rightarrow> byte list \<Rightarrow> 'v \<Rightarrow> bool" where
  "consumes ok ahead act bs v \<longleftrightarrow> (\<forall>s w rest. ok s w \<longrightarrow> ahead s w = bs @ rest \<longrightarrow>
     (\<exists>s' w'. act s w = Inr (v, s', w') \<and> ok s' w' \<and> ahead s' w' = rest))"

locale serial_reader =
  fixes P :: "('b, 'p) platform" and d :: nat
    and ok :: "serial \<Rightarrow> ('b, 'p) world \<Rightarrow> bool"
    and ahead :: "serial \<Rightarrow> ('b, 'p) world \<Rightarrow> byte list"
  assumes read_ok: "ok s w \<Longrightarrow> length dest \<le> length (ahead s w) \<Longrightarrow>
      \<exists>r s' w'. readBytes P d dest s w = Inr (r, take (length dest) (ahead s w), s', w') \<and>
        ok s' w' \<and> ahead s' w' = drop (length dest) (ahead s w)"
    and bool_ok: "ok s w \<Longrightarrow> ahead s w = b # rest \<Longrightarrow>
      \<exists>s' w'. get_bool P d s w = Inr (b \<noteq> 0, s', w') \<and> ok s' w' \<and> ahead s' w' = rest"
    and whole: "ok s w \<Longrightarrow> \<not> last_size_mismatch s"
    and unbuffered: "ok s w \<Longrightarrow> \<not> read_buffer s"
begin

lemma consumes_value:
  assumes "length dest = length bs"
  shows "consumes ok ahead (get_value P d dest) bs bs"
  unfolding consumes_def
proof (intro allI impI)
  fix s w rest assume a: "ok s w" "ahead s w = bs @ rest"
  then have "length dest \<le> length (ahead s w)" using assms by simp
  from read_ok [OF a(1) this] unbuffered [OF a(1)] a(2) assms
  show "\<exists>s' w'. get_value P d dest s w = Inr (bs, s', w') \<and> ok s' w' \<and> ahead s' w' = rest"
    by (auto simp: get_value_def)
qed

lemma consumes_bool: "consumes ok ahead (get_bool P d) [of_bool x] x"
  unfolding consumes_def
proof (intro allI impI)
  fix s w rest assume "ok s w" "ahead s w = [of_bool x] @ rest"
  then show "\<exists>s' w'. get_bool P d s w = Inr (x, s', w') \<and> ok s' w' \<and> ahead s' w' = rest"
    using bool_ok [of s w "of_bool x" rest] by (cases x) simp_all
qed

lemma consumes_return: "consumes ok ahead (\<lambda>s w. Inr (v, s, w)) [] v"
  by (simp add: consumes_def)

lemma consumes_bind:
  assumes "consumes ok ahead f bs v" and "consumes ok ahead (g v) cs u"
  shows "consumes ok ahead (\<lambda>s w. bindE (f s w) (\<lambda>(v, s, w). g v s w)) (bs @ cs) u"
  unfolding consumes_def
proof (intro allI impI)
  fix s w rest assume a: "ok s w" "ahead s w = (bs @ cs) @ rest"
  then obtain s1 w1 where f: "f s w = Inr (v, s1, w1)" "ok s1 w1" "ahead s1 w1 = cs @ rest"
    using assms(1) [unfolded consumes_def, rule_format, of s w "cs @ rest"] by auto
  with assms(2) show "\<exists>s' w'. bindE (f s w) (\<lambda>(v, s, w). g v s w) = Inr (u, s', w') \<and>
      ok s' w' \<and> ahead s' w' = rest"
    by (auto simp: consumes_def)
qed

text \<open>The check for a short read after a value passes.\<close>

lemma consumes_checked:
  assumes "consumes ok ahead g bs v"
  shows "consumes ok ahead
    (\<lambda>s w. if last_did_not_read_whole_size s then h s w else g s w) bs v"
  using assms whole by (simp add: consumes_def last_did_not_read_whole_size_def)

lemma consumes_size:
  assumes "n < 2 ^ 64"
  shows "consumes ok ahead (get_size P d m) (le_bytes 8 n) n"
proof -
  have "le_val (le_bytes 8 n) = n" using assms by (intro le_val_le_bytes) simp
  moreover have "consumes ok ahead (\<lambda>s w. bindE (get_value P d (le_bytes 8 m) s w)
      (\<lambda>(bs, s, w). Inr (le_val bs, s, w))) (le_bytes 8 n @ []) (le_val (le_bytes 8 n))"
    by (rule consumes_bind [OF consumes_value consumes_return]) simp
  ultimately show ?thesis by (simp add: get_size_def [abs_def])
qed

lemma consumes_string:
  assumes "length cs < 2 ^ 63"
  shows "consumes ok ahead (deserialize_string P d init) (enc_string cs) cs"
  unfolding deserialize_string_def [abs_def] enc_string_def
proof (rule consumes_bind [OF consumes_size consumes_checked])
  show "length cs < 2 ^ 64" using assms by simp
  obtain dest where dest: "resize init (length cs) = Inr dest" "length dest = length cs"
    using assms by (auto simp: resize_def)
  show "consumes ok ahead (\<lambda>s w. bindE (resize init (length cs)) (\<lambda>cs.
         bindE (if read_buffer s then readBytesWithBuffer P d cs s w else readBytes P d cs s w)
           (\<lambda>(r, cs, s, w). Inr (cs, s, w)))) cs cs"
    using consumes_value [OF dest(2)] by (simp add: dest(1) get_value_def [abs_def])
qed

lemma consumes_path:
  assumes "length cs < 2 ^ 63"
  shows "consumes ok ahead (deserialize_path P d path) (enc_string cs) cs"
proof -
  have "consumes ok ahead (\<lambda>s w. bindE (deserialize_string P d path s w) (\<lambda>(cs, s, w).
      if last_did_not_read_whole_size s then Inr (path, s, w) else Inr (cs, s, w)))
      (enc_string cs @ []) cs"
    by (rule consumes_bind [OF consumes_string [OF assms], where g = "\<lambda>cs s w.
          if last_did_not_read_whole_size s then Inr (path, s, w) else Inr (cs, s, w)"])
      (rule consumes_checked [OF consumes_return])
  then show ?thesis by (simp add: deserialize_path_def [abs_def])
qed

lemma consumes_pair:
  assumes "consumes ok ahead gk bs k" and "consumes ok ahead gv cs v"
  shows "consumes ok ahead (get_pair gk gv) (bs @ cs) (k, v)"
proof -
  have v: "consumes ok ahead (\<lambda>s w. bindE (gv s w) (\<lambda>(v, s, w). Inr ((k, v), s, w))) (cs @ []) (k, v)"
    by (rule consumes_bind [OF assms(2) consumes_return])
  have "consumes ok ahead (\<lambda>s w. bindE (gk s w) (\<lambda>(k, s, w).
      bindE (gv s w) (\<lambda>(v, s, w). Inr ((k, v), s, w)))) (bs @ (cs @ [])) (k, v)"
    by (rule consumes_bind [OF assms(1),
          where g = "\<lambda>k s w. bindE (gv s w) (\<lambda>(v, s, w). Inr ((k, v), s, w))"]) (rule v)
  then show ?thesis by (simp add: get_pair_def [abs_def])
qed

lemma consumes_all:
  assumes "\<And>x. x \<in> set xs \<Longrightarrow> consumes ok ahead get (enc x) x"
  shows "consumes ok ahead (get_all get add (length xs) st) (concat (map enc xs)) (fold add xs st)"
  using assms
proof (induction xs arbitrary: st)
  case Nil
  show ?case by (simp add: consumes_def)
next
  case (Cons x xs)
  have "consumes ok ahead (\<lambda>s w. bindE (get s w)
      (\<lambda>(v, s, w). get_all get add (length xs) (add v st) s w))
      (enc x @ concat (map enc xs)) (fold add xs (add x st))"
    by (rule consumes_bind) (use Cons in auto)
  then show ?case by (simp add: consumes_def)
qed

lemma consumes_counted:
  assumes "length xs < 2 ^ 64" and "\<And>x. x \<in> set xs \<Longrightarrow> consumes ok ahead get (enc x) x"
  shows "consumes ok ahead
    (\<lambda>s w. bindE (get_size P d 0 s w) (\<lambda>(n, s, w). get_all get add n st s w))
    (enc_vector enc xs) (fold add xs st)"
  unfolding enc_vector_def
  by (rule consumes_bind [OF consumes_size [OF assms(1)], where g = "\<lambda>n. get_all get add n st"])
    (rule consumes_all [OF assms(2)])

lemma fold_snoc: "fold (\<lambda>v st. st @ [v]) xs st = st @ xs"
  by (induction xs arbitrary: st) auto

lemma consumes_vector:
  assumes "length xs < 2 ^ 64" and "length xs \<le> max_size"
    and "\<And>x. x \<in> set xs \<Longrightarrow> consumes ok ahead get (enc x) x"
  shows "consumes ok ahead (deserialize_vector P d max_size get st)
    (enc_vector enc xs) (st @ xs)"
  unfolding deserialize_vector_def [abs_def] enc_vector_def
  by (rule consumes_bind [OF consumes_size [OF assms(1)], where g = "\<lambda>n s w.
        if max_size < n then Inl Bad_alloc else get_all get (\<lambda>v st. st @ [v]) n st s w"])
    (use consumes_all [OF assms(3), where add = "\<lambda>v st. st @ [v]" and st = st] assms(2)
      in \<open>simp add: fold_snoc\<close>)

end

section \<open>Objects over memory\<close>

lemma put_bool_plain:
  "\<not> bitStream s \<Longrightarrow> put_bool P (Suc d) x s w =
   bindE (writeBytes P d [of_bool x] s w)
     (\<lambda>(r, s, w). Inr (s\<lparr>currentWriteByte := 0, bitsWrittenWriteByte := 0\<rparr>, w))"
  by (simp add: put_bool_def writeByte.simps(2) writeByte_body_def writeBytes_def)

lemma get_bool_plain:
  "\<not> bitStream s \<Longrightarrow> get_bool P (Suc d) s w =
   bindE (readBytes P d [currentReadByte s] s w)
     (\<lambda>(r, dest, s, w). Inr (hd dest \<noteq> 0, s\<lparr>currentReadByte := hd dest, bitsReadReadByte := 0\<rparr>, w))"
  by (cases "readBytes P d [currentReadByte s] s w")
    (auto simp: get_bool_def readByte.simps(2) readByte_body_def readBytes_def)

definition mem_plain :: "serial \<Rightarrow> ('b, 'p) world \<Rightarrow> bool" where
  "mem_plain s w \<longleftrightarrow> mem_ok s w \<and> \<not> bitStream s \<and> \<not> last_size_mismatch s \<and> \<not> read_buffer s"

text \<open>What a writer holds names its region and its size beside the bytes written.\<close>

definition mem_held :: "serial \<Rightarrow> ('b, 'p) world \<Rightarrow> nat option \<times> int \<times> byte list" where
  "mem_held s w =
     (buffer_pointer s, buffer_size s, take (nat (buffer_write_index s)) (region_of s w))"

definition add_held :: "nat option \<times> int \<times> byte list \<Rightarrow> byte list \<Rightarrow> nat option \<times> int \<times> byte list" where
  "add_held h bs = (fst h, fst (snd h), snd (snd h) @ bs)"

definition mem_ahead :: "serial \<Rightarrow> ('b, 'p) world \<Rightarrow> byte list" where
  "mem_ahead s w = drop (nat (buffer_read_index s)) (region_of s w)"

definition mem_room :: "serial \<Rightarrow> ('b, 'p) world \<Rightarrow> nat" where
  "mem_room s w = nat (buffer_size s - buffer_write_index s)"

lemma mem_plain_write:
  assumes "mem_plain s w" and "length bs \<le> mem_room s w"
  shows "\<exists>r s' w'. writeBytes P d bs s w = Inr (r, s', w') \<and> mem_plain s' w' \<and>
    mem_held s' w' = add_held (mem_held s w) bs \<and> mem_room s w \<le> mem_room s' w' + length bs"
proof -
  have m: "mem_ok s w" and le: "buffer_write_index s + int (length bs) \<le> buffer_size s"
    and lt: "length bs < 2 ^ 63"
    using assms by (auto simp: mem_plain_def mem_room_def mem_ok_def)
  have i: "nat (buffer_write_index s) \<le> length (region_of s w)"
      "nat (buffer_write_index s + int (length bs)) = nat (buffer_write_index s) + length bs"
    using m by (auto simp: mem_ok_def)
  show ?thesis
    using mem_ok_write [OF m le] assms le i
    by (simp add: writeBytes_def mem_write [OF m lt] mem_plain_def mem_held_def mem_room_def
        add_held_def region_of_mem_store [OF m] take_blit)
qed

lemma mem_plain_read:
  assumes "mem_plain s w" and "length dest \<le> length (mem_ahead s w)"
  shows "\<exists>r s' w'. readBytes P d dest s w = Inr (r, take (length dest) (mem_ahead s w), s', w') \<and>
    mem_plain s' w' \<and> mem_ahead s' w' = drop (length dest) (mem_ahead s w)"
proof -
  have m: "mem_ok s w" and le: "buffer_read_index s + int (length dest) \<le> buffer_size s"
    and lt: "length dest < 2 ^ 63"
    using assms by (auto simp: mem_plain_def mem_ahead_def mem_ok_def)
  have i: "nat (buffer_read_index s + int (length dest)) = length dest + nat (buffer_read_index s)"
    using m by (auto simp: mem_ok_def)
  show ?thesis
    using mem_ok_read [OF m le] assms le i
    by (simp add: readBytes_def mem_read [OF m lt] mem_plain_def mem_ahead_def slice_def)
      (simp add: region_of_def)
qed

lemma mem_plain_touch_write:
  assumes "mem_plain s w" and "s' = s\<lparr>currentWriteByte := c, bitsWrittenWriteByte := k\<rparr>"
  shows "mem_plain s' w \<and> mem_held s' w = mem_held s w \<and> mem_room s' w = mem_room s w"
  using assms by (simp add: mem_plain_def mem_ok_def mem_held_def mem_room_def region_of_def)

lemma mem_plain_touch_read:
  assumes "mem_plain s w" and "s' = s\<lparr>currentReadByte := c, bitsReadReadByte := k\<rparr>"
  shows "mem_plain s' w \<and> mem_ahead s' w = mem_ahead s w"
  using assms by (simp add: mem_plain_def mem_ok_def mem_ahead_def region_of_def)

interpretation mem_writer: serial_writer P "Suc d" mem_plain mem_held add_held mem_room
  for P :: "('b, 'p) platform" and d
proof
  show "\<exists>r s' w'. writeBytes P (Suc d) bs s w = Inr (r, s', w') \<and> mem_plain s' w' \<and>
      mem_held s' w' = add_held (mem_held s w) bs \<and> mem_room s w \<le> mem_room s' w' + length bs"
    if "mem_plain s w" "length bs \<le> mem_room s w" for s w bs
    using mem_plain_write [OF that] .
  show "\<exists>s' w'. put_bool P (Suc d) x s w = Inr (s', w') \<and> mem_plain s' w' \<and>
      mem_held s' w' = add_held (mem_held s w) [of_bool x] \<and> mem_room s w \<le> mem_room s' w' + 1"
    if a: "mem_plain s w" "1 \<le> mem_room s w" for s w x
  proof -
    have "\<not> bitStream s" using a by (simp add: mem_plain_def)
    note p = put_bool_plain [OF this, of P d x w]
    obtain r s1 w1 where "writeBytes P d [of_bool x] s w = Inr (r, s1, w1)" "mem_plain s1 w1"
        "mem_held s1 w1 = add_held (mem_held s w) [of_bool x]" "mem_room s w \<le> mem_room s1 w1 + 1"
      using mem_plain_write [OF a(1), of "[of_bool x]" P d] a(2) by auto
    with mem_plain_touch_write [OF this(2) refl, where c = 0 and k = 0] show ?thesis by (simp add: p)
  qed
qed (simp_all add: add_held_def)

interpretation mem_reader: serial_reader P "Suc d" mem_plain mem_ahead
  for P :: "('b, 'p) platform" and d
proof
  show "\<exists>r s' w'. readBytes P (Suc d) dest s w = Inr (r, take (length dest) (mem_ahead s w), s', w') \<and>
      mem_plain s' w' \<and> mem_ahead s' w' = drop (length dest) (mem_ahead s w)"
    if "mem_plain s w" "length dest \<le> length (mem_ahead s w)" for s w dest
    using mem_plain_read [OF that] .
  show "\<exists>s' w'. get_bool P (Suc d) s w = Inr (b \<noteq> 0, s', w') \<and> mem_plain s' w' \<and> mem_ahead s' w' = rest"
    if a: "mem_plain s w" "mem_ahead s w = b # rest" for s w b rest
  proof -
    have "\<not> bitStream s" using a by (simp add: mem_plain_def)
    note p = get_bool_plain [OF this, of P d w]
    obtain r s1 w1 where "readBytes P d [currentReadByte s] s w = Inr (r, [b], s1, w1)"
        "mem_plain s1 w1" "mem_ahead s1 w1 = rest"
      using mem_plain_read [OF a(1), of "[currentReadByte s]" P d] a(2) by auto
    with mem_plain_touch_read [OF this(2) refl, where c = b and k = 0] show ?thesis by (simp add: p)
  qed
qed (simp_all add: mem_plain_def)

section \<open>Objects that count\<close>

definition counting :: "serial \<Rightarrow> ('b, 'p) world \<Rightarrow> bool" where
  "counting s w \<longleftrightarrow> is_count_serial s \<and> \<not> bitStream s \<and> count_write s < 2 ^ 64"

definition add_count :: "nat \<Rightarrow> byte list \<Rightarrow> nat" where
  "add_count h bs = wrap64 (int h + int (length bs))"

lemma add_count_append: "add_count (add_count h a) b = add_count h (a @ b)"
  by (simp add: add_count_def wrap64_def mod_add_left_eq add.assoc)

interpretation count_writer: serial_writer P "Suc d" counting "\<lambda>s w. count_write s" add_count
    "\<lambda>s w. 2 ^ 64" for P :: "('b, 'p) platform" and d
  by unfold_locales
    (auto simp: writeBytes_def writeBytes_body_def counting_def add_count_def wrap64_less [simplified]
      put_bool_plain add_count_append [unfolded add_count_def])

section \<open>Objects over streams\<close>

definition stream_out :: "('b \<Rightarrow> bool) \<Rightarrow> nat \<Rightarrow> serial \<Rightarrow> ('b, 'p) world \<Rightarrow> bool" where
  "stream_out bok a s w \<longleftrightarrow> \<not> is_count_serial s \<and> \<not> is_buffer_serial s \<and> passthrough_ptr s = None \<and>
     writeStreamPointer s = Some a \<and> \<not> bitStream s \<and> good (streams w a) \<and> bok (rdbuf (streams w a))"

definition stream_in ::
  "('b \<Rightarrow> bool) \<Rightarrow> ('b \<Rightarrow> byte list) \<Rightarrow> nat \<Rightarrow> serial \<Rightarrow> ('b, 'p) world \<Rightarrow> bool" where
  "stream_in bok ahd a s w \<longleftrightarrow> \<not> is_count_serial s \<and> \<not> is_buffer_serial s \<and> passthrough_ptr s = None \<and>
     readStreamPointer s = Some a \<and> \<not> bitStream s \<and> next_read_offset s = 0 \<and> \<not> pushedReadBuffer s \<and>
     \<not> last_size_mismatch s \<and> \<not> read_buffer s \<and> good (streams w a) \<and> bok (rdbuf (streams w a)) \<and>
     length (ahd (rdbuf (streams w a))) < 2 ^ 31"

locale stream_sink_serial = byte_sink V held room snk_inv
  for V :: "'b vtable" and held room snk_inv +
  fixes P :: "('b, 'p) platform" and d a :: nat
  assumes vt_P: "vt P = V"
begin

lemma stream_write:
  assumes "stream_out snk_inv a s w" and "length bs \<le> min (room (rdbuf (streams w a))) (2 ^ 31 - 1)"
  shows "\<exists>r s' w'. writeBytes P d' bs s w = Inr (r, s', w') \<and> s' = s \<and> stream_out snk_inv a s' w' \<and>
    held (rdbuf (streams w' a)) = held (rdbuf (streams w a)) @ bs \<and>
    min (room (rdbuf (streams w a))) (2 ^ 31 - 1) \<le>
      min (room (rdbuf (streams w' a))) (2 ^ 31 - 1) + length bs"
proof -
  have le: "length bs \<le> room (rdbuf (streams w a))" "length bs < 2 ^ 31" using assms(2) by auto
  obtain b where b: "ostream_write V bs (streams w a) = Inr ((streams w a)\<lparr>rdbuf := b\<rparr>)" "snk_inv b"
      "held b = held (rdbuf (streams w a)) @ bs" "room (rdbuf (streams w a)) \<le> room b + length bs"
    using ostream_write_ok [of "streams w a" bs] assms(1) le by (auto simp: stream_out_def)
  have "writeBytes P d' bs s w =
      Inr (i64 (int (length bs)), s, set_stream a ((streams w a)\<lparr>rdbuf := b\<rparr>) w)"
    using assms(1) by (simp add: writeBytes_def writeBytes_body_def stream_out_def vt_P b(1))
  with b assms(1) show ?thesis
    by (auto simp: stream_out_def set_stream_def good_def)
qed

end

sublocale stream_sink_serial \<subseteq> out: serial_writer P "Suc d" "stream_out snk_inv a"
  "\<lambda>s w. held (rdbuf (streams w a))" "(@)" "\<lambda>s w. min (room (rdbuf (streams w a))) (2 ^ 31 - 1)"
proof
  show "\<exists>s' w'. put_bool P (Suc d) x s w = Inr (s', w') \<and> stream_out snk_inv a s' w' \<and>
      held (rdbuf (streams w' a)) = held (rdbuf (streams w a)) @ [of_bool x] \<and>
      min (room (rdbuf (streams w a))) (2 ^ 31 - 1) \<le> min (room (rdbuf (streams w' a))) (2 ^ 31 - 1) + 1"
    if b: "stream_out snk_inv a s w" "1 \<le> min (room (rdbuf (streams w a))) (2 ^ 31 - 1)" for s w x
  proof -
    have "\<not> bitStream s" using b by (simp add: stream_out_def)
    note p = put_bool_plain [OF this, of P d x w]
    obtain r w1 where "writeBytes P d [of_bool x] s w = Inr (r, s, w1)" "stream_out snk_inv a s w1"
        "held (rdbuf (streams w1 a)) = held (rdbuf (streams w a)) @ [of_bool x]"
        "min (room (rdbuf (streams w a))) (2 ^ 31 - 1) \<le> min (room (rdbuf (streams w1 a))) (2 ^ 31 - 1) + 1"
      using stream_write [OF b(1), of "[of_bool x]" d] b(2) by auto
    then show ?thesis by (auto simp: p stream_out_def)
  qed
  show "\<exists>r s' w'. writeBytes P (Suc d) bs s w = Inr (r, s', w') \<and> stream_out snk_inv a s' w' \<and>
      held (rdbuf (streams w' a)) = held (rdbuf (streams w a)) @ bs \<and>
      min (room (rdbuf (streams w a))) (2 ^ 31 - 1) \<le>
        min (room (rdbuf (streams w' a))) (2 ^ 31 - 1) + length bs"
    if "stream_out snk_inv a s w" "length bs \<le> min (room (rdbuf (streams w a))) (2 ^ 31 - 1)" for s w bs
    using stream_write [OF that, of "Suc d"] by blast
qed simp_all

text \<open>A read of everything asked for.\<close>

lemma read_stream_full:
  assumes "next_read_offset s = 0" and "\<not> pushedReadBuffer s" and "length dest = n" and "n < 2 ^ 64"
    and "istream_read (vt P) n (streams w a) = Inr (bs, st)" and "length bs = n" and "gcount st = n"
  shows "read_stream P a dest s w = Inr (int n, bs,
    (if n = 0 \<and> in_avail (vt P) (rdbuf st) = 0 then s\<lparr>read_empty := True, last_bytes_read := n\<rparr>
     else s\<lparr>read_empty := False, read_eof := False, last_bytes_read := n\<rparr>), set_stream a st w)"
proof -
  have w64: "wrap64 (int n) = n" using assms(4) by simp
  have bl: "blit 0 bs dest = bs" using assms(3,6) by (simp add: blit_def)
  have emp: "bs = [] \<longrightarrow> dest = []" using assms(3,6) by auto
  have push: "pushReadBytes bs n s = s" using assms(2,6) by (simp add: pushReadBytes_def)
  show ?thesis
    unfolding read_stream_def Let_def
    using assms(1,2,3,6,7) emp by (simp add: w64 assms(5) bl push) (simp add: pushReadBytes_def)
qed

locale stream_source_serial = byte_source V ahd src_inv
  for V :: "'b vtable" and ahd src_inv +
  fixes P :: "('b, 'p) platform" and d a :: nat
  assumes vt_P: "vt P = V"
begin

lemma stream_read:
  assumes "stream_in src_inv ahd a s w" and "length dest \<le> length (ahd (rdbuf (streams w a)))"
  shows "\<exists>r s' w'. readBytes P d' dest s w =
      Inr (r, take (length dest) (ahd (rdbuf (streams w a))), s', w') \<and>
    stream_in src_inv ahd a s' w' \<and>
    ahd (rdbuf (streams w' a)) = drop (length dest) (ahd (rdbuf (streams w a)))"
proof -
  let ?n = "length dest" and ?st = "streams w a"
  have lt: "?n < 2 ^ 31" using assms by (auto simp: stream_in_def)
  obtain b where b: "istream_read V ?n ?st = Inr (take ?n (ahd (rdbuf ?st)), ?st\<lparr>rdbuf := b, gcount := ?n\<rparr>)"
      "src_inv b" "ahd b = drop ?n (ahd (rdbuf ?st))"
    using istream_read_ok [of ?st ?n] assms lt by (auto simp: stream_in_def)
  have f: "next_read_offset s = 0" "\<not> pushedReadBuffer s" "?n < 2 ^ 64"
      "length (take ?n (ahd (rdbuf ?st))) = ?n" "istream_read (vt P) ?n ?st =
        Inr (take ?n (ahd (rdbuf ?st)), ?st\<lparr>rdbuf := b, gcount := ?n\<rparr>)"
    using assms lt b(1) by (auto simp: stream_in_def vt_P)
  have "readBytes P d' dest s w = read_stream P a dest s w"
    using assms(1) by (simp add: readBytes_def readBytes_body_def stream_in_def)
  with read_stream_full [OF f(1,2) refl f(3,5,4)] show ?thesis
    using assms(1) b lt by (simp add: stream_in_def set_stream_def good_def) linarith
qed

end

sublocale stream_source_serial \<subseteq> inp: serial_reader P "Suc d" "stream_in src_inv ahd a"
  "\<lambda>s w. ahd (rdbuf (streams w a))"
proof
  show "\<exists>r s' w'. readBytes P (Suc d) dest s w =
        Inr (r, take (length dest) (ahd (rdbuf (streams w a))), s', w') \<and>
      stream_in src_inv ahd a s' w' \<and>
      ahd (rdbuf (streams w' a)) = drop (length dest) (ahd (rdbuf (streams w a)))"
    if "stream_in src_inv ahd a s w" "length dest \<le> length (ahd (rdbuf (streams w a)))" for s w dest
    using stream_read [OF that] .
  show "\<exists>s' w'. get_bool P (Suc d) s w = Inr (b \<noteq> 0, s', w') \<and> stream_in src_inv ahd a s' w' \<and>
      ahd (rdbuf (streams w' a)) = rest"
    if b: "stream_in src_inv ahd a s w" "ahd (rdbuf (streams w a)) = b # rest" for s w b rest
  proof -
    have "\<not> bitStream s" using b by (simp add: stream_in_def)
    note p = get_bool_plain [OF this, of P d w]
    obtain r s1 w1 where "readBytes P d [currentReadByte s] s w = Inr (r, [b], s1, w1)"
        "stream_in src_inv ahd a s1 w1" "ahd (rdbuf (streams w1 a)) = rest"
      using stream_read [OF b(1), of "[currentReadByte s]" d] b(2) by auto
    then show ?thesis by (simp add: p stream_in_def)
  qed
qed (simp_all add: stream_in_def)

text \<open>
  The standard string streams and the memory streams of the library, both ways; \<open>APassthrough\<close> is
  not subclassed.
\<close>

definition memory_platform :: "(membuf, unit) platform" where
  "memory_platform = \<lparr>vt = memory_vtable, pt_write = apassthrough_write, pt_read = apassthrough_read\<rparr>"

interpretation string_out: stream_sink_serial stringbuf_vtable "\<lambda>b. take (ppos b) (str b)" "\<lambda>_. 2 ^ 64"
    "\<lambda>b. ppos b \<le> length (str b)" demo_platform d a for d a
  by unfold_locales (simp add: demo_platform_def)

interpretation string_in: stream_source_serial stringbuf_vtable "\<lambda>b. drop (gpos b) (str b)"
    stringbuf_inv demo_platform d a for d a
  by unfold_locales (simp add: demo_platform_def)

interpretation memory_out: stream_sink_serial memory_vtable "\<lambda>b. take (nat (pptr b)) (mem b)"
    "\<lambda>b. nat (m_end b - pptr b)" membuf_inv memory_platform d a for d a
  by unfold_locales (simp add: memory_platform_def)

interpretation memory_in: stream_source_serial memory_vtable unread membuf_inv memory_platform d a for d a
  by unfold_locales (simp add: memory_platform_def)

section \<open>Round trips\<close>

lemma mem_put:
  assumes "delivers mem_plain mem_held add_held mem_room put bs"
    and "s = serial_buffer (int (length (regions w a))) (Some a) False"
    and "length bs \<le> length (regions w a)" and "length (regions w a) < 2 ^ 63"
  shows "\<exists>s1 w1. put s w = Inr (s1, w1) \<and> take (length bs) (regions w1 a) = bs \<and>
    length (regions w1 a) = length (regions w a)"
proof -
  have p: "mem_plain s w" "mem_room s w = length (regions w a)"
      "mem_held s w = (Some a, int (length (regions w a)), [])"
    using assms(2,4)
    by (simp_all add: mem_plain_def mem_ok_def mem_room_def mem_held_def region_of_def
        serial_buffer_def serial_default_def)
  from assms(1) p(1) assms(3) obtain s1 w1 where w1: "put s w = Inr (s1, w1)" "mem_plain s1 w1"
      "mem_held s1 w1 = add_held (mem_held s w) bs"
    unfolding delivers_def p(2) [symmetric] by blast
  have "mem_held s1 w1 = (Some a, int (length (regions w a)), bs)"
    using w1(3) by (simp add: p(3) add_held_def)
  then have h: "buffer_pointer s1 = Some a" "buffer_size s1 = int (length (regions w a))"
      "take (nat (buffer_write_index s1)) (regions w1 a) = bs"
    by (auto simp: mem_held_def region_of_def)
  have "length (regions w1 a) = length (regions w a)"
    using w1(2) h(1,2) by (simp add: mem_plain_def mem_ok_def region_of_def)
  moreover have "take (length bs) (regions w1 a) = bs"
    unfolding h(3) [symmetric] by (simp add: min_def)
  ultimately show ?thesis using w1(1) by blast
qed

lemma mem_get:
  assumes "consumes mem_plain mem_ahead get bs v"
    and "s = serial_buffer (int (length (regions w a))) (Some a) False"
    and "take (length bs) (regions w a) = bs" and "length (regions w a) < 2 ^ 63"
  shows "\<exists>s2 w2. get s w = Inr (v, s2, w2)"
proof -
  have "mem_plain s w" using assms(2,4)
    by (simp add: mem_plain_def mem_ok_def region_of_def serial_buffer_def serial_default_def)
  moreover have "regions w a = bs @ drop (length bs) (regions w a)"
    using append_take_drop_id [of "length bs" "regions w a"] assms(3) by simp
  then have "mem_ahead s w = bs @ drop (length bs) (regions w a)"
    using assms(2) by (simp add: mem_ahead_def region_of_def serial_buffer_def serial_default_def)
  ultimately show ?thesis using assms(1) unfolding consumes_def by blast
qed

lemma mem_roundtrip:
  assumes "delivers mem_plain mem_held add_held mem_room put bs"
    and "consumes mem_plain mem_ahead get bs v"
    and "s = serial_buffer (int (length (regions w a))) (Some a) False"
    and "length bs \<le> length (regions w a)" and "length (regions w a) < 2 ^ 63"
  shows "\<exists>s1 w1 s2 w2. put s w = Inr (s1, w1) \<and> get s w1 = Inr (v, s2, w2)"
proof -
  obtain s1 w1 where w1: "put s w = Inr (s1, w1)" "take (length bs) (regions w1 a) = bs"
      "length (regions w1 a) = length (regions w a)"
    using mem_put [OF assms(1,3,4,5)] by blast
  have "s = serial_buffer (int (length (regions w1 a))) (Some a) False" using assms(3) w1(3) by simp
  from mem_get [OF assms(2) this w1(2)] w1(1,3) assms(5) show ?thesis by auto
qed

text \<open>A \<open>std::vector<std::string>\<close> written to memory that is large enough is read back unchanged by
  a new object over the memory.\<close>

theorem serial_vector_string_roundtrip:
  assumes "s = serial_buffer (int (length (regions w a))) (Some a) False"
    and "length (enc_vector enc_string xs) \<le> length (regions w a)" and "length (regions w a) < 2 ^ 63"
    and "length xs \<le> max_size"
  shows "\<exists>s1 w1 s2 w2. serialize_vector P (Suc d) (serialize_string P (Suc d)) xs s w = Inr (s1, w1) \<and>
    deserialize_vector P (Suc d) max_size (deserialize_string P (Suc d) []) [] s w1 = Inr (xs, s2, w2)"
proof -
  have bound: "length xs \<le> length (enc_vector enc_string xs) \<and>
      (\<forall>x \<in> set xs. length x \<le> length (enc_vector enc_string xs))"
    unfolding enc_vector_def enc_string_def by (induction xs) auto
  then have b: "length xs < 2 ^ 64" "\<And>x. x \<in> set xs \<Longrightarrow> length x < 2 ^ 63" using assms(2,3) by fastforce+
  have "delivers mem_plain mem_held add_held mem_room
      (serialize_vector P (Suc d) (serialize_string P (Suc d)) xs) (enc_vector enc_string xs)"
    by (rule mem_writer.delivers_vector, rule mem_writer.delivers_string)
  moreover have "consumes mem_plain mem_ahead
      (deserialize_vector P (Suc d) max_size (deserialize_string P (Suc d) []) [])
      (enc_vector enc_string xs) ([] @ xs)"
    by (rule mem_reader.consumes_vector [OF b(1) assms(4)], rule mem_reader.consumes_string [OF b(2)])
  ultimately show ?thesis using mem_roundtrip [OF _ _ assms(1-3)] by fastforce
qed

definition big_world :: "(stringbuf, unit) world" where
  "big_world = demo_world\<lparr>regions := (\<lambda>_. replicate 64 0)\<rparr>"

theorem serial_vector_string_roundtrip_witness:
  "\<exists>s1 w1 s2 w2. serialize_vector demo_platform 1 (serialize_string demo_platform 1) [[104, 105], []]
       (serial_buffer 64 (Some 0) False) big_world = Inr (s1, w1) \<and>
     deserialize_vector demo_platform 1 1000 (deserialize_string demo_platform 1 []) []
       (serial_buffer 64 (Some 0) False) w1 = Inr ([[104, 105], []], s2, w2)"
  unfolding One_nat_def
  by (rule serial_vector_string_roundtrip [of _ _ 0])
    (simp_all add: big_world_def enc_vector_def enc_string_def)



lemma enc_pair_member:
  "(k, v) \<in> set kv \<Longrightarrow> length (ek k) + length (ev v) \<le> length (enc_vector (enc_pair ek ev) kv)"
  using enc_vector_member [of "(k, v)" kv "enc_pair ek ev"] by (simp add: enc_pair_def)

lemma enc_vector_longer:
  assumes "\<And>x. x \<in> set xs \<Longrightarrow> 1 \<le> length (enc x)"
  shows "length xs \<le> length (enc_vector enc xs)"
  using assms unfolding enc_vector_def by (induction xs) fastforce+

lemma fold_map_update_distinct:
  "distinct (map fst kv) \<Longrightarrow> fold (\<lambda>(k, v) m. m(k \<mapsto> v)) kv m = m ++ map_of kv"
proof (induction kv arbitrary: m)
  case (Cons x kv)
  obtain k v where x: "x = (k, v)" by fastforce
  then have "k \<notin> dom (map_of kv)" using Cons.prems by (simp add: dom_map_of_conv_image_fst)
  then show ?case using Cons x
    by (auto simp: map_add_def fun_eq_iff dom_def split: option.splits)
qed simp

text \<open>An \<open>unordered_map<string, path>\<close>, whatever the order in which it is iterated, is read back as the
  same map.\<close>

theorem serial_unordered_map_roundtrip:
  assumes "s = serial_buffer (int (length (regions w a))) (Some a) False"
    and "length (enc_vector (enc_pair enc_string enc_string) kv) \<le> length (regions w a)"
    and "length (regions w a) < 2 ^ 63" and "distinct (map fst kv)"
  shows "\<exists>s1 w1 s2 w2. serialize_unordered_map P (Suc d) (serialize_string P (Suc d))
       (serialize_path P (Suc d)) kv s w = Inr (s1, w1) \<and>
    deserialize_unordered_map P (Suc d) (deserialize_string P (Suc d) [])
       (deserialize_path P (Suc d) []) Map.empty s w1 = Inr (map_of kv, s2, w2)"
proof -
  let ?e = "enc_pair enc_string enc_string"
  have "length kv \<le> length (enc_vector ?e kv)"
    by (rule enc_vector_longer) (simp add: enc_pair_def enc_string_def)
  then have n: "length kv < 2 ^ 64" using assms(2,3) by simp
  have b: "length k < 2 ^ 63" "length v < 2 ^ 63" if "(k, v) \<in> set kv" for k v
    using enc_pair_member [OF that, of enc_string enc_string] assms(2,3) by (simp_all add: enc_string_def)
  have "delivers mem_plain mem_held add_held mem_room
      (serialize_unordered_map P (Suc d) (serialize_string P (Suc d)) (serialize_path P (Suc d)) kv)
      (enc_vector ?e kv)"
    unfolding serialize_path_def [abs_def]
    by (rule mem_writer.delivers_unordered_map) (simp add: mem_writer.delivers_string)
  moreover have "consumes mem_plain mem_ahead (get_pair (deserialize_string P (Suc d) [])
      (deserialize_path P (Suc d) [])) (?e x) x" if "x \<in> set kv" for x
    using b [of "fst x" "snd x"] that
      mem_reader.consumes_pair [OF mem_reader.consumes_string mem_reader.consumes_path, of "fst x" "snd x"]
    by (simp add: enc_pair_def)
  from mem_reader.consumes_counted [OF n this, where add = "\<lambda>(k, v) kv. kv(k \<mapsto> v)" and st = Map.empty]
  have "consumes mem_plain mem_ahead (deserialize_unordered_map P (Suc d)
      (deserialize_string P (Suc d) []) (deserialize_path P (Suc d) []) Map.empty)
      (enc_vector ?e kv) (map_of kv)"
    by (simp add: deserialize_unordered_map_def [abs_def] fold_map_update_distinct [OF assms(4)])
  ultimately show ?thesis by (rule mem_roundtrip [OF _ _ assms(1-3)])
qed

theorem serial_unordered_map_roundtrip_witness:
  "\<exists>s1 w1 s2 w2. serialize_unordered_map demo_platform 1 (serialize_string demo_platform 1)
       (serialize_path demo_platform 1) [([1], [2, 3]), ([], [4])] (serial_buffer 64 (Some 0) False) big_world =
       Inr (s1, w1) \<and>
    deserialize_unordered_map demo_platform 1 (deserialize_string demo_platform 1 [])
       (deserialize_path demo_platform 1 []) Map.empty (serial_buffer 64 (Some 0) False) w1 =
       Inr (map_of [([1], [2, 3]), ([], [4])], s2, w2)"
  unfolding One_nat_def
  by (rule serial_unordered_map_roundtrip [of _ _ 0])
    (simp_all add: big_world_def enc_vector_def enc_pair_def enc_string_def)

text \<open>The ordered containers: adding the elements in increasing order rebuilds them.\<close>

lemma set_insert_last: "(\<forall>x \<in> set xs. x < v) \<Longrightarrow> set_insert v xs = xs @ [v]"
  by (induction xs) auto

lemma map_set_last: "(\<forall>x \<in> set kv. fst x < k) \<Longrightarrow> map_set (k, v) kv = kv @ [(k, v)]"
  by (induction kv) auto

lemma fold_set_insert: "sorted_wrt (<) (ys @ xs) \<Longrightarrow> fold set_insert xs ys = ys @ xs"
  by (induction xs arbitrary: ys) (auto simp: set_insert_last sorted_wrt_append)

lemma fold_map_set: "sorted_wrt (<) (map fst (ys @ xs)) \<Longrightarrow> fold map_set xs ys = ys @ xs"
  by (induction xs arbitrary: ys) (auto simp: map_set_last sorted_wrt_append)

text \<open>A \<open>std::map<size_t, string>\<close> is read back as the same map, in the order of its keys, and so is the
  \<open>std::set\<close> of its keys.\<close>

theorem serial_ordered_roundtrip:
  assumes "s = serial_buffer (int (length (regions w a))) (Some a) False"
    and "length (enc_vector (enc_pair (le_bytes 8) enc_string) kv) \<le> length (regions w a)"
    and "length (regions w a) < 2 ^ 63" and "sorted_wrt (<) (map fst kv)"
    and "\<forall>k \<in> set (map fst kv). k < 2 ^ 64"
  shows "(\<exists>s1 w1 s2 w2. serialize_map P (Suc d) (put_size P (Suc d)) (serialize_string P (Suc d)) kv s w =
      Inr (s1, w1) \<and>
    deserialize_map P (Suc d) (get_size P (Suc d) 0) (deserialize_string P (Suc d) []) [] s w1 =
      Inr (kv, s2, w2)) \<and>
    (\<exists>s1 w1 s2 w2. serialize_set P (Suc d) (put_size P (Suc d)) (map fst kv) s w = Inr (s1, w1) \<and>
      deserialize_set P (Suc d) (get_size P (Suc d) 0) [] s w1 = Inr (map fst kv, s2, w2))"
proof -
  let ?e = "enc_pair (le_bytes 8) enc_string" and ?ks = "map fst kv"
  have "length kv \<le> length (enc_vector ?e kv)"
    by (rule enc_vector_longer) (simp add: enc_pair_def enc_string_def)
  then have n: "length kv < 2 ^ 64" "length ?ks < 2 ^ 64" using assms(2,3) by simp_all
  have b: "length v < 2 ^ 63" if "(k, v) \<in> set kv" for k v
    using enc_pair_member [OF that, of "le_bytes 8" enc_string] assms(2,3) by (simp add: enc_string_def)
  have kb: "consumes mem_plain mem_ahead (get_size P (Suc d) 0) (le_bytes 8 k) k" if "k \<in> set ?ks" for k
    using assms(5) that by (intro mem_reader.consumes_size) blast
  have "length (enc_vector (le_bytes 8) ?ks) \<le> length (enc_vector ?e kv)"
    unfolding enc_vector_def by (induction kv) (auto simp: enc_pair_def)
  then have le: "length (enc_vector (le_bytes 8) ?ks) \<le> length (regions w a)" using assms(2) by simp
  have m: "delivers mem_plain mem_held add_held mem_room
      (serialize_map P (Suc d) (put_size P (Suc d)) (serialize_string P (Suc d)) kv) (enc_vector ?e kv)"
    by (rule mem_writer.delivers_map) (simp add: mem_writer.delivers_string mem_writer.delivers_size)
  have "consumes mem_plain mem_ahead (get_pair (get_size P (Suc d) 0) (deserialize_string P (Suc d) []))
      (?e x) x" if "x \<in> set kv" for x
    using mem_reader.consumes_pair [OF kb mem_reader.consumes_string, of "fst x" "snd x"]
      b [of "fst x" "snd x"] that by (simp add: enc_pair_def)
  from mem_reader.consumes_counted [OF n(1) this, where add = map_set and st = "[]"]
  have "consumes mem_plain mem_ahead (deserialize_map P (Suc d) (get_size P (Suc d) 0)
      (deserialize_string P (Suc d) []) []) (enc_vector ?e kv) kv"
    using fold_map_set [of "[]" kv] assms(4) by (simp add: deserialize_map_def [abs_def])
  note map = mem_roundtrip [OF m this assms(1-3)]
  have st: "delivers mem_plain mem_held add_held mem_room (serialize_set P (Suc d) (put_size P (Suc d)) ?ks)
      (enc_vector (le_bytes 8) ?ks)"
    by (rule mem_writer.delivers_set) (rule mem_writer.delivers_size)
  from mem_reader.consumes_counted [OF n(2) kb, where add = set_insert and st = "[]"]
  have "consumes mem_plain mem_ahead (deserialize_set P (Suc d) (get_size P (Suc d) 0) [])
      (enc_vector (le_bytes 8) ?ks) ?ks"
    using fold_set_insert [of "[]" ?ks] assms(4) by (simp add: deserialize_set_def [abs_def])
  from map mem_roundtrip [OF st this assms(1) le assms(3)] show ?thesis by blast
qed

theorem serial_ordered_roundtrip_witness:
  "\<exists>s1 w1 s2 w2. serialize_map demo_platform 1 (put_size demo_platform 1) (serialize_string demo_platform 1)
      [(3, [7]), (5, [])] (serial_buffer 64 (Some 0) False) big_world = Inr (s1, w1) \<and>
    deserialize_map demo_platform 1 (get_size demo_platform 1 0) (deserialize_string demo_platform 1 []) []
      (serial_buffer 64 (Some 0) False) w1 = Inr ([(3, [7]), (5, [])], s2, w2)"
  unfolding One_nat_def
  by (rule serial_ordered_roundtrip [of _ _ 0, THEN conjunct1])
    (simp_all add: big_world_def enc_vector_def enc_pair_def enc_string_def)

text \<open>C20: a vector of strings written through a \<open>Serial\<close> over an output string stream is read back
  unchanged through one over an input string stream that holds the bytes written.\<close>

theorem serial_stream_roundtrip:
  assumes "length (enc_vector enc_string xs) < 2 ^ 31" and "length xs \<le> max_size"
    and "streams w a = mk_stream \<lparr>str = [], gpos = 0, ppos = 0\<rparr>"
  shows "\<exists>s1 w1 b. serialize_vector demo_platform (Suc d) (serialize_string demo_platform (Suc d)) xs
       (serial_streams (Some a) None False) w = Inr (s1, w1) \<and>
    rdbuf (streams w1 a) = b \<and> take (ppos b) (str b) = enc_vector enc_string xs \<and>
    (\<exists>s2 w2. deserialize_vector demo_platform (Suc d) max_size (deserialize_string demo_platform (Suc d) []) []
       (serial_streams None (Some a) False)
       (set_stream a (mk_stream \<lparr>str = take (ppos b) (str b), gpos = 0, ppos = 0\<rparr>) w1) =
       Inr (xs, s2, w2))"
proof -
  let ?e = "enc_vector enc_string xs" and ?inv = "\<lambda>b::stringbuf. ppos b \<le> length (str b)"
    and ?ahd = "\<lambda>b::stringbuf. drop (gpos b) (str b)"
  have "length xs \<le> length ?e" by (rule enc_vector_longer) (simp add: enc_string_def)
  then have n: "length xs < 2 ^ 64" using assms(1) by simp
  have b: "length x < 2 ^ 63" if "x \<in> set xs" for x
    using enc_vector_member [OF that, of enc_string] assms(1) by (simp add: enc_string_def)
  have out: "stream_out ?inv a (serial_streams (Some a) None False) w"
    using assms(3) by (simp add: stream_out_def serial_streams_def serial_default_def mk_stream_def good_def)
  have le: "length ?e \<le> min (2 ^ 64) (2 ^ 31 - 1)" using assms(1) by simp
  have del: "delivers (stream_out ?inv a) (\<lambda>s w. take (ppos (rdbuf (streams w a))) (str (rdbuf (streams w a))))
      (@) (\<lambda>s w. min (2 ^ 64) (2 ^ 31 - 1))
      (serialize_vector demo_platform (Suc d) (serialize_string demo_platform (Suc d)) xs) ?e"
    by (rule string_out.out.delivers_vector, rule string_out.out.delivers_string)
  obtain s1 w1 where w1: "serialize_vector demo_platform (Suc d) (serialize_string demo_platform (Suc d)) xs
       (serial_streams (Some a) None False) w = Inr (s1, w1)"
      "take (ppos (rdbuf (streams w1 a))) (str (rdbuf (streams w1 a))) =
       take (ppos (rdbuf (streams w a))) (str (rdbuf (streams w a))) @ ?e"
    using del [unfolded delivers_def, rule_format, OF out le] by blast
  let ?b = "rdbuf (streams w1 a)"
  have h: "take (ppos ?b) (str ?b) = ?e" using w1(2) assms(3) by (simp add: mk_stream_def)
  let ?w = "set_stream a (mk_stream \<lparr>str = ?e, gpos = 0, ppos = 0\<rparr>) w1"
  have inp: "stream_in stringbuf_inv ?ahd a (serial_streams None (Some a) False) ?w"
    using assms(1) by (simp add: stream_in_def serial_streams_def serial_default_def mk_stream_def good_def
        set_stream_def stringbuf_inv_def)
  have ahd: "?ahd (rdbuf (streams ?w a)) = ?e @ []" by (simp add: set_stream_def mk_stream_def)
  have con: "consumes (stream_in stringbuf_inv ?ahd a) (\<lambda>s w. ?ahd (rdbuf (streams w a)))
      (deserialize_vector demo_platform (Suc d) max_size (deserialize_string demo_platform (Suc d) []) [])
      ?e ([] @ xs)"
    by (rule string_in.inp.consumes_vector [OF n assms(2)], rule string_in.inp.consumes_string [OF b])
  obtain s2 w2 where "deserialize_vector demo_platform (Suc d) max_size
      (deserialize_string demo_platform (Suc d) []) [] (serial_streams None (Some a) False) ?w =
      Inr ([] @ xs, s2, w2)"
    using con [unfolded consumes_def, rule_format, OF inp ahd] by blast
  with w1(1) h show ?thesis by auto
qed

theorem serial_stream_roundtrip_witness:
  "\<exists>s1 w1. serialize_vector demo_platform 1 (serialize_string demo_platform 1) [[104, 105], []]
       (serial_streams (Some 0) None False) demo_world = Inr (s1, w1)"
  unfolding One_nat_def
  using serial_stream_roundtrip [of "[[104, 105], []]" 2 demo_world 0 0]
  by (simp add: demo_world_def enc_vector_def enc_string_def) blast

end
