(* ===== verification/Cpp_String.thy ===== *)
theory Cpp_String
  imports Cpp_Prelude
begin

text \<open>
  What the library uses of \<open>std::string\<close> and of the conversions of the standard library, with the
  exceptions they throw.  \<open>npos\<close> is \<open>None\<close>.
\<close>

section \<open>Searching and cutting\<close>

text \<open>\<open>s.find(c, pos)\<close>\<close>

fun index_of :: "char \<Rightarrow> string \<Rightarrow> nat option" where
  "index_of c [] = None"
| "index_of c (x # xs) = (if x = c then Some 0 else map_option Suc (index_of c xs))"

definition find_char :: "char \<Rightarrow> string \<Rightarrow> nat \<Rightarrow> nat option" where
  "find_char c s pos = map_option (\<lambda>i. pos + i) (index_of c (drop pos s))"

text \<open>\<open>s.substr(pos, n)\<close> and \<open>s.substr(pos)\<close>\<close>

definition substr :: "string \<Rightarrow> nat \<Rightarrow> nat \<Rightarrow> string cpp" where
  "substr s pos n = (if length s < pos then Inl (Out_of_range ''basic_string::substr'')
     else Inr (slice pos n s))"

definition substr_from :: "string \<Rightarrow> nat \<Rightarrow> string cpp" where
  "substr_from s pos = (if length s < pos then Inl (Out_of_range ''basic_string::substr'')
     else Inr (drop pos s))"

section \<open>Characters and numbers\<close>

definition is_digit :: "char \<Rightarrow> bool" where
  "is_digit c \<longleftrightarrow> 48 \<le> (of_char c :: nat) \<and> (of_char c :: nat) \<le> 57"

definition digit_val :: "char \<Rightarrow> nat" where
  "digit_val c = of_char c - 48"

definition is_space :: "char \<Rightarrow> bool" where
  "is_space c \<longleftrightarrow> of_char c = (32 :: nat) \<or> 9 \<le> (of_char c :: nat) \<and> (of_char c :: nat) \<le> 13"

text \<open>\<open>std::tolower\<close> in the C locale.\<close>

definition tolower :: "char \<Rightarrow> char" where
  "tolower c = (if 65 \<le> (of_char c :: nat) \<and> (of_char c :: nat) \<le> 90
     then char_of (of_char c + 32 :: nat) else c)"

definition dec_val :: "string \<Rightarrow> nat" where
  "dec_val s = fold (\<lambda>c v. 10 * v + digit_val c) s 0"

text \<open>
  \<open>std::stoll\<close> and \<open>std::stoi\<close>: white space, a sign and as many digits as follow; the rest is
  ignored.
\<close>

definition parse_int :: "string \<Rightarrow> int option" where
  "parse_int s =
     (let s1 = dropWhile is_space s;
          neg = (s1 \<noteq> [] \<and> hd s1 = CHR ''-'');
          s2 = (if s1 \<noteq> [] \<and> (hd s1 = CHR ''-'' \<or> hd s1 = CHR ''+'') then tl s1 else s1);
          ds = takeWhile is_digit s2
      in if ds = [] then None else Some (if neg then - int (dec_val ds) else int (dec_val ds)))"

definition stoll :: "string \<Rightarrow> int cpp" where
  "stoll s = (case parse_int s of None \<Rightarrow> Inl (Invalid_argument ''stoll'')
     | Some v \<Rightarrow> if - (2 ^ 63) \<le> v \<and> v < 2 ^ 63 then Inr v else Inl (Out_of_range ''stoll''))"

definition stoi :: "string \<Rightarrow> int cpp" where
  "stoi s = (case parse_int s of None \<Rightarrow> Inl (Invalid_argument ''stoi'')
     | Some v \<Rightarrow> if - (2 ^ 31) \<le> v \<and> v < 2 ^ 31 then Inr v else Inl (Out_of_range ''stoi''))"

text \<open>\<open>std::to_string\<close> of an unsigned number.\<close>

fun to_string :: "nat \<Rightarrow> string" where
  "to_string n = (if n < 10 then [char_of (48 + n)] else to_string (n div 10) @ [char_of (48 + n mod 10)])"

declare to_string.simps [simp del]

section \<open>Strings as bytes\<close>

definition string_bytes :: "string \<Rightarrow> byte list" where
  "string_bytes = map of_char"

definition bytes_string :: "byte list \<Rightarrow> string" where
  "bytes_string = map (\<lambda>b. char_of (unat b))"

lemma unat_of_char_byte: "unat (of_char c :: byte) = of_char c"
proof -
  have "(of_char c :: byte) = of_nat (of_char c)" by (simp add: of_nat_of_char)
  moreover have "of_char c < (256 :: nat)" by simp
  ultimately show ?thesis by (simp add: unat_of_nat)
qed

lemma of_char_byte_eq: "(of_char c :: byte) = of_char c' \<longleftrightarrow> c = c'"
  by (metis unat_of_char_byte of_char_eq_iff)

lemma string_bytes_eq [simp]: "string_bytes n = string_bytes m \<longleftrightarrow> n = m"
  by (simp add: string_bytes_def inj_map_eq_map inj_def of_char_byte_eq)

lemma length_string_bytes [simp]: "length (string_bytes n) = length n"
  by (simp add: string_bytes_def)

lemma string_bytes_append [simp]: "string_bytes (a @ b) = string_bytes a @ string_bytes b"
  by (simp add: string_bytes_def)

lemma bytes_string_bytes [simp]: "bytes_string (string_bytes s) = s"
  by (induction s) (auto simp: bytes_string_def string_bytes_def unat_of_char_byte)

section \<open>Facts\<close>

lemma index_of_None [simp]: "index_of c s = None \<longleftrightarrow> c \<notin> set s"
  by (induction s) auto

lemma index_of_append:
  "index_of c (a @ b) = (if c \<in> set a then index_of c a else map_option (\<lambda>i. length a + i) (index_of c b))"
proof (induction a)
  case Nil
  show ?case by (cases "index_of c b") (auto simp del: index_of_None)
next
  case (Cons x a)
  then show ?case by (cases "index_of c b") (auto simp del: index_of_None)
qed

lemma index_of_first [simp]: "c \<notin> set a \<Longrightarrow> index_of c (a @ c # b) = Some (length a)"
  by (simp add: index_of_append)

lemma index_of_Some: "index_of c s = Some i \<Longrightarrow> i < length s \<and> s ! i = c \<and> c \<notin> set (take i s)"
  by (induction s arbitrary: i) (auto split: if_splits)

lemma is_digit_char_of: "n < 10 \<Longrightarrow> is_digit (char_of (48 + n)) \<and> digit_val (char_of (48 + n)) = n"
  by (simp add: is_digit_def digit_val_def)

lemma dec_val_snoc: "dec_val (s @ [c]) = 10 * dec_val s + digit_val c"
  by (simp add: dec_val_def)

lemma to_string_digits: "to_string n \<noteq> [] \<and> (\<forall>c \<in> set (to_string n). is_digit c) \<and> dec_val (to_string n) = n"
proof (induction n rule: to_string.induct)
  case (1 n)
  show ?case
  proof (cases "n < 10")
    case True
    then show ?thesis using is_digit_char_of [OF True]
      by (simp add: to_string.simps [of n] dec_val_def)
  next
    case False
    have "n mod 10 < 10" by simp
    note d = is_digit_char_of [OF this]
    show ?thesis using 1 [OF False] d False
      by (subst (1 2 3) to_string.simps) (simp add: dec_val_snoc)
  qed
qed

lemma digit_not_special: "is_digit c \<Longrightarrow> \<not> is_space c \<and> c \<noteq> CHR ''-'' \<and> c \<noteq> CHR ''+''"
  by (auto simp: is_digit_def is_space_def)

lemma parse_int_digits:
  assumes "ds \<noteq> []" and "\<forall>c \<in> set ds. is_digit c"
  shows "parse_int ds = Some (int (dec_val ds))"
proof -
  obtain c cs where ds: "ds = c # cs" using assms(1) by (cases ds) auto
  have tw: "takeWhile is_digit ds = ds" using assms(2) by (simp add: takeWhile_eq_all_conv)
  have "\<not> is_space c \<and> c \<noteq> CHR ''-'' \<and> c \<noteq> CHR ''+''"
    using digit_not_special [of c] assms(2) ds by simp
  then have "parse_int ds = (let ds' = takeWhile is_digit ds
      in if ds' = [] then None else Some (int (dec_val ds')))"
    unfolding ds parse_int_def Let_def by (simp del: takeWhile.simps)
  then show ?thesis using assms(1) by (simp add: tw)
qed

lemma parse_int_to_string: "parse_int (to_string n) = Some (int n)"
  using parse_int_digits [of "to_string n"] to_string_digits [of n] by simp

end
