(* ===== verification/Serial_Any.thy ===== *)
theory Serial_Any
  imports Serial_Codec Cpp_String
begin

text \<open>
  \<open>std::any\<close> on a \<open>Serial\<close>: the registry of types with stable names (\<open>struct any_registry\<close>), the types
  Serial.cpp registers when the program starts, and \<open>serialize\<close> and \<open>deserialize\<close> of an \<open>any\<close>.
\<close>

section \<open>Types and values\<close>

text \<open>The types registered, and any others a program may put into an \<open>any\<close>.\<close>

datatype cty = T_int | T_float | T_string | T_uint8 | T_int8 | T_uint16 | T_int16 | T_uint32
  | T_uint64 | T_int64 | T_double | T_long_double | T_other nat

text \<open>\<open>sizeof\<close> of the trivially copyable ones.\<close>

fun cty_size :: "cty \<Rightarrow> nat" where
  "cty_size T_int = 4" | "cty_size T_float = 4" | "cty_size T_uint8 = 1" | "cty_size T_int8 = 1"
| "cty_size T_uint16 = 2" | "cty_size T_int16 = 2" | "cty_size T_uint32 = 4"
| "cty_size T_uint64 = 8" | "cty_size T_int64 = 8" | "cty_size T_double = 8"
| "cty_size T_long_double = 16" | "cty_size T_string = 32" | "cty_size (T_other n) = n"

text \<open>An \<open>any\<close> holds a type and a value: the object representation, or the bytes of a string.\<close>

type_synonym any = "(cty \<times> byte list) option"

type_synonym ('b, 'p) any_serialize = "any \<Rightarrow> serial \<Rightarrow> ('b, 'p) world \<Rightarrow> (serial \<times> ('b, 'p) world) cpp"

type_synonym ('b, 'p) any_deserialize =
  "any \<Rightarrow> serial \<Rightarrow> ('b, 'p) world \<Rightarrow> (any \<times> serial \<times> ('b, 'p) world) cpp"

section \<open>The registry\<close>

record ('b, 'p) any_registry =
  serializers :: "cty \<Rightarrow> ('b, 'p) any_serialize option"
  deserializers :: "cty \<Rightarrow> ('b, 'p) any_deserialize option"
  type_to_stable_name :: "cty \<Rightarrow> byte list option"
  stable_name_to_type :: "byte list \<Rightarrow> cty option"

definition empty_registry :: "('b, 'p) any_registry" where
  "empty_registry = \<lparr>serializers = Map.empty, deserializers = Map.empty,
     type_to_stable_name = Map.empty, stable_name_to_type = Map.empty\<rparr>"

definition register_type ::
  "cty \<Rightarrow> byte list \<Rightarrow> ('b, 'p) any_serialize \<Rightarrow> ('b, 'p) any_deserialize \<Rightarrow>
   ('b, 'p) any_registry \<Rightarrow> ('b, 'p) any_registry" where
  "register_type t stable_name ser_func deser_func R =
     (if stable_name_to_type R stable_name \<noteq> None then R
      else R\<lparr>serializers := (serializers R)(t \<mapsto> ser_func),
             deserializers := (deserializers R)(t \<mapsto> deser_func),
             type_to_stable_name := (type_to_stable_name R)(t \<mapsto> stable_name),
             stable_name_to_type := (stable_name_to_type R)(stable_name \<mapsto> t)\<rparr>)"

definition bad_any_cast :: cpp_error where
  "bad_any_cast = Runtime_error ''bad any_cast''"

text \<open>
  The functions registered for a trivially copyable type: the local \<open>value\<close> is not initialised, its
  bytes are \<open>junk\<close>.
\<close>

definition trivial_ser :: "('b, 'p) platform \<Rightarrow> nat \<Rightarrow> cty \<Rightarrow> ('b, 'p) any_serialize" where
  "trivial_ser P d t a s w = (case a of
     Some (t', v) \<Rightarrow> if t' = t then put_value P d v s w else Inl bad_any_cast
   | None \<Rightarrow> Inl bad_any_cast)"

definition trivial_deser :: "('b, 'p) platform \<Rightarrow> nat \<Rightarrow> (cty \<Rightarrow> byte list) \<Rightarrow> cty \<Rightarrow> ('b, 'p) any_deserialize" where
  "trivial_deser P d junk t a s w = bindE (get_value P d (junk t) s w) (\<lambda>(v, s, w).
     if last_did_not_read_whole_size s then Inr (a, s, w) else Inr (Some (t, v), s, w))"

definition string_ser :: "('b, 'p) platform \<Rightarrow> nat \<Rightarrow> ('b, 'p) any_serialize" where
  "string_ser P d a s w = (case a of
     Some (t', v) \<Rightarrow> if t' = T_string then serialize_string P d v s w else Inl bad_any_cast
   | None \<Rightarrow> Inl bad_any_cast)"

definition string_deser :: "('b, 'p) platform \<Rightarrow> nat \<Rightarrow> ('b, 'p) any_deserialize" where
  "string_deser P d a s w = bindE (deserialize_string P d [] s w) (\<lambda>(v, s, w).
     if last_did_not_read_whole_size s then Inr (a, s, w) else Inr (Some (T_string, v), s, w))"

definition ser_func :: "('b, 'p) platform \<Rightarrow> nat \<Rightarrow> cty \<Rightarrow> ('b, 'p) any_serialize" where
  "ser_func P d t = (if t = T_string then string_ser P d else trivial_ser P d t)"

definition deser_func :: "('b, 'p) platform \<Rightarrow> nat \<Rightarrow> (cty \<Rightarrow> byte list) \<Rightarrow> cty \<Rightarrow> ('b, 'p) any_deserialize" where
  "deser_func P d junk t = (if t = T_string then string_deser P d else trivial_deser P d junk t)"

definition register_entry ::
  "('b, 'p) platform \<Rightarrow> nat \<Rightarrow> (cty \<Rightarrow> byte list) \<Rightarrow> cty \<times> string \<Rightarrow>
   ('b, 'p) any_registry \<Rightarrow> ('b, 'p) any_registry" where
  "register_entry P d junk e =
     register_type (fst e) (string_bytes (snd e)) (ser_func P d (fst e)) (deser_func P d junk (fst e))"

text \<open>What the initialiser of \<open>te\<close> registers, in its order; \<open>int32_t\<close> is \<open>int\<close>.\<close>

definition registered :: "(cty \<times> string) list" where
  "registered = [(T_int, ''int''), (T_float, ''float''), (T_string, ''std_string''),
     (T_uint8, ''uint8_t''), (T_int8, ''int8_t''), (T_uint16, ''uint16_t''), (T_int16, ''int16_t''),
     (T_uint32, ''uint32_t''), (T_uint64, ''uint64_t''), (T_int64, ''int64_t''), (T_double, ''double''),
     (T_long_double, ''long_double'')]"

definition registry :: "('b, 'p) platform \<Rightarrow> nat \<Rightarrow> (cty \<Rightarrow> byte list) \<Rightarrow> ('b, 'p) any_registry" where
  "registry P d junk = fold (register_entry P d junk) registered empty_registry"

section \<open>Serialising an any\<close>

definition serialize_any ::
  "('b, 'p) platform \<Rightarrow> nat \<Rightarrow> ('b, 'p) any_registry \<Rightarrow> ('b, 'p) any_serialize" where
  "serialize_any P d R a s w = (case a of
     None \<Rightarrow> put_bool P d False s w
   | Some (t, v) \<Rightarrow> (case serializers R t of
       None \<Rightarrow> put_bool P d False s w
     | Some ser \<Rightarrow> (case type_to_stable_name R t of
         None \<Rightarrow> put_bool P d False s w
       | Some stable_name \<Rightarrow>
           bindE (put_bool P d True s w) (\<lambda>(s, w).
           bindE (serialize_string P d stable_name s w) (\<lambda>(s, w). ser a s w)))))"

definition deserialize_any ::
  "('b, 'p) platform \<Rightarrow> nat \<Rightarrow> ('b, 'p) any_registry \<Rightarrow> ('b, 'p) any_deserialize" where
  "deserialize_any P d R a s w =
     bindE (get_bool P d s w) (\<lambda>(present, s, w).
       if last_did_not_read_whole_size s then Inr (a, s, w)
       else if \<not> present then Inr (a, s, w)
       else bindE (deserialize_string P d [] s w) (\<lambda>(stable_name, s, w).
         if last_did_not_read_whole_size s then Inr (a, s, w)
         else case stable_name_to_type R stable_name of
           None \<Rightarrow> Inl (Runtime_error (''no stable_name type found by: '' @ bytes_string stable_name))
         | Some t \<Rightarrow> (case deserializers R t of
             None \<Rightarrow> Inl (Runtime_error (''no deserializer found for type: '' @ bytes_string stable_name))
           | Some deser \<Rightarrow> deser a s w)))"

section \<open>The registry's invariant\<close>

text \<open>
  Every name leads to a type that can be read back, every type that can be written has a name, and
  that name leads back to the type.
\<close>

definition registry_inv :: "('b, 'p) any_registry \<Rightarrow> bool" where
  "registry_inv R \<longleftrightarrow>
     (\<forall>n t. stable_name_to_type R n = Some t \<longrightarrow> deserializers R t \<noteq> None \<and> serializers R t \<noteq> None) \<and>
     (\<forall>t. serializers R t \<noteq> None \<longrightarrow> type_to_stable_name R t \<noteq> None) \<and>
     (\<forall>t n. type_to_stable_name R t = Some n \<longrightarrow> stable_name_to_type R n = Some t)"

lemma registry_inv_empty: "registry_inv empty_registry"
  by (simp add: registry_inv_def empty_registry_def)

text \<open>C36: registering a type keeps the registry consistent, whatever was registered before: a name, once
  given, keeps its type for ever, and a registered type can be written and read back under the name
  it was registered with last.\<close>

theorem any_registry_invariant:
  assumes "registry_inv R"
  shows "registry_inv (register_type t n ser deser R) \<and>
    (stable_name_to_type R m = Some u \<longrightarrow> stable_name_to_type (register_type t n ser deser R) m = Some u) \<and>
    (stable_name_to_type R n = None \<longrightarrow>
       type_to_stable_name (register_type t n ser deser R) t = Some n \<and>
       stable_name_to_type (register_type t n ser deser R) n = Some t)"
  using assms by (auto simp: registry_inv_def register_type_def)

theorem any_registry_invariant_witness:
  "registry_inv (register_type T_int [105] (trivial_ser demo_platform 1 T_int)
     (trivial_deser demo_platform 1 (\<lambda>t. []) T_int) empty_registry)"
  using any_registry_invariant [OF registry_inv_empty] by blast

section \<open>The registered types\<close>

lemma registered_name:
  "stable_name_to_type (register_type t n f g R) m =
   (case stable_name_to_type R m of Some u \<Rightarrow> Some u | None \<Rightarrow> if m = n then Some t else None)"
  by (auto simp: register_type_def split: option.splits)

lemma registered_type:
  assumes "stable_name_to_type R n = None"
  shows "serializers (register_type t n f g R) u = (if u = t then Some f else serializers R u)"
    and "deserializers (register_type t n f g R) u = (if u = t then Some g else deserializers R u)"
    and "type_to_stable_name (register_type t n f g R) u =
      (if u = t then Some n else type_to_stable_name R u)"
  using assms by (auto simp: register_type_def)

lemma fold_register_old:
  "m \<notin> string_bytes ` snd ` set es \<Longrightarrow>
   stable_name_to_type (fold (register_entry P d junk) es R) m = stable_name_to_type R m"
  by (induction es arbitrary: R) (auto simp: register_entry_def registered_name split: option.splits)

lemma fold_register:
  assumes "distinct (map fst es)" and "distinct (map snd es)" and "(t, n) \<in> set es"
    and "\<And>n. stable_name_to_type R n = None"
  shows "serializers (fold (register_entry P d junk) es R) t = Some (ser_func P d t) \<and>
    deserializers (fold (register_entry P d junk) es R) t = Some (deser_func P d junk t) \<and>
    type_to_stable_name (fold (register_entry P d junk) es R) t = Some (string_bytes n) \<and>
    stable_name_to_type (fold (register_entry P d junk) es R) (string_bytes n) = Some t"
  using assms(1-3)
proof (induction es rule: rev_induct)
  case (snoc e es)
  let ?R = "fold (register_entry P d junk) es R"
  have "string_bytes (snd e) \<notin> string_bytes ` snd ` set es"
    using snoc.prems(2) by (simp add: inj_image_mem_iff inj_def)
  then have f: "stable_name_to_type ?R (string_bytes (snd e)) = None"
    by (simp add: fold_register_old assms(4))
  have reg: "fold (register_entry P d junk) (es @ [e]) R = register_type (fst e) (string_bytes (snd e))
      (ser_func P d (fst e)) (deser_func P d junk (fst e)) ?R"
    by (simp add: register_entry_def [of P d junk e])
  show ?case
  proof (cases "e = (t, n)")
    case True
    then show ?thesis using f unfolding reg by (simp add: registered_name registered_type)
  next
    case False
    then have m: "(t, n) \<in> set es" using snoc.prems(3) by auto
    then have "t \<in> set (map fst es)" by force
    moreover have "fst e \<notin> set (map fst es)" using snoc.prems(1) by simp
    ultimately have "t \<noteq> fst e" by metis
    then show ?thesis using snoc.IH [OF _ _ m] snoc.prems(1,2) f unfolding reg
      by (simp add: registered_name registered_type)
  qed
qed simp

lemma registry_lookup:
  assumes "(t, n) \<in> set registered"
  shows "serializers (registry P d junk) t = Some (ser_func P d t) \<and>
    deserializers (registry P d junk) t = Some (deser_func P d junk t) \<and>
    type_to_stable_name (registry P d junk) t = Some (string_bytes n) \<and>
    stable_name_to_type (registry P d junk) (string_bytes n) = Some t"
  unfolding registry_def
  by (rule fold_register [OF _ _ assms]) (simp_all add: registered_def empty_registry_def)

section \<open>Round trip and errors\<close>

definition enc_value :: "cty \<Rightarrow> byte list \<Rightarrow> byte list" where
  "enc_value t v = (if t = T_string then enc_string v else v)"

definition enc_any :: "cty \<Rightarrow> string \<Rightarrow> byte list \<Rightarrow> byte list" where
  "enc_any t n v = [1] @ enc_string (string_bytes n) @ enc_value t v"

context serial_writer
begin

lemma delivers_ser_func: "delivers ok held app room (ser_func P d t (Some (t, v))) (enc_value t v)"
  using delivers_string [of v] delivers_value [of v]
  by (simp add: ser_func_def string_ser_def [abs_def] trivial_ser_def [abs_def] enc_value_def)

lemma delivers_any:
  assumes "(t, n) \<in> set registered"
  shows "delivers ok held app room (serialize_any P d (registry P d junk) (Some (t, v))) (enc_any t n v)"
proof -
  have "delivers ok held app room (\<lambda>s w. bindE (put_bool P d True s w) (\<lambda>(s, w).
      bindE (serialize_string P d (string_bytes n) s w) (\<lambda>(s, w). ser_func P d t (Some (t, v)) s w)))
      ([of_bool True] @ (enc_string (string_bytes n) @ enc_value t v))"
    by (rule delivers_append [OF delivers_bool delivers_append [OF delivers_string delivers_ser_func]])
  then show ?thesis
    using registry_lookup [OF assms, of P d junk]
    by (simp add: serialize_any_def [abs_def] enc_any_def)
qed

end

context serial_reader
begin

lemma consumes_deser_func:
  assumes "t \<noteq> T_string \<longrightarrow> length v = length (junk t)" and "length v < 2 ^ 63"
  shows "consumes ok ahead (deser_func P d junk t a) (enc_value t v) (Some (t, v))"
proof (cases "t = T_string")
  case True
  have "consumes ok ahead (\<lambda>s w. bindE (deserialize_string P d [] s w) (\<lambda>(v, s, w).
      if last_did_not_read_whole_size s then Inr (a, s, w) else Inr (Some (T_string, v), s, w)))
      (enc_string v @ []) (Some (T_string, v))"
    by (rule consumes_bind [OF consumes_string [OF assms(2)], where g = "\<lambda>v s w.
          if last_did_not_read_whole_size s then Inr (a, s, w) else Inr (Some (T_string, v), s, w)"])
      (rule consumes_checked [OF consumes_return])
  then show ?thesis using True by (simp add: deser_func_def string_deser_def [abs_def] enc_value_def)
next
  case False
  have "consumes ok ahead (\<lambda>s w. bindE (get_value P d (junk t) s w) (\<lambda>(v, s, w).
      if last_did_not_read_whole_size s then Inr (a, s, w) else Inr (Some (t, v), s, w)))
      (v @ []) (Some (t, v))"
    by (rule consumes_bind [OF consumes_value, where g = "\<lambda>v s w.
          if last_did_not_read_whole_size s then Inr (a, s, w) else Inr (Some (t, v), s, w)"])
      (use assms(1) False in simp, rule consumes_checked [OF consumes_return])
  then show ?thesis using False by (simp add: deser_func_def trivial_deser_def [abs_def] enc_value_def)
qed

lemma consumes_any:
  assumes "(t, n) \<in> set registered" and "t \<noteq> T_string \<longrightarrow> length v = length (junk t)"
    and "length v < 2 ^ 63"
  shows "consumes ok ahead (deserialize_any P d (registry P d junk) a) (enc_any t n v) (Some (t, v))"
proof -
  let ?R = "registry P d junk"
  have "\<forall>(t, n) \<in> set registered. length n < 2 ^ 63" by (simp add: registered_def)
  with assms(1) have n: "length (string_bytes n) < 2 ^ 63" by auto
  define look where "look = (\<lambda>nm. \<lambda>s w. if last_did_not_read_whole_size s then Inr (a, s, w)
         else case stable_name_to_type ?R nm of
           None \<Rightarrow> Inl (Runtime_error (''no stable_name type found by: '' @ bytes_string nm))
         | Some t \<Rightarrow> (case deserializers ?R t of
             None \<Rightarrow> Inl (Runtime_error (''no deserializer found for type: '' @ bytes_string nm))
           | Some deser \<Rightarrow> deser a s w))"
  define body where "body = (\<lambda>s w. bindE (deserialize_string P d [] s w) (\<lambda>(nm, s, w). look nm s w))"
  define top where "top = (\<lambda>present s w. if last_did_not_read_whole_size s then Inr (a, s, w)
       else if \<not> present then Inr (a, s, w) else body s w)"
  have "consumes ok ahead (look (string_bytes n)) (enc_value t v) (Some (t, v))"
    unfolding look_def
    by (rule consumes_checked)
      (use consumes_deser_func [of t v junk a] assms(2,3) registry_lookup [OF assms(1), of P d junk] in simp)
  then have "consumes ok ahead body (enc_string (string_bytes n) @ enc_value t v) (Some (t, v))"
    unfolding body_def by (rule consumes_bind [OF consumes_string [OF n]])
  then have "consumes ok ahead (top True) (enc_string (string_bytes n) @ enc_value t v) (Some (t, v))"
    unfolding top_def by (intro consumes_checked) simp
  from consumes_bind [OF consumes_bool [of True], of top, OF this]
  show ?thesis
    unfolding deserialize_any_def [abs_def] enc_any_def top_def body_def look_def by simp
qed

end

text \<open>C11: a value of a registered type put into an \<open>any\<close> and serialised to memory that is large enough is
  read back, in any object of the library's registry, as an \<open>any\<close> of the same type and value,
  whatever the \<open>any\<close> read into held before.\<close>

theorem any_roundtrip:
  assumes "s = serial_buffer (int (length (regions w a))) (Some a) False"
    and "(t, n) \<in> set registered" and "length (enc_any t n v) \<le> length (regions w a)"
    and "length (regions w a) < 2 ^ 63"
    and "t \<noteq> T_string \<longrightarrow> length v = cty_size t" and "\<And>t. length (junk t) = cty_size t"
  shows "\<exists>s1 w1 s2 w2. serialize_any P (Suc d) (registry P (Suc d) junk) (Some (t, v)) s w = Inr (s1, w1) \<and>
    deserialize_any P (Suc d) (registry P (Suc d) junk) old s w1 = Inr (Some (t, v), s2, w2)"
proof (rule mem_roundtrip [OF mem_writer.delivers_any [OF assms(2)] _ assms(1,3,4)])
  have "length v \<le> length (enc_any t n v)" by (simp add: enc_any_def enc_value_def enc_string_def)
  then show "consumes mem_plain mem_ahead (deserialize_any P (Suc d) (registry P (Suc d) junk) old)
      (enc_any t n v) (Some (t, v))"
    using assms(3-6) by (intro mem_reader.consumes_any [OF assms(2)]) simp_all
qed

theorem any_roundtrip_witness:
  "\<exists>s1 w1 s2 w2. serialize_any demo_platform 1
       (registry demo_platform 1 (\<lambda>t. replicate (cty_size t) 0)) (Some (T_int, [1, 2, 3, 4]))
       (serial_buffer 64 (Some 0) False) big_world = Inr (s1, w1) \<and>
     deserialize_any demo_platform 1 (registry demo_platform 1 (\<lambda>t. replicate (cty_size t) 0)) None
       (serial_buffer 64 (Some 0) False) w1 = Inr (Some (T_int, [1, 2, 3, 4]), s2, w2)"
  unfolding One_nat_def
  by (rule any_roundtrip [of _ _ 0 _ "''int''"])
    (simp_all add: big_world_def registered_def enc_any_def enc_value_def enc_string_def)

text \<open>C37: an \<open>any\<close> that is empty, or of a type nobody registered, is written as a single false and read
  back as nothing: the \<open>any\<close> read into keeps its value.\<close>

theorem any_unregistered:
  assumes "s = serial_buffer (int (length (regions w a))) (Some a) False"
    and "1 \<le> length (regions w a)" and "length (regions w a) < 2 ^ 63"
    and "x = None \<or> (\<exists>t v. x = Some (t, v) \<and> serializers R t = None)"
  shows "\<exists>s1 w1 s2 w2. serialize_any P (Suc d) R x s w = Inr (s1, w1) \<and>
    deserialize_any P (Suc d) R old s w1 = Inr (old, s2, w2)"
proof (rule mem_roundtrip [OF _ _ assms(1) _ assms(3)])
  show "delivers mem_plain mem_held add_held mem_room (serialize_any P (Suc d) R x) [of_bool False]"
    using mem_writer.delivers_bool [of P d False] assms(4)
    by (auto simp: serialize_any_def [abs_def])
  have "consumes mem_plain mem_ahead (\<lambda>s w. bindE (get_bool P (Suc d) s w) (\<lambda>(p, s, w).
       if last_did_not_read_whole_size s then Inr (old, s, w) else
       if \<not> p then Inr (old, s, w) else g s w)) ([of_bool False] @ []) old" for g
    by (rule mem_reader.consumes_bind [OF mem_reader.consumes_bool [of _ _ False], where g = "\<lambda>p s w.
          if last_did_not_read_whole_size s then Inr (old, s, w) else
          if \<not> p then Inr (old, s, w) else g s w"])
      (intro mem_reader.consumes_checked, simp add: mem_reader.consumes_return)
  then show "consumes mem_plain mem_ahead (deserialize_any P (Suc d) R old) [of_bool False] old"
    by (simp add: deserialize_any_def [abs_def])
qed (use assms(2) in simp)

theorem any_unregistered_witness:
  "\<exists>s1 w1 s2 w2. serialize_any demo_platform 1 empty_registry (Some (T_other 3, [1, 2, 3]))
       (serial_buffer 64 (Some 0) False) big_world = Inr (s1, w1) \<and>
     deserialize_any demo_platform 1 empty_registry (Some (T_int, [0, 0, 0, 0]))
       (serial_buffer 64 (Some 0) False) w1 = Inr (Some (T_int, [0, 0, 0, 0]), s2, w2)"
  unfolding One_nat_def
  by (rule any_unregistered [of _ _ 0]) (simp_all add: big_world_def empty_registry_def)

end
