(* ===== verification/Serial_Types.thy ===== *)
theory Serial_Types
  imports Serial_Codec
begin

text \<open>
  The types Serial.cpp registers with \<open>REGISTER_SERIAL\<close>, vectors of scalars and of strings and maps of strings to
  paths, and the version macros of Serial.hpp.
\<close>

section \<open>Registered types\<close>

text \<open>
  A scalar is its bytes; how many it has is the platform's.  \<open>uninit\<close> is what a variable of the type holds before
  it is set, one byte for each of its size.
\<close>

datatype scalar =
    Void_pointer | Char | Uint8 | Short | Uint16 | Int | Uint32 | Long | Long_long | Uint64 | Float | Double | Long_double

datatype reg_type = Vector_scalar scalar | Vector_string | StringPathUM

datatype reg_value =
    Scalars scalar "byte list list"
  | Strings "byte list list"
  | Paths "(byte list \<times> byte list) list"

text \<open>What is read; a map is a map, whatever order it was written in.\<close>

datatype reg_read =
    Read_scalars scalar "byte list list"
  | Read_strings "byte list list"
  | Read_paths "byte list \<Rightarrow> byte list option"

fun serialize_registered ::
  "('b, 'p) platform \<Rightarrow> nat \<Rightarrow> reg_value \<Rightarrow> serial \<Rightarrow> ('b, 'p) world \<Rightarrow> (serial \<times> ('b, 'p) world) cpp" where
  "serialize_registered P d (Scalars t xs) s w = serialize_vector P d (put_value P d) xs s w"
| "serialize_registered P d (Strings xs) s w = serialize_vector P d (serialize_string P d) xs s w"
| "serialize_registered P d (Paths kv) s w =
     serialize_unordered_map P d (serialize_string P d) (serialize_path P d) kv s w"

fun deserialize_registered ::
  "('b, 'p) platform \<Rightarrow> nat \<Rightarrow> nat \<Rightarrow> (scalar \<Rightarrow> byte list) \<Rightarrow> reg_type \<Rightarrow> serial \<Rightarrow> ('b, 'p) world \<Rightarrow>
   (reg_read \<times> serial \<times> ('b, 'p) world) cpp" where
  "deserialize_registered P d max_size uninit (Vector_scalar t) s w =
     bindE (deserialize_vector P d max_size (get_value P d (uninit t)) [] s w) (\<lambda>(x, s, w). Inr (Read_scalars t x, s, w))"
| "deserialize_registered P d max_size uninit Vector_string s w =
     bindE (deserialize_vector P d max_size (deserialize_string P d []) [] s w) (\<lambda>(x, s, w). Inr (Read_strings x, s, w))"
| "deserialize_registered P d max_size uninit StringPathUM s w =
     bindE (deserialize_unordered_map P d (deserialize_string P d []) (deserialize_path P d []) Map.empty s w)
       (\<lambda>(x, s, w). Inr (Read_paths x, s, w))"

text \<open>Values one after the other.\<close>

fun deserialize_all ::
  "('b, 'p) platform \<Rightarrow> nat \<Rightarrow> nat \<Rightarrow> (scalar \<Rightarrow> byte list) \<Rightarrow> reg_type list \<Rightarrow> serial \<Rightarrow> ('b, 'p) world \<Rightarrow>
   (reg_read list \<times> serial \<times> ('b, 'p) world) cpp" where
  "deserialize_all P d max_size uninit [] s w = Inr ([], s, w)"
| "deserialize_all P d max_size uninit (t # ts) s w =
     bindE (deserialize_registered P d max_size uninit t s w) (\<lambda>(v, s, w).
     bindE (deserialize_all P d max_size uninit ts s w) (\<lambda>(vs, s, w). Inr (v # vs, s, w)))"

section \<open>Versions\<close>

text \<open>
  The functions the macros make: a version, then a \<open>switch\<close>.  A statement falls through to the next case, breaks
  or returns; the \<open>switch\<close> ends in \<open>return true\<close>.  The variables the lambda captures are a state.
\<close>

datatype flow = Fall | Break | Returns bool

type_synonym ('c, 'w) case_statement = "'c \<Rightarrow> serial \<Rightarrow> 'w \<Rightarrow> (flow \<times> 'c \<times> serial \<times> 'w) cpp"

fun run_cases ::
  "(nat \<times> ('c, 'w) case_statement) list \<Rightarrow> 'c \<Rightarrow> serial \<Rightarrow> 'w \<Rightarrow> (bool \<times> 'c \<times> serial \<times> 'w) cpp" where
  "run_cases [] c s w = Inr (True, c, s, w)"
| "run_cases ((l, st) # cs) c s w = bindE (st c s w) (\<lambda>(f, c, s, w). case f of
     Fall \<Rightarrow> run_cases cs c s w
   | Break \<Rightarrow> Inr (True, c, s, w)
   | Returns r \<Rightarrow> Inr (r, c, s, w))"

definition serialize_version ::
  "('b, 'p) platform \<Rightarrow> nat \<Rightarrow> (nat \<times> ('c, ('b, 'p) world) case_statement) list \<Rightarrow> nat \<Rightarrow> 'c \<Rightarrow> serial \<Rightarrow>
   ('b, 'p) world \<Rightarrow> (bool \<times> 'c \<times> serial \<times> ('b, 'p) world) cpp" where
  "serialize_version P d cases v c s w = bindE (put_size P d v s w) (\<lambda>(s, w).
     run_cases (dropWhile (\<lambda>k. fst k \<noteq> v) cases) c s w)"

definition deserialize_version ::
  "('b, 'p) platform \<Rightarrow> nat \<Rightarrow> (nat \<times> ('c, ('b, 'p) world) case_statement) list \<Rightarrow> 'c \<Rightarrow> serial \<Rightarrow>
   ('b, 'p) world \<Rightarrow> (bool \<times> 'c \<times> serial \<times> ('b, 'p) world) cpp" where
  "deserialize_version P d cases c s w = bindE (get_size P d 0 s w) (\<lambda>(v, s, w).
     run_cases (dropWhile (\<lambda>k. fst k \<noteq> v) cases) c s w)"

section \<open>Round trips\<close>

fun reg_of :: "reg_value \<Rightarrow> reg_type" where
  "reg_of (Scalars t xs) = Vector_scalar t"
| "reg_of (Strings xs) = Vector_string"
| "reg_of (Paths kv) = StringPathUM"

fun read_of :: "reg_value \<Rightarrow> reg_read" where
  "read_of (Scalars t xs) = Read_scalars t xs"
| "read_of (Strings xs) = Read_strings xs"
| "read_of (Paths kv) = Read_paths (map_of kv)"

fun enc_reg :: "reg_value \<Rightarrow> byte list" where
  "enc_reg (Scalars t xs) = enc_vector (\<lambda>x. x) xs"
| "enc_reg (Strings xs) = enc_vector enc_string xs"
| "enc_reg (Paths kv) = enc_vector (enc_pair enc_string enc_string) kv"

fun reg_ok :: "(scalar \<Rightarrow> byte list) \<Rightarrow> nat \<Rightarrow> reg_value \<Rightarrow> bool" where
  "reg_ok uninit max_size (Scalars t xs) \<longleftrightarrow> length xs \<le> max_size \<and> uninit t \<noteq> [] \<and> (\<forall>x \<in> set xs. length x = length (uninit t))"
| "reg_ok uninit max_size (Strings xs) \<longleftrightarrow> length xs \<le> max_size"
| "reg_ok uninit max_size (Paths kv) \<longleftrightarrow> distinct (map fst kv)"

context serial_writer
begin

lemma delivers_registered: "delivers ok held app room (serialize_registered P d v) (enc_reg v)"
proof (cases v)
  case (Scalars t xs)
  have "delivers ok held app room (serialize_vector P d (put_value P d) xs) (enc_vector (\<lambda>x. x) xs)"
    by (intro delivers_vector delivers_value)
  then show ?thesis by (simp add: Scalars delivers_def)
next
  case (Strings xs)
  have "delivers ok held app room (serialize_vector P d (serialize_string P d) xs) (enc_vector enc_string xs)"
    by (intro delivers_vector delivers_string)
  then show ?thesis by (simp add: Strings delivers_def)
next
  case (Paths kv)
  have "delivers ok held app room (serialize_unordered_map P d (serialize_string P d) (serialize_path P d) kv)
      (enc_vector (enc_pair enc_string enc_string) kv)"
    unfolding serialize_path_def [abs_def] by (rule delivers_unordered_map) (simp add: delivers_string)
  then show ?thesis by (simp add: Paths delivers_def)
qed

end

context serial_reader
begin

lemma consumes_map:
  assumes "consumes ok ahead g bs v"
  shows "consumes ok ahead (\<lambda>s w. bindE (g s w) (\<lambda>(x, s, w). Inr (f x, s, w))) bs (f v)"
  using assms by (fastforce simp: consumes_def)

lemma consumes_registered:
  assumes "reg_ok uninit max_size v" and "length (enc_reg v) < 2 ^ 63"
  shows "consumes ok ahead (deserialize_registered P d max_size uninit (reg_of v)) (enc_reg v) (read_of v)"
proof (cases v)
  case (Scalars t xs)
  have "length xs \<le> length (enc_vector (\<lambda>x. x) xs)"
    by (rule enc_vector_longer) (use assms(1) in \<open>auto simp: Scalars Suc_le_eq\<close>)
  then have n: "length xs < 2 ^ 64" using assms(2) by (simp add: Scalars)
  have "consumes ok ahead (deserialize_vector P d max_size (get_value P d (uninit t)) []) (enc_vector (\<lambda>x. x) xs) ([] @ xs)"
    by (rule consumes_vector [OF n]) (use assms(1) in \<open>auto simp: Scalars intro: consumes_value\<close>)
  from consumes_map [OF this, of "Read_scalars t"] show ?thesis by (simp add: Scalars consumes_def)
next
  case (Strings xs)
  have "length xs \<le> length (enc_vector enc_string xs)"
    by (rule enc_vector_longer) (simp add: enc_string_def)
  then have n: "length xs < 2 ^ 64" using assms(2) by (simp add: Strings)
  have "length x < 2 ^ 63" if "x \<in> set xs" for x
    using enc_vector_member [OF that, of enc_string] assms(2) by (simp add: Strings enc_string_def)
  then have "consumes ok ahead (deserialize_vector P d max_size (deserialize_string P d []) []) (enc_vector enc_string xs) ([] @ xs)"
    by (intro consumes_vector [OF n]) (use assms(1) in \<open>auto simp: Strings intro: consumes_string\<close>)
  from consumes_map [OF this, of Read_strings] show ?thesis by (simp add: Strings consumes_def)
next
  case (Paths kv)
  let ?e = "enc_pair enc_string enc_string"
  have "length kv \<le> length (enc_vector ?e kv)"
    by (rule enc_vector_longer) (simp add: enc_pair_def enc_string_def)
  then have n: "length kv < 2 ^ 64" using assms(2) by (simp add: Paths)
  have b: "length k < 2 ^ 63" "length v < 2 ^ 63" if "(k, v) \<in> set kv" for k v
    using enc_pair_member [OF that, of enc_string enc_string] assms(2) by (simp_all add: Paths enc_string_def)
  have "consumes ok ahead (get_pair (deserialize_string P d []) (deserialize_path P d [])) (?e x) x" if "x \<in> set kv" for x
    using b [of "fst x" "snd x"] that consumes_pair [OF consumes_string consumes_path, of "fst x" "snd x"]
    by (simp add: enc_pair_def)
  from consumes_counted [OF n this, where add = "\<lambda>(k, v) kv. kv(k \<mapsto> v)" and st = Map.empty]
  have "consumes ok ahead (deserialize_unordered_map P d (deserialize_string P d []) (deserialize_path P d []) Map.empty)
      (enc_vector ?e kv) (map_of kv)"
    using assms(1) by (simp add: deserialize_unordered_map_def [abs_def] fold_map_update_distinct Paths)
  from consumes_map [OF this, of Read_paths] show ?thesis by (simp add: Paths consumes_def)
qed

lemma consumes_registered_all:
  assumes "\<forall>v \<in> set vs. reg_ok uninit max_size v" and "length (concat (map enc_reg vs)) < 2 ^ 63"
  shows "consumes ok ahead (deserialize_all P d max_size uninit (map reg_of vs)) (concat (map enc_reg vs)) (map read_of vs)"
  using assms
proof (induction vs)
  case Nil
  show ?case by (simp add: consumes_def)
next
  case (Cons v vs)
  have "consumes ok ahead (deserialize_registered P d max_size uninit (reg_of v)) (enc_reg v) (read_of v)"
    by (rule consumes_registered) (use Cons.prems in auto)
  moreover have "consumes ok ahead (deserialize_all P d max_size uninit (map reg_of vs)) (concat (map enc_reg vs)) (map read_of vs)"
    by (rule Cons.IH) (use Cons.prems in auto)
  from consumes_map [OF this, of "\<lambda>xs. read_of v # xs"]
  have "consumes ok ahead (\<lambda>s w. bindE (deserialize_all P d max_size uninit (map reg_of vs) s w)
      (\<lambda>(xs, s, w). Inr (read_of v # xs, s, w))) (concat (map enc_reg vs)) (read_of v # map read_of vs)" .
  ultimately have "consumes ok ahead (\<lambda>s w. bindE (deserialize_registered P d max_size uninit (reg_of v) s w) (\<lambda>(x, s, w).
      bindE (deserialize_all P d max_size uninit (map reg_of vs) s w) (\<lambda>(xs, s, w). Inr (x # xs, s, w))))
      (enc_reg v @ concat (map enc_reg vs)) (read_of v # map read_of vs)"
    by (rule consumes_bind [where g = "\<lambda>x s w. bindE (deserialize_all P d max_size uninit (map reg_of vs) s w)
      (\<lambda>(xs, s, w). Inr (x # xs, s, w))"])
  then show ?case by (simp add: consumes_def)
qed

end

text \<open>C7: any sequence of values of the registered types, vectors of scalars of any kind, vectors of strings and maps
  of strings to paths, written one after the other to memory that is large enough, is read back value by value
  as it was written, maps as the same maps.\<close>

theorem serial_registered_roundtrip:
  assumes "s = serial_buffer (int (length (regions w a))) (Some a) False"
    and "length (concat (map enc_reg vs)) \<le> length (regions w a)" and "length (regions w a) < 2 ^ 63"
    and "\<forall>v \<in> set vs. reg_ok uninit max_size v"
  shows "\<exists>s1 w1 s2 w2. put_all (serialize_registered P (Suc d)) vs s w = Inr (s1, w1) \<and>
    deserialize_all P (Suc d) max_size uninit (map reg_of vs) s w1 = Inr (map read_of vs, s2, w2)"
proof (rule mem_roundtrip [OF _ _ assms(1-3)])
  show "delivers mem_plain mem_held add_held mem_room (put_all (serialize_registered P (Suc d)) vs)
      (concat (map enc_reg vs))"
    by (intro mem_writer.delivers_all mem_writer.delivers_registered)
  show "consumes mem_plain mem_ahead (deserialize_all P (Suc d) max_size uninit (map reg_of vs))
      (concat (map enc_reg vs)) (map read_of vs)"
    by (rule mem_reader.consumes_registered_all) (use assms in simp_all)
qed

theorem serial_registered_roundtrip_witness:
  "\<exists>s1 w1 s2 w2. put_all (serialize_registered demo_platform 1)
       [Scalars Short [[1, 2], [3, 4]], Strings [[104, 105]], Paths [([1], [2])]] (serial_buffer 64 (Some 0) False) big_world =
       Inr (s1, w1) \<and>
     deserialize_all demo_platform 1 1000 (\<lambda>t. [0, 0]) [Vector_scalar Short, Vector_string, StringPathUM]
       (serial_buffer 64 (Some 0) False) w1 =
       Inr ([Read_scalars Short [[1, 2], [3, 4]], Read_strings [[104, 105]], Read_paths [[1] \<mapsto> [2]]], s2, w2)"
proof -
  let ?vs = "[Scalars Short [[1, 2], [3, 4]], Strings [[104, 105]], Paths [([1], [2])]]"
  have "\<exists>s1 w1 s2 w2. put_all (serialize_registered demo_platform (Suc 0)) ?vs (serial_buffer 64 (Some 0) False) big_world =
       Inr (s1, w1) \<and>
     deserialize_all demo_platform (Suc 0) 1000 (\<lambda>t. [0, 0]) (map reg_of ?vs)
       (serial_buffer 64 (Some 0) False) w1 = Inr (map read_of ?vs, s2, w2)"
    by (rule serial_registered_roundtrip)
      (simp_all add: big_world_def enc_vector_def enc_string_def enc_pair_def)
  then show ?thesis by simp
qed

text \<open>
  A value written by the case of a version is read by the case of the same version, when each case returns: the
  other cases do not run.
\<close>

lemma run_cases_return:
  assumes "map_of cases v = Some st" and "st c s w = Inr (Returns r, c', s', w')"
  shows "run_cases (dropWhile (\<lambda>k. fst k \<noteq> v) cases) c s w = Inr (r, c', s', w')"
  using assms by (induction cases) (auto split: if_splits)

lemma serial_version_roundtrip:
  assumes "s = serial_buffer (int (length (regions w a))) (Some a) False"
    and "8 + length (enc_reg x) \<le> length (regions w a)" and "length (regions w a) < 2 ^ 63"
    and "reg_ok uninit max_size x" and "v < 2 ^ 64" and "map_of wcases v = Some wst" and "map_of rcases v = Some rst"
    and "\<And>c s w. wst c s w = bindE (serialize_registered P (Suc d) x s w) (\<lambda>(s, w). Inr (Returns b, c, s, w))"
    and "\<And>c s w. rst c s w = bindE (deserialize_registered P (Suc d) max_size uninit (reg_of x) s w)
      (\<lambda>(y, s, w). Inr (Returns b', y # c, s, w))"
  shows "\<exists>s1 w1 s2 w2. serialize_version P (Suc d) wcases v c s w = Inr (b, c, s1, w1) \<and>
    deserialize_version P (Suc d) rcases [] s w1 = Inr (b', [read_of x], s2, w2)"
proof -
  have put: "delivers mem_plain mem_held add_held mem_room
      (\<lambda>s w. bindE (put_size P (Suc d) v s w) (\<lambda>(s, w). serialize_registered P (Suc d) x s w)) (le_bytes 8 v @ enc_reg x)"
    by (rule mem_writer.delivers_append [OF mem_writer.delivers_size mem_writer.delivers_registered])
  have get: "consumes mem_plain mem_ahead
      (\<lambda>s w. bindE (get_size P (Suc d) 0 s w) (\<lambda>(n, s, w).
        bindE (deserialize_registered P (Suc d) max_size uninit (reg_of x) s w) (\<lambda>(y, s, w). Inr ((n, y), s, w))))
      (le_bytes 8 v @ enc_reg x) (v, read_of x)"
    by (rule mem_reader.consumes_bind [OF mem_reader.consumes_size [OF assms(5)], where g = "\<lambda>n s w.
        bindE (deserialize_registered P (Suc d) max_size uninit (reg_of x) s w) (\<lambda>(y, s, w). Inr ((n, y), s, w))"])
      (rule mem_reader.consumes_map [OF mem_reader.consumes_registered], use assms in simp_all)
  obtain s1 w1 s2 w2 where r:
      "bindE (put_size P (Suc d) v s w) (\<lambda>(s, w). serialize_registered P (Suc d) x s w) = Inr (s1, w1)"
      "bindE (get_size P (Suc d) 0 s w1) (\<lambda>(n, s, w).
        bindE (deserialize_registered P (Suc d) max_size uninit (reg_of x) s w) (\<lambda>(y, s, w). Inr ((n, y), s, w))) =
        Inr ((v, read_of x), s2, w2)"
    using mem_roundtrip [OF put get assms(1) _ assms(3)] assms(2) by auto
  from r(1) obtain s3 w3 where p: "put_size P (Suc d) v s w = Inr (s3, w3)"
      "serialize_registered P (Suc d) x s3 w3 = Inr (s1, w1)" by (auto simp: bindE_eq_Inr)
  from r(2) obtain s4 w4 where g: "get_size P (Suc d) 0 s w1 = Inr (v, s4, w4)"
      "deserialize_registered P (Suc d) max_size uninit (reg_of x) s4 w4 = Inr (read_of x, s2, w2)"
    by (auto simp: bindE_eq_Inr)
  have "serialize_version P (Suc d) wcases v c s w = Inr (b, c, s1, w1)"
    using run_cases_return [OF assms(6), of c s3 w3 b c s1 w1] p assms(8) by (simp add: serialize_version_def)
  moreover have "deserialize_version P (Suc d) rcases [] s w1 = Inr (b', [read_of x], s2, w2)"
    using run_cases_return [OF assms(7), of "[]" s4 w4 b' "[read_of x]" s2 w2] g assms(9)
    by (simp add: deserialize_version_def)
  ultimately show ?thesis by blast
qed

end
