(* ===== verification/Ipv4.thy ===== *)
theory Ipv4
  imports Cpp_String
begin

text \<open>
  \<open>string_is_ipv4\<close> and \<open>resolve_host_or_ip_to_ip\<close>: which strings are taken for addresses, and what
  becomes of the others.
\<close>

section \<open>The test\<close>

text \<open>The loop over the characters: the four segments collected so far and the index of the current one.\<close>

fun ipv4_loop :: "string \<Rightarrow> string list \<Rightarrow> nat \<Rightarrow> (string list \<times> nat) option" where
  "ipv4_loop [] segments segmentIndex = Some (segments, segmentIndex)"
| "ipv4_loop (ch # cs) segments segmentIndex =
     (if is_digit ch then
        (let segment = segments ! segmentIndex @ [ch]
         in if length segment > 3 then None
            else ipv4_loop cs (segments[segmentIndex := segment]) segmentIndex)
      else if ch = CHR ''.'' then
        (if segmentIndex \<ge> 3 then None else ipv4_loop cs segments (Suc segmentIndex))
      else None)"

text \<open>The loop over the four segments.\<close>

fun check_segments :: "string list \<Rightarrow> bool cpp" where
  "check_segments [] = Inr True"
| "check_segments (s # ss) =
     (if s = [] then Inr False
      else bindE (stoll s) (\<lambda>segy. if segy > 255 \<or> segy < 0 then Inr False else check_segments ss))"

definition string_is_ipv4 :: "string \<Rightarrow> bool cpp" where
  "string_is_ipv4 s =
     (if s = [] then Inr False
      else case ipv4_loop s (replicate 4 []) 0 of
        None \<Rightarrow> Inr False
      | Some (segments, segmentIndex) \<Rightarrow>
          if segmentIndex \<noteq> 3 then Inr False else check_segments segments)"

text \<open>Resolution, given the answers of the system's name service.\<close>

definition resolve_host_or_ip_to_ip :: "(string \<Rightarrow> string list) \<Rightarrow> string \<Rightarrow> string cpp" where
  "resolve_host_or_ip_to_ip queryA host =
     bindE (string_is_ipv4 host) (\<lambda>is_ip.
       if is_ip then Inr host
       else case queryA host of
         ip # ips \<Rightarrow> Inr ip
       | [] \<Rightarrow> Inl (Runtime_error (''Could not find ip for host: '' @ host)))"

section \<open>What is accepted\<close>

definition octet :: "string \<Rightarrow> bool" where
  "octet s \<longleftrightarrow> s \<noteq> [] \<and> length s \<le> 3 \<and> (\<forall>c \<in> set s. is_digit c) \<and> dec_val s \<le> 255"

fun split_dot :: "string \<Rightarrow> string list" where
  "split_dot [] = [[]]"
| "split_dot (c # cs) = (if c = CHR ''.'' then [] # split_dot cs
     else (c # hd (split_dot cs)) # tl (split_dot cs))"

lemma split_dot_ne [simp]: "split_dot s \<noteq> []"
  by (cases s) auto

lemma split_dot_no_dot: "CHR ''.'' \<notin> set s \<Longrightarrow> split_dot s = [s]"
  by (induction s) auto

lemma split_dot_append: "CHR ''.'' \<notin> set a \<Longrightarrow> split_dot (a @ CHR ''.'' # rest) = a # split_dot rest"
  by (induction a) auto

lemma split_dot_join: "s = hd (split_dot s) @ concat (map ((#) CHR ''.'') (tl (split_dot s)))"
proof (induction s)
  case (Cons c s)
  obtain p ps where "split_dot s = p # ps" by (meson neq_Nil_conv split_dot_ne)
  with Cons show ?case by simp
qed simp

lemma split_dot_digits:
  "(\<forall>c \<in> set s. is_digit c \<or> c = CHR ''.'') \<longleftrightarrow> (\<forall>p \<in> set (split_dot s). \<forall>c \<in> set p. is_digit c)"
proof (induction s)
  case (Cons c s)
  obtain p ps where "split_dot s = p # ps" by (meson neq_Nil_conv split_dot_ne)
  with Cons show ?case by (auto simp: is_digit_def)
qed simp

lemma dot_no_digit [simp]: "\<not> is_digit CHR ''.''"
  by (simp add: is_digit_def)

text \<open>What the first loop computes, from \<open>k\<close> finished segments and a current one.\<close>

definition seg_result :: "string list \<Rightarrow> string \<Rightarrow> string list \<Rightarrow> (string list \<times> nat) option" where
  "seg_result ps cur parts =
     (let all = ps @ (cur @ hd parts) # tl parts
      in if length all \<le> 4 \<and> (\<forall>p \<in> set parts. \<forall>c \<in> set p. is_digit c) \<and>
           (\<forall>p \<in> set ((cur @ hd parts) # tl parts). length p \<le> 3)
         then Some (all @ replicate (4 - length all) [], length all - 1) else None)"

lemma ipv4_loop_eq:
  "length ps \<le> 3 \<Longrightarrow> length cur \<le> 3 \<Longrightarrow>
   ipv4_loop s (ps @ cur # replicate (3 - length ps) []) (length ps) = seg_result ps cur (split_dot s)"
proof (induction s arbitrary: ps cur)
  case Nil
  then show ?case by (simp add: seg_result_def)
next
  case (Cons c s)
  obtain p qs where sp: "split_dot s = p # qs" by (meson neq_Nil_conv split_dot_ne)
  show ?case
  proof (cases "is_digit c")
    case True
    then have nd: "c \<noteq> CHR ''.''" by auto
    show ?thesis
    proof (cases "length cur = 3")
      case full: True
      then have "\<not> length (cur @ c # p) \<le> 3" by simp
      then show ?thesis using True nd full by (simp add: seg_result_def sp nth_append)
    next
      case False
      then have "length (cur @ [c]) \<le> 3" using Cons.prems by simp
      from Cons.IH [OF Cons.prems(1) this] show ?thesis
        using True nd False Cons.prems by (simp add: seg_result_def sp nth_append list_update_append)
    qed
  next
    case False
    show ?thesis
    proof (cases "c = CHR ''.''")
      case True
      show ?thesis
      proof (cases "length ps = 3")
        case full: True
        then show ?thesis using True by (simp add: seg_result_def sp)
      next
        case notfull: False
        then have k: "length (ps @ [cur]) \<le> 3" using Cons.prems by simp
        have "cur # replicate (3 - length ps) [] = cur # [] # replicate (3 - length (ps @ [cur])) []"
          using k by (simp add: Suc_diff_le replicate_Suc [symmetric] del: replicate_Suc)
        then show ?thesis using Cons.IH [OF k, of "[]"] True notfull Cons.prems
          by (auto simp: seg_result_def sp)
      qed
    next
      case False
      then show ?thesis using \<open>\<not> is_digit c\<close> by (simp add: seg_result_def)
    qed
  qed
qed

lemma dec_val_bound: "(\<forall>c \<in> set s. is_digit c) \<Longrightarrow> dec_val s < 10 ^ length s"
proof (induction s rule: rev_induct)
  case (snoc c s)
  have "(of_char c :: nat) \<le> 57" using snoc.prems by (simp add: is_digit_def)
  then have "digit_val c \<le> 9" by (simp add: digit_val_def)
  then show ?case using snoc by (simp add: dec_val_snoc)
qed (simp add: dec_val_def)

lemma stoll_segment:
  assumes "s \<noteq> []" and "length s \<le> 3" and "\<forall>c \<in> set s. is_digit c"
  shows "stoll s = Inr (int (dec_val s))"
proof -
  have "dec_val s < 10 ^ length s" using assms(3) by (rule dec_val_bound)
  also have "\<dots> \<le> (10 :: nat) ^ 3" using assms(2) by (intro power_increasing) simp_all
  finally show ?thesis using parse_int_digits [OF assms(1,3)] by (simp add: stoll_def)
qed

lemma check_segments_eq:
  "(\<forall>s \<in> set ss. length s \<le> 3 \<and> (\<forall>c \<in> set s. is_digit c)) \<Longrightarrow>
   check_segments ss = Inr (\<forall>s \<in> set ss. octet s)"
  by (induction ss) (auto simp: stoll_segment octet_def)

lemma string_is_ipv4_parts:
  "string_is_ipv4 s = Inr (length (split_dot s) = 4 \<and> (\<forall>p \<in> set (split_dot s). octet p))"
proof (cases "s = []")
  case False
  obtain p ps where sp: "split_dot s = p # ps" by (meson neq_Nil_conv split_dot_ne)
  have "ipv4_loop s (replicate 4 []) 0 = seg_result [] [] (split_dot s)"
    using ipv4_loop_eq [of "[]" "[]" s] by (simp add: numeral_eq_Suc)
  moreover have "octet p \<Longrightarrow> length p \<le> 3 \<and> (\<forall>c \<in> set p. is_digit c)" for p by (simp add: octet_def)
  ultimately show ?thesis using False
    by (auto simp: string_is_ipv4_def seg_result_def sp Let_def check_segments_eq
        simp del: check_segments.simps)
qed (simp add: string_is_ipv4_def)

lemma octet_no_dot: "octet p \<Longrightarrow> CHR ''.'' \<notin> set p"
  by (auto simp: octet_def)

text \<open>C23: \<open>string_is_ipv4\<close> never throws, and accepts exactly four groups of one to three digits, none
  above 255, separated by single dots.\<close>

theorem string_is_ipv4_correct:
  "string_is_ipv4 s = Inr (\<exists>a b c d. s = a @ ''.'' @ b @ ''.'' @ c @ ''.'' @ d \<and>
     octet a \<and> octet b \<and> octet c \<and> octet d)"
proof -
  have "(length (split_dot s) = 4 \<and> (\<forall>p \<in> set (split_dot s). octet p)) \<longleftrightarrow>
    (\<exists>a b c d. s = a @ ''.'' @ b @ ''.'' @ c @ ''.'' @ d \<and> octet a \<and> octet b \<and> octet c \<and> octet d)"
    (is "?l = ?r")
  proof
    assume l: ?l
    then obtain a b c d where sp: "split_dot s = [a, b, c, d]"
      by (auto simp: length_Suc_conv numeral_eq_Suc)
    with l split_dot_join [of s] show ?r by auto
  next
    assume ?r
    then obtain a b c d where r: "s = a @ ''.'' @ b @ ''.'' @ c @ ''.'' @ d"
        "octet a" "octet b" "octet c" "octet d" by blast
    then have "split_dot s = [a, b, c, d]"
      by (simp add: octet_no_dot split_dot_append split_dot_no_dot)
    with r show ?l by simp
  qed
  then show ?thesis by (simp add: string_is_ipv4_parts)
qed

text \<open>Resolving a dotted address gives that address and asks no name service; any other name gives
  the first answer of the service, or a \<open>runtime_error\<close> naming the host when there is none.\<close>

theorem resolve_functional:
  "resolve_host_or_ip_to_ip queryA host =
    (if string_is_ipv4 host = Inr True then Inr host
     else if queryA host = [] then Inl (Runtime_error (''Could not find ip for host: '' @ host))
     else Inr (hd (queryA host)))"
proof -
  obtain x where "string_is_ipv4 host = Inr x" using string_is_ipv4_parts by blast
  then show ?thesis by (auto simp: resolve_host_or_ip_to_ip_def split: list.splits)
qed

text \<open>The dotted form of four bytes is accepted.\<close>

lemma to_string_length: "n < 1000 \<Longrightarrow> length (to_string n) \<le> 3"
proof -
  have s: "length (to_string n) = (if n < 10 then 1 else length (to_string (n div 10)) + 1)" for n
    by (simp add: to_string.simps [of n])
  assume "n < 1000"
  then show ?thesis by (simp add: s [of n] s [of "n div 10"] s [of "n div 10 div 10"])
qed

lemma octet_to_string: "n \<le> 255 \<Longrightarrow> octet (to_string n)"
  using to_string_digits [of n] to_string_length [of n] by (simp add: octet_def)

end
