(* ===== verification/Http.thy ===== *)
theory Http
  imports Serial_Codec Ipv4
begin

text \<open>
  The HTTP client: \<open>extractUri\<close>, a request on a \<open>Serial\<close>, a response from one, \<open>restSync\<close> with its
  redirections, and the table of asynchronous requests (http_common.cpp and http_client.cpp).
\<close>

section \<open>Requests and responses\<close>

text \<open>
  A body is a size and the memory it points to.  The order of a request's headers is that of the
  iteration of the \<open>unordered_map\<close>; a response's headers are looked up and set by key only.
\<close>

type_synonym body = "nat \<times> byte list option"

record http_request =
  rq_host :: string
  rq_verb :: string
  rq_path :: string
  rq_headers :: "(string \<times> string) list"
  rq_body :: body

record http_response =
  protocol :: string
  version :: string
  statusCode :: string
  statusText :: string
  headers :: "string \<Rightarrow> string option"
  body :: body

definition empty_response :: http_response where
  "empty_response = \<lparr>protocol = [], version = [], statusCode = [], statusText = [],
     headers = Map.empty, body = (0, None)\<rparr>"

definition CR :: char where "CR = CHR 0x0D"
definition LF :: char where "LF = CHR 0x0A"
definition CRLF :: string where "CRLF = [CR, LF]"

section \<open>Writing a request\<close>

definition request_header :: "http_request \<Rightarrow> string" where
  "request_header r =
     rq_verb r @ '' '' @ rq_path r @ '' HTTP/1.1'' @ CRLF @
     ''Host: '' @ rq_host r @ CRLF @
     concat (map (\<lambda>(k, v). k @ '': '' @ v @ CRLF) (rq_headers r)) @
     ''Content-Length: '' @ to_string (fst (rq_body r)) @ CRLF @ CRLF"

definition body_bytes :: "body \<Rightarrow> byte list cpp" where
  "body_bytes b = (if fst b = 0 then Inr [] else case snd b of
     None \<Rightarrow> Inl Null_deref
   | Some m \<Rightarrow> if length m < fst b then Inl Out_of_bounds else Inr (take (fst b) m))"

definition serialize_request ::
  "('b, 'p) platform \<Rightarrow> nat \<Rightarrow> http_request \<Rightarrow> serial \<Rightarrow> ('b, 'p) world \<Rightarrow>
   (serial \<times> ('b, 'p) world) cpp" where
  "serialize_request P d r s w =
     bindE (writeBytes P d (string_bytes (request_header r)) s w) (\<lambda>(n, s, w).
     bindE (body_bytes (rq_body r)) (\<lambda>bs.
     bindE (writeBytes P d bs s w) (\<lambda>(n, s, w). Inr (s, w))))"

section \<open>Reading a response\<close>

text \<open>
  \<open>read_line\<close> drops every carriage return and ends at a line feed only.  A read that yields nothing
  leaves the null character, which is added to the line.  The first number bounds the characters
  read.
\<close>

fun read_line ::
  "('b, 'p) platform \<Rightarrow> nat \<Rightarrow> nat \<Rightarrow> string \<Rightarrow> serial \<Rightarrow> ('b, 'p) world \<Rightarrow>
   (string \<times> serial \<times> ('b, 'p) world) cpp" where
  "read_line P d 0 result s w = Inl Out_of_fuel"
| "read_line P d (Suc f) result s w =
     bindE (readBytes P d [0] s w) (\<lambda>(n, c, s, w).
       let ch = char_of (unat (hd c)) in
       if ch = CR then read_line P d f result s w
       else if ch = LF then Inr (result, s, w)
       else read_line P d f (result @ [ch]) s w)"

declare read_line.simps(2) [simp del]

text \<open>The status line; the flag tells whether the rest of the response is read.\<close>

definition parse_status :: "string \<Rightarrow> http_response \<Rightarrow> (bool \<times> http_response) cpp" where
  "parse_status status_line r = (case find_char CHR '' '' status_line 0 of
     None \<Rightarrow> Inr (False, r)
   | Some space1 \<Rightarrow>
       bindE (substr status_line 0 space1) (\<lambda>protocol_version.
       bindE (case find_char CHR ''/'' protocol_version 0 of
           Some slash \<Rightarrow>
             bindE (substr protocol_version 0 (slash + 1)) (\<lambda>p.
             bindE (substr_from protocol_version (slash + 1)) (\<lambda>v.
               Inr (r\<lparr>protocol := p, version := v\<rparr>)))
         | None \<Rightarrow> Inr (r\<lparr>protocol := protocol_version, version := []\<rparr>)) (\<lambda>r.
       case find_char CHR '' '' status_line (space1 + 1) of
         None \<Rightarrow> Inr (False, r)
       | Some space2 \<Rightarrow>
           bindE (substr status_line (space1 + 1) (space2 - space1 - 1)) (\<lambda>code.
           bindE (substr_from status_line (space2 + 1)) (\<lambda>text.
             Inr (True, r\<lparr>statusCode := code, statusText := text\<rparr>))))))"

definition parse_header :: "string \<Rightarrow> http_response \<Rightarrow> http_response cpp" where
  "parse_header header_line r = (case find_char CHR '':'' header_line 0 of
     None \<Rightarrow> Inr r
   | Some colon \<Rightarrow>
       bindE (substr header_line 0 colon) (\<lambda>key.
       bindE (substr_from header_line (colon + 1)) (\<lambda>value.
       bindE (if value \<noteq> [] \<and> hd value = CHR '' '' then substr_from value 1 else Inr value) (\<lambda>value.
         Inr (r\<lparr>headers := (headers r)(key \<mapsto> value)\<rparr>)))))"

text \<open>The loop over the header lines; \<open>n\<close> bounds their number and \<open>f\<close> their length.\<close>

fun read_headers ::
  "('b, 'p) platform \<Rightarrow> nat \<Rightarrow> nat \<Rightarrow> nat \<Rightarrow> http_response \<Rightarrow> serial \<Rightarrow> ('b, 'p) world \<Rightarrow>
   (http_response \<times> serial \<times> ('b, 'p) world) cpp" where
  "read_headers P d f 0 r s w = Inl Out_of_fuel"
| "read_headers P d f (Suc n) r s w =
     bindE (read_line P d f [] s w) (\<lambda>(header_line, s, w).
       if header_line = [] then Inr (r, s, w)
       else bindE (parse_header header_line r) (\<lambda>r. read_headers P d f n r s w))"

text \<open>
  The body: \<open>malloc\<close> gives null for more than \<open>heap\<close> bytes, which \<open>memset\<close> then writes to.  The size
  is converted to \<open>size_t\<close> and the sum wraps.
\<close>

definition read_body ::
  "('b, 'p) platform \<Rightarrow> nat \<Rightarrow> nat \<Rightarrow> http_response \<Rightarrow> serial \<Rightarrow> ('b, 'p) world \<Rightarrow>
   (http_response \<times> serial \<times> ('b, 'p) world) cpp" where
  "read_body P d heap r s w = (case headers r ''Content-Length'' of
     None \<Rightarrow> Inr (r, s, w)
   | Some len \<Rightarrow> if len = [] then Inr (r, s, w)
       else bindE (stoll len) (\<lambda>v.
         let contentLength = wrap64 v; m = wrap64 (int contentLength + 1) in
         if heap < m then Inl Null_deref
         else if m < contentLength then Inl Out_of_bounds
         else bindE (readBytes P d (replicate contentLength 0) s w) (\<lambda>(n, bs, s, w).
           Inr (r\<lparr>body := (contentLength, Some (bs @ [0]))\<rparr>, s, w))))"

definition deserialize_response ::
  "('b, 'p) platform \<Rightarrow> nat \<Rightarrow> nat \<Rightarrow> nat \<Rightarrow> http_response \<Rightarrow> serial \<Rightarrow> ('b, 'p) world \<Rightarrow>
   (http_response \<times> serial \<times> ('b, 'p) world) cpp" where
  "deserialize_response P d f heap r s w =
     bindE (read_line P d f [] s w) (\<lambda>(status_line, s, w).
     bindE (parse_status status_line r) (\<lambda>(go, r).
       if \<not> go then Inr (r, s, w)
       else bindE (read_headers P d f f r s w) (\<lambda>(r, s, w). read_body P d heap r s w)))"

section \<open>Addresses\<close>

record extracted_uri =
  scheme :: string
  secure :: bool
  uri_host :: string
  uri_port :: int
  uri_path :: string

definition no_scheme :: cpp_error where
  "no_scheme = Runtime_error ''http scheme not found''"

definition extractUri :: "string \<Rightarrow> bool \<Rightarrow> extracted_uri cpp" where
  "extractUri uri lowercaseHost = (case find_char CHR '':'' uri 0 of
     None \<Rightarrow> Inl no_scheme
   | Some scheme_end \<Rightarrow>
       bindE (substr uri 0 scheme_end) (\<lambda>raw.
       let scheme = map tolower raw in
       if scheme \<noteq> ''http'' \<and> scheme \<noteq> ''https'' then Inl no_scheme
       else
         (let secure = (scheme = ''https'');
              pos = scheme_end + 1;
              pos = (if pos + 2 \<le> length uri \<and> uri ! pos = CHR ''/'' \<and> uri ! (pos + 1) = CHR ''/''
                     then pos + 2 else pos)
          in bindE (case find_char CHR ''/'' uri pos of
                 None \<Rightarrow> bindE (substr_from uri pos) (\<lambda>hp. Inr (hp, []))
               | Some host_end \<Rightarrow>
                   bindE (substr uri pos (host_end - pos)) (\<lambda>hp.
                   bindE (substr_from uri host_end) (\<lambda>path. Inr (hp, path)))) (\<lambda>(host_port, path).
             bindE (case find_char CHR '':'' host_port 0 of
                 None \<Rightarrow> Inr (host_port, if secure then 443 else 80)
               | Some port_sep \<Rightarrow>
                   bindE (substr host_port 0 port_sep) (\<lambda>host.
                   bindE (substr_from host_port (port_sep + 1)) (\<lambda>port_str.
                   bindE (if port_str = [] then Inr (if secure then 443 else 80) else stoi port_str)
                     (\<lambda>port. Inr (host, port))))) (\<lambda>(host, port).
               Inr \<lparr>scheme = scheme, secure = secure,
                    uri_host = (if lowercaseHost then map tolower host else host),
                    uri_port = port, uri_path = path\<rparr>)))))"

section \<open>A request and its redirections\<close>

text \<open>
  Connecting, with TLS for a secure scheme, is an argument: the attempt's number, the host, the port
  and the scheme give a \<open>Serial\<close> over the connection.
\<close>

definition rest_once ::
  "('b, 'p) platform \<Rightarrow> nat \<Rightarrow> nat \<Rightarrow> nat \<Rightarrow> (nat \<Rightarrow> string \<Rightarrow> int \<Rightarrow> bool \<Rightarrow> (serial \<times> ('b, 'p) world) cpp) \<Rightarrow>
   nat \<Rightarrow> string \<Rightarrow> string \<Rightarrow> (string \<times> string) list \<Rightarrow> body \<Rightarrow> http_response cpp" where
  "rest_once P d f heap connect k verb uri hdrs bdy =
     bindE (extractUri uri False) (\<lambda>e.
     bindE (connect k (uri_host e) (uri_port e) (secure e)) (\<lambda>(s, w).
     bindE (serialize_request P d \<lparr>rq_host = uri_host e, rq_verb = verb, rq_path = uri_path e,
              rq_headers = hdrs, rq_body = bdy\<rparr> s w) (\<lambda>(s, w).
     bindE (synchronize P d s w) (\<lambda>(s, w).
     bindE (deserialize_response P d f heap empty_response s w) (\<lambda>(r, s, w). Inr r)))))"

definition location :: "http_response \<Rightarrow> string" where
  "location r = (case headers r ''Location'' of Some l \<Rightarrow> l | None \<Rightarrow> [])"

text \<open>\<open>n\<close> bounds the connections made.\<close>

fun restSync ::
  "('b, 'p) platform \<Rightarrow> nat \<Rightarrow> nat \<Rightarrow> nat \<Rightarrow> (nat \<Rightarrow> string \<Rightarrow> int \<Rightarrow> bool \<Rightarrow> (serial \<times> ('b, 'p) world) cpp) \<Rightarrow>
   nat \<Rightarrow> nat \<Rightarrow> string \<Rightarrow> string \<Rightarrow> (string \<times> string) list \<Rightarrow> body \<Rightarrow> http_response cpp" where
  "restSync P d f heap connect 0 k verb uri hdrs bdy = Inl Out_of_fuel"
| "restSync P d f heap connect (Suc n) k verb uri hdrs bdy =
     bindE (rest_once P d f heap connect k verb uri hdrs bdy) (\<lambda>r.
       if statusCode r = ''302'' then restSync P d f heap connect n (Suc k) verb (location r) hdrs bdy
       else Inr r)"

section \<open>Asynchronous requests\<close>

text \<open>
  \<open>tcpClients\<close>: the last number given out and the threads in the map.  The map's entry is the only
  owner of a thread once \<open>restAsync\<close> has returned, and no thread is ever joined or detached, so
  erasing the entry destroys a joinable thread.
\<close>

record async_clients =
  last_id :: nat
  clients :: "nat set"

definition restAsync :: "async_clients \<Rightarrow> nat \<times> async_clients" where
  "restAsync c = (let cid = wrap64 (int (last_id c) + 1)
     in (cid, c\<lparr>last_id := cid, clients := insert cid (clients c)\<rparr>))"

definition erase_client :: "nat \<Rightarrow> async_clients \<Rightarrow> async_clients cpp" where
  "erase_client cid c = (if cid \<in> clients c then Inl Std_terminate else Inr c)"

definition cancelRestAsync :: "nat \<Rightarrow> async_clients \<Rightarrow> (bool \<times> nat \<times> async_clients) cpp" where
  "cancelRestAsync cid c =
     (if cid \<notin> clients c then Inr (False, cid, c)
      else bindE (erase_client cid c) (\<lambda>c. Inr (True, 0, c)))"

section \<open>Reading lines\<close>

definition plain_line :: "string \<Rightarrow> bool" where
  "plain_line l \<longleftrightarrow> CR \<notin> set l \<and> LF \<notin> set l"

lemma CR_LF [simp]: "CR \<noteq> LF" "LF \<noteq> CR"
  by (simp_all add: CR_def LF_def)

context serial_reader
begin

lemma read_char_ok:
  assumes "ok s w" and "ahead s w = of_char c # rest"
  shows "\<exists>s' w'. ok s' w' \<and> ahead s' w' = rest \<and>
    (\<forall>f res. read_line P d (Suc f) res s w =
      (if c = CR then read_line P d f res s' w' else if c = LF then Inr (res, s', w')
       else read_line P d f (res @ [c]) s' w'))"
proof -
  obtain r s' w' where "readBytes P d [0] s w = Inr (r, [of_char c], s', w')" "ok s' w'"
      "ahead s' w' = rest"
    using read_ok [OF assms(1), of "[0]"] assms(2) by auto
  then show ?thesis by (auto simp: read_line.simps(2) unat_of_char_byte)
qed

lemma read_line_ok:
  assumes "ok s w" and "ahead s w = string_bytes (l @ CRLF) @ rest" and "plain_line l"
    and "length l + 2 \<le> f"
  shows "\<exists>s' w'. read_line P d f res s w = Inr (res @ l, s', w') \<and> ok s' w' \<and> ahead s' w' = rest"
  using assms
proof (induction l arbitrary: f res s w)
  case Nil
  have "2 \<le> f" using Nil.prems(4) by simp
  then obtain g where f: "f = Suc (Suc g)" by (rule two_le_SucE)
  obtain s1 w1 where s1: "ok s1 w1" "ahead s1 w1 = of_char LF # rest"
      "\<And>f res. read_line P d (Suc f) res s w = read_line P d f res s1 w1"
    using read_char_ok [OF Nil.prems(1), of CR "of_char LF # rest"] Nil.prems(2)
    by (auto simp: CRLF_def string_bytes_def)
  obtain s2 w2 where "ok s2 w2" "ahead s2 w2 = rest"
      "\<And>f res. read_line P d (Suc f) res s1 w1 = Inr (res, s2, w2)"
    using read_char_ok [OF s1(1,2)] by auto
  then show ?case by (simp add: f s1(3))
next
  case (Cons c l)
  obtain g where f: "f = Suc g" using Cons.prems(4) by (cases f) auto
  have c: "c \<noteq> CR" "c \<noteq> LF" "plain_line l" using Cons.prems(3) by (auto simp: plain_line_def)
  obtain s1 w1 where s1: "ok s1 w1" "ahead s1 w1 = string_bytes (l @ CRLF) @ rest"
      "\<And>f res. read_line P d (Suc f) res s w = read_line P d f (res @ [c]) s1 w1"
    using read_char_ok [OF Cons.prems(1), of c "string_bytes (l @ CRLF) @ rest"] Cons.prems(2) c(1,2)
    by (auto simp: string_bytes_def)
  have "length l + 2 \<le> g" using Cons.prems(4) f by simp
  from Cons.IH [OF s1(1,2) c(3) this, of "res @ [c]"] show ?case by (simp add: f s1(3))
qed

lemma read_line_consumes:
  "plain_line l \<Longrightarrow> length l + 2 \<le> f \<Longrightarrow>
   consumes ok ahead (read_line P d f []) (string_bytes (l @ CRLF)) l"
  using read_line_ok [where res = "[]"] by (simp add: consumes_def)

end

section \<open>What a response's text means\<close>

definition status_text :: "string \<Rightarrow> string \<Rightarrow> string \<Rightarrow> string \<Rightarrow> string" where
  "status_text p v code txt = p @ ''/'' @ v @ '' '' @ code @ '' '' @ txt"

definition header_text :: "string \<times> string \<Rightarrow> string" where
  "header_text kv = fst kv @ '': '' @ snd kv"

lemma find_char_0: "c \<notin> set a \<Longrightarrow> find_char c (a @ c # b) 0 = Some (length a)"
  by (simp add: find_char_def)

lemma parse_status_ok:
  assumes "CHR '' '' \<notin> set p" "CHR ''/'' \<notin> set p" "CHR '' '' \<notin> set v" "CHR '' '' \<notin> set code"
  shows "parse_status (status_text p v code txt) r =
    Inr (True, r\<lparr>protocol := p @ ''/'', version := v, statusCode := code, statusText := txt\<rparr>)"
proof -
  let ?l = "status_text p v code txt" and ?pv = "p @ CHR ''/'' # v"
  have l: "?l = ?pv @ CHR '' '' # code @ CHR '' '' # txt" by (simp add: status_text_def)
  have f1: "find_char CHR '' '' ?l 0 = Some (length ?pv)"
    unfolding l by (rule find_char_0) (use assms in simp)
  have d: "drop (length ?pv + 1) ?l = code @ CHR '' '' # txt" unfolding l by simp
  have f2: "find_char CHR '' '' ?l (length ?pv + 1) = Some (length ?pv + 1 + length code)"
    using assms(4) by (simp only: find_char_def d) simp
  have "find_char CHR ''/'' ?pv 0 = Some (length p)" by (rule find_char_0) (rule assms(2))
  moreover have "substr ?l 0 (length ?pv) = Inr ?pv" unfolding l by (simp add: substr_def)
  moreover have "substr ?pv 0 (length p + 1) = Inr (p @ ''/'')" by (simp add: substr_def)
  moreover have "substr_from ?pv (length p + 1) = Inr v" by (simp add: substr_from_def)
  moreover have "substr ?l (length ?pv + 1) (length ?pv + 1 + length code - length ?pv - 1) = Inr code"
    unfolding l by (simp add: substr_def slice_def)
  moreover have "substr_from ?l (length ?pv + 1 + length code + 1) = Inr txt"
  proof -
    have "drop (length code + 1) (drop (length ?pv + 1) ?l) = txt" unfolding d by simp
    then have "drop (length ?pv + 1 + length code + 1) ?l = txt"
      unfolding drop_drop by (simp only: add.commute add.left_commute add.assoc)
    moreover have "\<not> length ?l < length ?pv + 1 + length code + 1" unfolding l by simp
    ultimately show ?thesis unfolding substr_from_def by simp
  qed
  ultimately show ?thesis using f2
    by (simp add: parse_status_def f1 del: append_Cons length_append)
qed

lemma parse_header_ok:
  assumes "CHR '':'' \<notin> set k"
  shows "parse_header (header_text (k, v)) r = Inr (r\<lparr>headers := (headers r)(k \<mapsto> v)\<rparr>)"
  using assms find_char_0 [OF assms, of "CHR '' '' # v"]
  by (simp add: parse_header_def header_text_def substr_def substr_from_def)

definition set_headers :: "(string \<times> string) list \<Rightarrow> http_response \<Rightarrow> http_response" where
  "set_headers hs r = r\<lparr>headers := fold (\<lambda>(k, v) m. m(k \<mapsto> v)) hs (headers r)\<rparr>"

definition lines_text :: "string list \<Rightarrow> string" where
  "lines_text ls = concat (map (\<lambda>l. l @ CRLF) ls)"

definition response_text :: "string \<Rightarrow> string \<Rightarrow> string \<Rightarrow> string \<Rightarrow> (string \<times> string) list \<Rightarrow> string" where
  "response_text p v code txt hs = lines_text (status_text p v code txt # map header_text hs) @ CRLF"

text \<open>What is left of a response when its headers have been read.\<close>

definition response_head ::
  "string \<Rightarrow> string \<Rightarrow> string \<Rightarrow> string \<Rightarrow> (string \<times> string) list \<Rightarrow> http_response" where
  "response_head p v code txt hs = empty_response\<lparr>protocol := p @ ''/'', version := v,
     statusCode := code, statusText := txt, headers := map_of hs\<rparr>"

definition good_header :: "string \<times> string \<Rightarrow> bool" where
  "good_header kv \<longleftrightarrow> CHR '':'' \<notin> set (fst kv) \<and> plain_line (header_text kv)"

definition good_response :: "string \<Rightarrow> string \<Rightarrow> string \<Rightarrow> string \<Rightarrow> (string \<times> string) list \<Rightarrow> bool" where
  "good_response p v code txt hs \<longleftrightarrow> plain_line (status_text p v code txt) \<and> CHR '' '' \<notin> set p \<and>
     CHR ''/'' \<notin> set p \<and> CHR '' '' \<notin> set v \<and> CHR '' '' \<notin> set code \<and>
     (\<forall>kv \<in> set hs. good_header kv) \<and> distinct (map fst hs)"

lemma lines_text_simps [simp]:
  "lines_text [] = []"
  "lines_text (l # ls) = l @ CRLF @ lines_text ls"
  by (simp_all add: lines_text_def)

lemma lines_text_line: "l \<in> set ls \<Longrightarrow> length l + 2 \<le> length (lines_text ls)"
  by (induction ls) (auto simp: CRLF_def)

lemma lines_text_many: "length ls \<le> length (lines_text ls)"
  by (induction ls) (auto simp: CRLF_def)

lemma string_bytes_lines:
  "string_bytes (lines_text ls) = concat (map (\<lambda>l. string_bytes (l @ CRLF)) ls)"
  by (induction ls) (simp_all add: string_bytes_def)

context serial_reader
begin

lemma read_headers_ok:
  assumes "\<forall>kv \<in> set hs. good_header kv \<and> length (header_text kv) + 2 \<le> f" and "length hs < n" and "2 \<le> f"
    and "ok s w" and "ahead s w = string_bytes (lines_text (map header_text hs) @ CRLF) @ rest"
  shows "\<exists>s' w'. read_headers P d f n r s w = Inr (set_headers hs r, s', w') \<and> ok s' w' \<and> ahead s' w' = rest"
  using assms
proof (induction hs arbitrary: n r s w)
  case Nil
  obtain m where n: "n = Suc m" using Nil.prems(2) by (cases n) auto
  have "\<exists>s' w'. read_line P d f [] s w = Inr ([] @ [], s', w') \<and> ok s' w' \<and> ahead s' w' = rest"
    by (rule read_line_ok) (use Nil.prems in \<open>simp_all add: plain_line_def\<close>)
  then show ?case by (auto simp: n set_headers_def)
next
  case (Cons kv hs)
  obtain m where n: "n = Suc m" using Cons.prems(2) by (cases n) auto
  let ?rest = "string_bytes (lines_text (map header_text hs) @ CRLF) @ rest"
  have "ahead s w = string_bytes (header_text kv @ CRLF) @ ?rest" using Cons.prems(5) by simp
  then obtain s1 w1 where l: "read_line P d f [] s w = Inr (header_text kv, s1, w1)" "ok s1 w1"
      "ahead s1 w1 = ?rest"
    using read_line_ok [OF Cons.prems(4), of "header_text kv" ?rest f "[]"] Cons.prems(1)
    by (auto simp: good_header_def)
  have ne: "header_text kv \<noteq> []" by (simp add: header_text_def)
  have ph: "parse_header (header_text kv) r = Inr (r\<lparr>headers := (headers r)(fst kv \<mapsto> snd kv)\<rparr>)"
    using parse_header_ok [of "fst kv" "snd kv" r] Cons.prems(1) by (simp add: good_header_def)
  have "\<exists>s' w'. read_headers P d f m (r\<lparr>headers := (headers r)(fst kv \<mapsto> snd kv)\<rparr>) s1 w1 =
        Inr (set_headers hs (r\<lparr>headers := (headers r)(fst kv \<mapsto> snd kv)\<rparr>), s', w') \<and> ok s' w' \<and>
      ahead s' w' = rest"
    by (rule Cons.IH) (use Cons.prems l n in simp_all)
  then obtain s2 w2 where "read_headers P d f m (r\<lparr>headers := (headers r)(fst kv \<mapsto> snd kv)\<rparr>) s1 w1 =
        Inr (set_headers hs (r\<lparr>headers := (headers r)(fst kv \<mapsto> snd kv)\<rparr>), s2, w2)" "ok s2 w2"
      "ahead s2 w2 = rest"
    by blast
  then show ?case using l ne ph by (auto simp: n set_headers_def split_beta)
qed

lemma read_body_ok:
  assumes "headers r ''Content-Length'' = Some (to_string (length bs))" and "length bs < 2 ^ 63"
    and "length bs < heap" and "ok s w" and "ahead s w = bs @ rest"
  shows "\<exists>s' w'. read_body P d heap r s w = Inr (r\<lparr>body := (length bs, Some (bs @ [0]))\<rparr>, s', w') \<and>
    ok s' w' \<and> ahead s' w' = rest"
proof -
  let ?n = "length bs"
  have st: "stoll (to_string ?n) = Inr (int ?n)" using assms(2) by (simp add: stoll_def parse_int_to_string)
  have w1: "wrap64 (int ?n) = ?n" using assms(2) by simp
  have w2: "wrap64 (int ?n + 1) = ?n + 1" using assms(2) by (simp add: wrap64_def nat_add_distrib)
  have ne: "to_string ?n \<noteq> []" using to_string_digits by blast
  obtain k s' w' where rd: "readBytes P d (replicate ?n 0) s w = Inr (k, bs, s', w')" "ok s' w'"
      "ahead s' w' = rest"
    using read_ok [OF assms(4), of "replicate ?n 0"] assms(5) by auto
  then show ?thesis using assms(1,3) ne by (simp add: read_body_def st w1 w2)
qed

text \<open>The status line and the headers of a response.\<close>

lemma deserialize_head_ok:
  assumes "good_response p v code txt hs" and "length (response_text p v code txt hs) \<le> f"
    and "ok s w" and "ahead s w = string_bytes (response_text p v code txt hs) @ rest"
  shows "\<exists>s' w'. deserialize_response P d f heap empty_response s w =
      read_body P d heap (response_head p v code txt hs) s' w' \<and> ok s' w' \<and> ahead s' w' = rest"
proof -
  let ?st = "status_text p v code txt"
  let ?ls = "?st # map header_text hs"
  let ?r1 = "empty_response\<lparr>protocol := p @ ''/'', version := v, statusCode := code, statusText := txt\<rparr>"
  let ?rest1 = "string_bytes (lines_text (map header_text hs) @ CRLF) @ rest"
  have g: "plain_line ?st" "CHR '' '' \<notin> set p" "CHR ''/'' \<notin> set p" "CHR '' '' \<notin> set v"
      "CHR '' '' \<notin> set code" "\<forall>kv \<in> set hs. good_header kv" "distinct (map fst hs)"
    using assms(1) by (simp_all add: good_response_def)
  have tl: "length (lines_text ?ls) + 2 \<le> f" using assms(2) by (simp add: response_text_def CRLF_def)
  have each: "\<forall>l \<in> set ?ls. length l + 2 \<le> f"
    using lines_text_line [of _ ?ls] tl by (meson add_leD1 order_trans)
  have len: "length ?st + 2 \<le> f" "\<forall>kv \<in> set hs. length (header_text kv) + 2 \<le> f"
    using each by simp_all
  have len2: "length hs < f" "2 \<le> f" using lines_text_many [of ?ls] tl by simp_all
  have "ahead s w = string_bytes (?st @ CRLF) @ ?rest1" using assms(4) by (simp add: response_text_def)
  from read_line_ok [OF assms(3) this g(1) len(1), of "[]"] obtain s1 w1 where
    l: "read_line P d f [] s w = Inr (?st, s1, w1)" "ok s1 w1" "ahead s1 w1 = ?rest1" by auto
  have ps: "parse_status ?st empty_response = Inr (True, ?r1)"
    using parse_status_ok [OF g(2-5)] by simp
  obtain s2 w2 where h: "read_headers P d f f ?r1 s1 w1 = Inr (set_headers hs ?r1, s2, w2)" "ok s2 w2"
      "ahead s2 w2 = rest"
    using read_headers_ok [OF _ len2 l(2,3)] g(6) len(2) by blast
  have "set_headers hs ?r1 = response_head p v code txt hs"
    using fold_map_update_distinct [OF g(7), of Map.empty]
    by (simp add: set_headers_def empty_response_def response_head_def)
  then show ?thesis using h by (auto simp: deserialize_response_def l(1) ps)
qed

text \<open>A response without a length has no body; one with a length has as many bytes.\<close>

lemma deserialize_no_body:
  assumes "good_response p v code txt hs" and "length (response_text p v code txt hs) \<le> f"
    and "''Content-Length'' \<notin> fst ` set hs"
    and "ok s w" and "ahead s w = string_bytes (response_text p v code txt hs) @ rest"
  shows "\<exists>s' w'. deserialize_response P d f heap empty_response s w =
      Inr (response_head p v code txt hs, s', w') \<and> ok s' w' \<and> ahead s' w' = rest"
proof -
  have "map_of hs ''Content-Length'' = None" using assms(3) by (simp add: map_of_eq_None_iff)
  then show ?thesis using deserialize_head_ok [OF assms(1,2,4,5), of heap]
    by (auto simp: read_body_def response_head_def)
qed

lemma deserialize_body:
  assumes "good_response p v code txt hs" and "length (response_text p v code txt hs) \<le> f"
    and "(''Content-Length'', to_string (length bs)) \<in> set hs" and "length bs < heap"
    and "length bs < 2 ^ 63"
    and "ok s w" and "ahead s w = string_bytes (response_text p v code txt hs) @ bs @ rest"
  shows "\<exists>s' w'. deserialize_response P d f heap empty_response s w =
      Inr ((response_head p v code txt hs)\<lparr>body := (length bs, Some (bs @ [0]))\<rparr>, s', w') \<and>
    ok s' w' \<and> ahead s' w' = rest"
proof -
  have "map_of hs ''Content-Length'' = Some (to_string (length bs))"
    using assms(1,3) by (simp add: good_response_def)
  then have "headers (response_head p v code txt hs) ''Content-Length'' = Some (to_string (length bs))"
    by (simp add: response_head_def)
  note rb = read_body_ok [OF this assms(5,4)]
  obtain s1 w1 where "deserialize_response P d f heap empty_response s w =
      read_body P d heap (response_head p v code txt hs) s1 w1" "ok s1 w1" "ahead s1 w1 = bs @ rest"
    using deserialize_head_ok [OF assms(1,2,6,7), of heap] by blast
  with rb [OF this(2,3)] show ?thesis by simp
qed

end

section \<open>Properties\<close>

text \<open>C9: a response in memory, with any reason phrase, distinct header names and a body of the announced
  length, is read into exactly its parts; the protocol keeps its slash and the body gets a final
  zero.\<close>

theorem http_response_parse:
  assumes "s = serial_buffer (int (length (regions w a))) (Some a) False"
    and "regions w a = string_bytes (response_text p v code txt hs) @ bs @ rest"
    and "length (regions w a) < 2 ^ 63" and "good_response p v code txt hs"
    and "(''Content-Length'', to_string (length bs)) \<in> set hs" and "length bs < heap"
    and "length (response_text p v code txt hs) \<le> f"
  shows "\<exists>s' w'. deserialize_response P (Suc d) f heap empty_response s w =
    Inr (\<lparr>protocol = p @ ''/'', version = v, statusCode = code, statusText = txt,
      headers = map_of hs, body = (length bs, Some (bs @ [0]))\<rparr>, s', w')"
proof -
  have "mem_plain s w" using assms(1,3)
    by (simp add: mem_plain_def mem_ok_def region_of_def serial_buffer_def serial_default_def)
  moreover have "mem_ahead s w = string_bytes (response_text p v code txt hs) @ bs @ rest"
    using assms(1,2) by (simp add: mem_ahead_def region_of_def serial_buffer_def serial_default_def)
  moreover have "length bs < 2 ^ 63" using assms(2,3) by simp
  ultimately show ?thesis
    using mem_reader.deserialize_body [OF assms(4,7,5,6), of s w rest P d]
    by (auto simp: response_head_def empty_response_def)
qed

definition ok_text :: string where
  "ok_text = response_text ''HTTP'' ''1.1'' ''200'' ''OK'' [(''Content-Length'', ''2'')]"

definition ok_world :: "(stringbuf, unit) world" where
  "ok_world = demo_world\<lparr>regions := (\<lambda>_. string_bytes ok_text @ [104, 105])\<rparr>"

lemma ok_text_plain: "good_response ''HTTP'' ''1.1'' ''200'' ''OK'' [(''Content-Length'', ''2'')]"
  by (simp add: good_response_def good_header_def plain_line_def status_text_def header_text_def CR_def LF_def)

lemma to_string_2: "to_string 2 = ''2''"
  by code_simp

theorem http_response_parse_witness:
  "\<exists>s' w'. deserialize_response demo_platform 1 100 10 empty_response
      (serial_buffer (int (length (regions ok_world 0))) (Some 0) False) ok_world =
    Inr (\<lparr>protocol = ''HTTP/'', version = ''1.1'', statusCode = ''200'', statusText = ''OK'',
      headers = map_of [(''Content-Length'', ''2'')], body = (2, Some [104, 105, 0])\<rparr>, s', w')"
proof -
  have len: "length ok_text = 38"
    by (simp add: ok_text_def response_text_def status_text_def header_text_def CRLF_def)
  show ?thesis unfolding One_nat_def
    using http_response_parse [OF refl _ _ ok_text_plain, of ok_world 0 "[104, 105]" "[]" 10 100 demo_platform 0]
      len by (simp add: ok_world_def ok_text_def to_string_2 numeral_2_eq_2 [symmetric])
qed

end
