(* ===== verification/Http_Client.thy ===== *)
theory Http_Client
  imports Http
begin

text \<open>
  Requests and addresses of the HTTP client: a request written to a \<open>Serial\<close> is text that the
  library's own line and header readers take apart again; \<open>extractUri\<close> finds the parts of an
  address; the table of asynchronous requests.
\<close>

section \<open>Requests\<close>

definition request_line :: "http_request \<Rightarrow> string" where
  "request_line r = rq_verb r @ '' '' @ rq_path r @ '' HTTP/1.1''"

definition all_headers :: "http_request \<Rightarrow> (string \<times> string) list" where
  "all_headers r = (''Host'', rq_host r) # rq_headers r @ [(''Content-Length'', to_string (fst (rq_body r)))]"

definition good_request :: "http_request \<Rightarrow> bool" where
  "good_request r \<longleftrightarrow> plain_line (request_line r) \<and> (\<forall>kv \<in> set (all_headers r). good_header kv) \<and>
     distinct (map fst (all_headers r))"

lemma request_header_lines:
  "request_header r = lines_text (request_line r # map header_text (all_headers r)) @ CRLF"
  by (simp add: request_header_def request_line_def all_headers_def header_text_def lines_text_def
      case_prod_unfold o_def)

context serial_writer
begin

lemma delivers_request:
  assumes "body_bytes (rq_body r) = Inr bs"
  shows "delivers ok held app room (serialize_request P d r) (string_bytes (request_header r) @ bs)"
proof -
  have "delivers ok held app room (\<lambda>s w. bindE (put_value P d (string_bytes (request_header r)) s w)
      (\<lambda>(s, w). put_value P d bs s w)) (string_bytes (request_header r) @ bs)"
    by (rule delivers_append [OF delivers_value delivers_value])
  moreover have "serialize_request P d r s w = bindE (put_value P d (string_bytes (request_header r)) s w)
      (\<lambda>(s, w). put_value P d bs s w)" for s w
    by (cases "writeBytes P d (string_bytes (request_header r)) s w")
      (auto simp: serialize_request_def put_value_def assms)
  ultimately show ?thesis by presburger
qed

end

lemma body_bytes_length: "body_bytes b = Inr bs \<Longrightarrow> length bs = fst b"
  by (auto simp: body_bytes_def split: if_splits option.splits)

text \<open>C13: a request with distinct, well-formed header fields is written to memory as text from which the
  library's own readers give back its first line, all its fields with the host and the length of the
  body, and the body.\<close>

theorem http_request_roundtrip:
  assumes "s = serial_buffer (int (length (regions w a))) (Some a) False"
    and "body_bytes (rq_body r) = Inr bs"
    and "length (request_header r) + length bs \<le> length (regions w a)"
    and "length (regions w a) < 2 ^ 63" and "good_request r"
    and "length (request_header r) \<le> f" and "length bs < heap"
  shows "\<exists>s1 w1 s2 w2 s3 w3 s4 w4. serialize_request P (Suc d) r s w = Inr (s1, w1) \<and>
    read_line P (Suc d) f [] s w1 = Inr (request_line r, s2, w2) \<and>
    read_headers P (Suc d) f f empty_response s2 w2 =
      Inr (empty_response\<lparr>headers := map_of (all_headers r)\<rparr>, s3, w3) \<and>
    read_body P (Suc d) heap (empty_response\<lparr>headers := map_of (all_headers r)\<rparr>) s3 w3 =
      Inr (empty_response\<lparr>headers := map_of (all_headers r), body := (length bs, Some (bs @ [0]))\<rparr>, s4, w4)"
proof -
  let ?hs = "all_headers r" and ?rl = "request_line r"
  let ?ls = "?rl # map header_text ?hs"
  let ?e = "string_bytes (request_header r) @ bs"
  let ?r1 = "empty_response\<lparr>headers := map_of ?hs\<rparr>"
  have g: "plain_line ?rl" "\<forall>kv \<in> set ?hs. good_header kv" "distinct (map fst ?hs)"
    using assms(5) by (simp_all add: good_request_def)
  have tl: "length (lines_text ?ls) + 2 \<le> f" using assms(6) by (simp add: request_header_lines CRLF_def)
  have each: "\<forall>l \<in> set ?ls. length l + 2 \<le> f"
    using lines_text_line [of _ ?ls] tl by (meson add_leD1 order_trans)
  have len: "length ?rl + 2 \<le> f" "\<forall>kv \<in> set ?hs. good_header kv \<and> length (header_text kv) + 2 \<le> f"
    using each g(2) by simp_all
  have len2: "length ?hs < f" "2 \<le> f" using lines_text_many [of ?ls] tl by simp_all
  have fits: "length ?e \<le> length (regions w a)" using assms(3) by simp
  obtain s1 w1 where w1: "serialize_request P (Suc d) r s w = Inr (s1, w1)" "take (length ?e) (regions w1 a) = ?e"
      "length (regions w1 a) = length (regions w a)"
    using mem_put [OF mem_writer.delivers_request [OF assms(2)] assms(1) fits assms(4)] by blast
  have ok: "mem_plain s w1" using assms(1,4) w1(3)
    by (simp add: mem_plain_def mem_ok_def region_of_def serial_buffer_def serial_default_def)
  have "regions w1 a = ?e @ drop (length ?e) (regions w1 a)"
    using append_take_drop_id [of "length ?e" "regions w1 a", symmetric] unfolding w1(2) .
  then have "mem_ahead s w1 = ?e @ drop (length ?e) (regions w1 a)"
    using assms(1) by (simp add: mem_ahead_def region_of_def serial_buffer_def serial_default_def)
  then obtain rest where ah: "mem_ahead s w1 = string_bytes (?rl @ CRLF) @
      string_bytes (lines_text (map header_text ?hs) @ CRLF) @ bs @ rest"
    by (simp add: request_header_lines)
  from mem_reader.read_line_ok [OF ok ah g(1) len(1), of P d "[]"] obtain s2 w2 where
    l: "read_line P (Suc d) f [] s w1 = Inr (?rl, s2, w2)" "mem_plain s2 w2"
      "mem_ahead s2 w2 = string_bytes (lines_text (map header_text ?hs) @ CRLF) @ bs @ rest" by auto
  obtain s3 w3 where h: "read_headers P (Suc d) f f empty_response s2 w2 =
      Inr (set_headers ?hs empty_response, s3, w3)" "mem_plain s3 w3" "mem_ahead s3 w3 = bs @ rest"
    using mem_reader.read_headers_ok [OF len(2) len2 l(2,3)] by blast
  have sh: "set_headers ?hs empty_response = ?r1"
    using fold_map_update_distinct [OF g(3), of Map.empty]
    by (simp add: set_headers_def empty_response_def)
  have n: "length bs = fst (rq_body r)" using body_bytes_length [OF assms(2)] .
  have "map_of ?hs ''Content-Length'' = Some (to_string (length bs))"
    using g(3) by (intro map_of_is_SomeI) (simp_all add: n, simp add: all_headers_def)
  then have "headers ?r1 ''Content-Length'' = Some (to_string (length bs))" by simp
  moreover have "length bs < 2 ^ 63" using assms(3,4) by simp
  ultimately obtain s4 w4 where "read_body P (Suc d) heap ?r1 s3 w3 =
      Inr (?r1\<lparr>body := (length bs, Some (bs @ [0]))\<rparr>, s4, w4)"
    using mem_reader.read_body_ok [OF _ _ assms(7) h(2,3)] by blast
  with w1(1) l(1) h(1) show ?thesis by (simp add: sh)
qed

definition post_request :: http_request where
  "post_request = \<lparr>rq_host = ''h'', rq_verb = ''POST'', rq_path = ''/x'', rq_headers = [(''A'', ''b'')],
     rq_body = (2, Some [104, 105])\<rparr>"

definition wide_world :: "(stringbuf, unit) world" where
  "wide_world = demo_world\<lparr>regions := (\<lambda>_. replicate 100 0)\<rparr>"

theorem http_request_roundtrip_witness:
  "\<exists>s1 w1 s2 w2. serialize_request demo_platform 1 post_request (serial_buffer 100 (Some 0) False) wide_world =
      Inr (s1, w1) \<and>
    read_line demo_platform 1 100 [] (serial_buffer 100 (Some 0) False) w1 =
      Inr (request_line post_request, s2, w2)"
proof -
  have hd: "request_header post_request =
      ''POST /x HTTP/1.1'' @ CRLF @ ''Host: h'' @ CRLF @ ''A: b'' @ CRLF @ ''Content-Length: 2'' @ CRLF @ CRLF"
    by (simp add: request_header_def post_request_def to_string_2)
  have g: "good_request post_request"
    by (simp add: good_request_def request_line_def all_headers_def post_request_def to_string_2
        good_header_def plain_line_def header_text_def CR_def LF_def)
  have b: "body_bytes (rq_body post_request) = Inr [104, 105]"
    by (simp add: body_bytes_def post_request_def)
  have n: "length (request_header post_request) = 54" by (simp add: hd CRLF_def)
  have s: "serial_buffer 100 (Some 0) False =
      serial_buffer (int (length (regions wide_world 0))) (Some 0) False"
    by (simp add: wide_world_def)
  show ?thesis unfolding One_nat_def
    using http_request_roundtrip [OF s b _ _ g, of 100 100 demo_platform 0] n
    by (simp add: wide_world_def) blast
qed

section \<open>Addresses\<close>

definition has_scheme :: "string \<Rightarrow> bool" where
  "has_scheme uri \<longleftrightarrow> (\<exists>sch rest. uri = sch @ CHR '':'' # rest \<and> map tolower sch \<in> {''http'', ''https''})"

lemma tolower_colon [simp]: "tolower CHR '':'' = CHR '':''"
  by (simp add: tolower_def)

lemma no_colon_scheme: "map tolower sch \<in> {''http'', ''https''} \<Longrightarrow> CHR '':'' \<notin> set sch"
proof
  assume m: "map tolower sch \<in> {''http'', ''https''}" and "CHR '':'' \<in> set sch"
  then have "tolower CHR '':'' \<in> set (map tolower sch)" by (simp only: set_map imageI)
  with m show False by auto
qed

text \<open>The part after the scheme: the pointer moved over two slashes, host, port and path.\<close>

definition uri_rest :: "string \<Rightarrow> string" where
  "uri_rest r = (if 2 \<le> length r \<and> r ! 0 = CHR ''/'' \<and> r ! 1 = CHR ''/'' then drop 2 r else r)"

definition before_char :: "char \<Rightarrow> string \<Rightarrow> string" where
  "before_char c = takeWhile (\<lambda>x. x \<noteq> c)"

definition from_char :: "char \<Rightarrow> string \<Rightarrow> string" where
  "from_char c = dropWhile (\<lambda>x. x \<noteq> c)"

lemma index_of_split:
  "index_of c s = (if c \<in> set s then Some (length (before_char c s)) else None)"
  by (induction s) (auto simp: before_char_def)

lemma before_from: "before_char c s @ from_char c s = s"
  by (simp add: before_char_def from_char_def)

lemma take_before: "take (length (before_char c s)) s = before_char c s"
  by (metis append_eq_conv_conj before_from)

lemma drop_before: "drop (length (before_char c s)) s = from_char c s"
  by (metis append_eq_conv_conj before_from)

lemma from_char_eq: "c \<notin> set a \<Longrightarrow> from_char c (a @ c # b) = c # b"
  by (induction a) (auto simp: from_char_def)

lemma before_char_eq: "c \<notin> set a \<Longrightarrow> before_char c (a @ c # b) = a"
  by (induction a) (auto simp: before_char_def)

lemma before_char_all: "c \<notin> set a \<Longrightarrow> before_char c a = a" "c \<notin> set a \<Longrightarrow> from_char c a = []"
  by (induction a) (auto simp: before_char_def from_char_def)

lemma before_char_no: "c \<notin> set (before_char c s)"
  by (induction s) (auto simp: before_char_def)

lemma tolower_special:
  "tolower c = CHR ''/'' \<longleftrightarrow> c = CHR ''/''" "CHR ''/'' = tolower c \<longleftrightarrow> c = CHR ''/''"
  "tolower c = CHR '':'' \<longleftrightarrow> c = CHR '':''" "CHR '':'' = tolower c \<longleftrightarrow> c = CHR '':''"
proof -
  have k: "tolower c = d \<Longrightarrow> 65 \<le> (of_char c :: nat) \<Longrightarrow> (of_char c :: nat) \<le> 90 \<Longrightarrow> (of_char d :: nat) = of_char c + 32"
    for d by (auto simp: tolower_def)
  have "tolower c = CHR ''/'' \<longrightarrow> c = CHR ''/''" "tolower c = CHR '':'' \<longrightarrow> c = CHR '':''"
    using k [of "CHR ''/''"] k [of "CHR '':''"] by (auto simp: tolower_def split: if_splits)
  moreover have "tolower CHR ''/'' = CHR ''/''" by (simp add: tolower_def)
  ultimately show "tolower c = CHR ''/'' \<longleftrightarrow> c = CHR ''/''" "CHR ''/'' = tolower c \<longleftrightarrow> c = CHR ''/''"
    "tolower c = CHR '':'' \<longleftrightarrow> c = CHR '':''" "CHR '':'' = tolower c \<longleftrightarrow> c = CHR '':''"
    by auto
qed

lemma has_scheme_iff: "has_scheme uri \<longleftrightarrow> CHR '':'' \<in> set uri \<and>
    map tolower (before_char CHR '':'' uri) \<in> {''http'', ''https''}"
proof
  assume "has_scheme uri"
  then obtain sch rest where u: "uri = sch @ CHR '':'' # rest" "map tolower sch \<in> {''http'', ''https''}"
    unfolding has_scheme_def by (elim exE conjE) (rule that)
  then show "CHR '':'' \<in> set uri \<and> map tolower (before_char CHR '':'' uri) \<in> {''http'', ''https''}"
    using before_char_eq [OF no_colon_scheme [OF u(2)], of rest] by simp
next
  assume a: "CHR '':'' \<in> set uri \<and> map tolower (before_char CHR '':'' uri) \<in> {''http'', ''https''}"
  then obtain t where "from_char CHR '':'' uri = CHR '':'' # t"
    using hd_dropWhile [of "\<lambda>x. x \<noteq> CHR '':''" uri]
    by (cases "from_char CHR '':'' uri") (auto simp: from_char_def dropWhile_eq_Nil_conv)
  then have "uri = before_char CHR '':'' uri @ CHR '':'' # t" by (metis before_from)
  with conjunct2 [OF a] show "has_scheme uri" unfolding has_scheme_def by (intro exI conjI)
qed

text \<open>\<open>extractUri\<close> in terms of the pieces.\<close>

definition uri_port_of :: "bool \<Rightarrow> string \<Rightarrow> int cpp" where
  "uri_port_of sec hp =
     (let dflt = (if sec then 443 else 80); digits = tl (from_char CHR '':'' hp)
      in if CHR '':'' \<notin> set hp \<or> digits = [] then Inr dflt else stoi digits)"

lemma uri_port_of_error: "uri_port_of sec hp = Inl x \<Longrightarrow> x \<in> {Invalid_argument ''stoi'', Out_of_range ''stoi''}"
  unfolding uri_port_of_def stoi_def Let_def by (auto split: if_splits option.splits)

lemma uri_port_of_range: "uri_port_of sec hp = Inr p \<Longrightarrow> - (2 ^ 31) \<le> p \<and> p < 2 ^ 31"
  unfolding uri_port_of_def stoi_def Let_def by (auto split: if_splits option.splits)

lemma extractUri_pieces:
  "extractUri uri lower =
    (if \<not> has_scheme uri then Inl no_scheme
     else let sch = map tolower (before_char CHR '':'' uri);
              r = uri_rest (tl (from_char CHR '':'' uri));
              hp = before_char CHR ''/'' r; h = before_char CHR '':'' hp
          in bindE (uri_port_of (sch = ''https'') hp) (\<lambda>p.
               Inr \<lparr>scheme = sch, secure = (sch = ''https''),
                 uri_host = (if lower then map tolower h else h),
                 uri_port = p, uri_path = from_char CHR ''/'' r\<rparr>))"
proof (cases "CHR '':'' \<in> set uri")
  case False
  then have "\<not> has_scheme uri" by (auto simp: has_scheme_def)
  moreover have "find_char CHR '':'' uri 0 = None" using False by (simp add: find_char_def index_of_split)
  ultimately show ?thesis by (simp add: extractUri_def)
next
  case True
  let ?b = "before_char CHR '':'' uri" and ?t = "tl (from_char CHR '':'' uri)"
  have "from_char CHR '':'' uri \<noteq> []" "hd (from_char CHR '':'' uri) = CHR '':''"
    using True hd_dropWhile [of "\<lambda>x. x \<noteq> CHR '':''" uri] by (auto simp: from_char_def dropWhile_eq_Nil_conv)
  then have "from_char CHR '':'' uri = CHR '':'' # ?t" by (metis list.collapse)
  then have u: "uri = ?b @ CHR '':'' # ?t" by (metis before_from)
  have f: "find_char CHR '':'' uri 0 = Some (length ?b)" using True by (simp add: find_char_def index_of_split)
  have sb: "substr uri 0 (length ?b) = Inr ?b" by (simp add: substr_def take_before)
  have hs: "has_scheme uri \<longleftrightarrow> map tolower ?b \<in> {''http'', ''https''}"
    unfolding has_scheme_iff using True by (intro iffI conjI) (elim conjE)
  let ?pos = "if length ?b + 1 + 2 \<le> length uri \<and> uri ! (length ?b + 1) = CHR ''/'' \<and>
      uri ! (length ?b + 1 + 1) = CHR ''/'' then length ?b + 1 + 2 else length ?b + 1"
  let ?r = "uri_rest ?t"
  have n: "uri ! (length ?b + 1) = ?t ! 0" "uri ! (length ?b + 1 + 1) = ?t ! 1"
    by (subst u, simp add: nth_append)+
  have l: "length uri = length ?b + 1 + length ?t" by (subst u) simp
  have d1: "drop (length ?b + 1) uri = ?t" by (subst (2) u) simp
  have d2: "drop (length ?b + 1 + 2) uri = drop 2 ?t"
    by (simp only: d1 [symmetric] drop_drop add.commute [of 2])
  have c: "(length ?b + 1 + 2 \<le> length uri \<and> uri ! (length ?b + 1) = CHR ''/'' \<and>
      uri ! (length ?b + 1 + 1) = CHR ''/'') \<longleftrightarrow> (2 \<le> length ?t \<and> ?t ! 0 = CHR ''/'' \<and> ?t ! 1 = CHR ''/'')"
    unfolding n l by linarith
  have d: "drop ?pos uri = ?r"
    unfolding c uri_rest_def by (simp only: if_distrib [of "\<lambda>i. drop i uri"] d1 d2)
  have "\<not> length uri < ?pos" by (simp add: l)
  note d = d this
  show ?thesis
  proof (cases "has_scheme uri")
    case False
    then show ?thesis using hs by (simp add: extractUri_def f sb)
  next
    case True
    let ?hp = "before_char CHR ''/'' ?r" and ?path = "from_char CHR ''/'' ?r"
    have split: "(case find_char CHR ''/'' uri ?pos of
           None \<Rightarrow> bindE (substr_from uri ?pos) (\<lambda>hp. Inr (hp, []))
         | Some host_end \<Rightarrow> bindE (substr uri ?pos (host_end - ?pos)) (\<lambda>hp.
             bindE (substr_from uri host_end) (\<lambda>path. Inr (hp, path)))) = Inr (?hp, ?path)"
    proof (cases "CHR ''/'' \<in> set ?r")
      case True
      then have fc: "find_char CHR ''/'' uri ?pos = Some (?pos + length ?hp)"
        by (simp only: find_char_def d(1) index_of_split) simp
      have "length ?hp \<le> length ?r" by (simp add: before_char_def length_takeWhile_le)
      moreover have "length ?r = length uri - ?pos" unfolding d(1) [symmetric] by simp
      ultimately have "\<not> length uri < ?pos + length ?hp" using d(2) by linarith
      moreover have "drop (?pos + length ?hp) uri = ?path"
        by (simp only: add.commute [of ?pos] drop_drop [symmetric] d(1) drop_before)
      moreover have "slice ?pos (length ?hp) uri = ?hp" by (simp only: slice_def d(1) take_before)
      ultimately show ?thesis unfolding fc by (simp add: substr_def substr_from_def d(2))
    next
      case False
      then have fc: "find_char CHR ''/'' uri ?pos = None"
        by (simp only: find_char_def d(1) index_of_split) simp
      have "substr_from uri ?pos = Inr ?r" using d by (simp only: substr_from_def if_False)
      then show ?thesis unfolding fc using before_char_all [OF False] by simp
    qed
    let ?h = "before_char CHR '':'' ?hp"
    have port: "(case find_char CHR '':'' ?hp 0 of
           None \<Rightarrow> Inr (?hp, if sec then 443 else 80)
         | Some port_sep \<Rightarrow> bindE (substr ?hp 0 port_sep) (\<lambda>host.
             bindE (substr_from ?hp (port_sep + 1)) (\<lambda>port_str.
             bindE (if port_str = [] then Inr (if sec then 443 else 80) else stoi port_str)
               (\<lambda>port. Inr (host, port))))) = bindE (uri_port_of sec ?hp) (\<lambda>p. Inr (?h, p))" for sec
    proof (cases "CHR '':'' \<in> set ?hp")
      case True
      then have fc: "find_char CHR '':'' ?hp 0 = Some (length ?h)" by (simp add: find_char_def index_of_split)
      have dr: "drop (length ?h + 1) ?hp = tl (from_char CHR '':'' ?hp)"
        by (simp only: add.commute [of "length ?h"] drop_drop [symmetric] drop_before) (simp add: drop_Suc)
      have "length ?h < length ?hp"
        using True index_of_Some [of "CHR '':''" ?hp "length ?h"] by (simp add: index_of_split)
      then show ?thesis unfolding fc using True dr
        by (simp add: substr_def substr_from_def take_before uri_port_of_def)
    next
      case False
      then have fc: "find_char CHR '':'' ?hp 0 = None" by (simp add: find_char_def index_of_split)
      show ?thesis using before_char_all [OF False] False unfolding fc by (simp add: uri_port_of_def)
    qed
    have sch: "map tolower ?b = ''http'' \<or> map tolower ?b = ''https''" using True hs by simp
    then show ?thesis
      unfolding extractUri_def f option.case sb bindE_Inr Let_def split prod.case port bindE_assoc
      using True by auto
  qed
qed

text \<open>C22: \<open>extractUri\<close> never cuts a string out of range: it refuses exactly the texts that do not start
  with the scheme http or https, and otherwise fails only where \<open>std::stoi\<close> does on the port; what it
  returns has a lower-case scheme, the matching flag, a port in the range of \<open>int\<close>, a host
  without a slash or a colon and a path that is empty or starts with a slash.\<close>

theorem extractUri_typed:
  "case extractUri uri lower of
     Inl e \<Rightarrow> (if has_scheme uri then e \<in> {Invalid_argument ''stoi'', Out_of_range ''stoi''} else e = no_scheme)
   | Inr x \<Rightarrow> has_scheme uri \<and> scheme x \<in> {''http'', ''https''} \<and> secure x = (scheme x = ''https'') \<and>
       - (2 ^ 31) \<le> uri_port x \<and> uri_port x < 2 ^ 31 \<and>
       CHR ''/'' \<notin> set (uri_host x) \<and> CHR '':'' \<notin> set (uri_host x) \<and>
       (uri_path x = [] \<or> hd (uri_path x) = CHR ''/'')"
proof (cases "has_scheme uri")
  case False
  then show ?thesis by (simp add: extractUri_pieces)
next
  case True
  define r where "r = uri_rest (tl (from_char CHR '':'' uri))"
  define hp where "hp = before_char CHR ''/'' r"
  define h where "h = before_char CHR '':'' hp"
  let ?sch = "map tolower (before_char CHR '':'' uri)"
  have sch: "?sch \<in> {''http'', ''https''}"
    using True by (simp only: has_scheme_iff)
  have sub: "set h \<subseteq> set hp" by (auto simp: h_def before_char_def dest: set_takeWhileD)
  have no: "CHR ''/'' \<notin> set h" "CHR '':'' \<notin> set h"
    using sub by (auto simp: h_def hp_def before_char_no)
  have "CHR ''/'' \<notin> set (map tolower h)" "CHR '':'' \<notin> set (map tolower h)"
    using no by (simp_all only: set_map image_iff tolower_special) blast+
  with no have host: "CHR ''/'' \<notin> set (if lower then map tolower h else h)"
      "CHR '':'' \<notin> set (if lower then map tolower h else h)" by presburger+
  have path: "from_char CHR ''/'' r = [] \<or> hd (from_char CHR ''/'' r) = CHR ''/''"
    using hd_dropWhile [of "\<lambda>x. x \<noteq> CHR ''/''" r] by (auto simp: from_char_def)
  have e: "extractUri uri lower = bindE (uri_port_of (?sch = ''https'') hp) (\<lambda>p.
      Inr \<lparr>scheme = ?sch, secure = (?sch = ''https''), uri_host = (if lower then map tolower h else h),
        uri_port = p, uri_path = from_char CHR ''/'' r\<rparr>)"
    unfolding extractUri_pieces r_def hp_def h_def Let_def using True by simp
  show ?thesis
  proof (cases "uri_port_of (?sch = ''https'') hp")
    case (Inl x)
    from uri_port_of_error [OF this] show ?thesis using True by (simp add: e Inl)
  next
    case (Inr p)
    from uri_port_of_range [OF this] show ?thesis using True sch host path unfolding e Inr bindE_Inr sum.case by simp
  qed
qed

text \<open>C21: the parts of an address are found: scheme, host, port and path put together and taken apart again
  are the same, with the default port of the scheme where the text names none.\<close>

theorem extractUri_roundtrip:
  assumes "map tolower sch = (if sec then ''https'' else ''http'')"
    and "CHR '':'' \<notin> set h" and "CHR ''/'' \<notin> set h" and "path = [] \<or> hd path = CHR ''/''"
    and "pt = [] \<and> port = (if sec then 443 else 80) \<or> pt = '':'' \<and> port = (if sec then 443 else 80) \<or>
      (\<exists>n. pt = '':'' @ to_string n \<and> n < 2 ^ 31 \<and> port = int n)"
  shows "extractUri (sch @ ''://'' @ h @ pt @ path) False =
    Inr \<lparr>scheme = map tolower sch, secure = sec, uri_host = h, uri_port = port, uri_path = path\<rparr>"
proof -
  let ?u = "sch @ ''://'' @ h @ pt @ path" and ?r = "h @ pt @ path" and ?hp = "h @ pt"
  have sch: "map tolower sch \<in> {''http'', ''https''}" using assms(1) by simp
  then have hs: "has_scheme ?u" unfolding has_scheme_def by auto
  note nc = no_colon_scheme [OF sch]
  have bc: "before_char CHR '':'' ?u = sch" "from_char CHR '':'' ?u = ''://'' @ ?r"
    using before_char_eq [OF nc] from_char_eq [OF nc] by auto
  have ur: "uri_rest (tl (''://'' @ ?r)) = ?r" by (simp add: uri_rest_def)
  have "CHR ''/'' \<notin> set (to_string n)" for n
    using to_string_digits [of n] by (auto simp: is_digit_def)
  then have np: "CHR ''/'' \<notin> set ?hp" using assms(3,5) by auto
  have hp: "before_char CHR ''/'' ?r = ?hp" "from_char CHR ''/'' ?r = path"
    using assms(4) before_char_eq [OF np] from_char_eq [OF np] before_char_all [OF np]
    by (cases path; auto)+
  have h: "before_char CHR '':'' ?hp = h"
    using assms(2,5) before_char_eq [OF assms(2)] before_char_all [OF assms(2)] by auto
  have dg: "stoi (to_string n) = Inr (int n)" if "n < 2 ^ 31" for n
    using that by (simp add: stoi_def parse_int_to_string)
  have "uri_port_of sec ?hp = Inr port"
    using assms(2,5) from_char_eq [OF assms(2)] to_string_digits dg by (auto simp: uri_port_of_def)
  moreover have "(map tolower sch = ''https'') = sec" using assms(1) by simp
  ultimately show ?thesis using hs unfolding extractUri_pieces bc ur hp h Let_def by simp
qed

theorem extractUri_roundtrip_witness:
  "extractUri ''HTTPS://Example.org:81/a'' False =
    Inr \<lparr>scheme = ''https'', secure = True, uri_host = ''Example.org'', uri_port = 81, uri_path = ''/a''\<rparr>"
proof -
  have t: "to_string 81 = ''81''" by code_simp
  have "extractUri (''HTTPS'' @ ''://'' @ ''Example.org'' @ ('':'' @ to_string 81) @ ''/a'') False =
      Inr \<lparr>scheme = map tolower ''HTTPS'', secure = True, uri_host = ''Example.org'', uri_port = int 81,
        uri_path = ''/a''\<rparr>"
  proof (rule extractUri_roundtrip)
    show "map tolower ''HTTPS'' = (if True then ''https'' else ''http'')" by code_simp
    show "'':'' @ to_string 81 = [] \<and> int 81 = (if True then 443 else 80) \<or>
        '':'' @ to_string 81 = '':'' \<and> int 81 = (if True then 443 else 80) \<or>
        (\<exists>n. '':'' @ to_string 81 = '':'' @ to_string n \<and> n < 2 ^ 31 \<and> int 81 = int n)"
      by (intro disjI2 exI [of _ 81]) simp
  qed simp_all
  moreover have "map tolower ''HTTPS'' = ''https''" by code_simp
  ultimately show ?thesis unfolding t by simp
qed

section \<open>What does not end\<close>

text \<open>At the end of memory a read yields nothing, which \<open>read_line\<close> takes for a null character.\<close>

lemma read_line_never_returns:
  assumes "mem_plain s w" and "mem_ahead s w = []"
  shows "read_line P d f res s w = Inl Out_of_fuel"
proof (induction f arbitrary: res)
  case (Suc f)
  have "buffer_size s = buffer_read_index s" "is_buffer_serial s" "\<not> is_count_serial s"
    using assms by (auto simp: mem_plain_def mem_ok_def mem_ahead_def)
  then have "readBytes P d [0] s w = Inr (0, [0], s, w)"
    by (simp add: readBytes_def readBytes_body_def)
  moreover have "char_of (0 :: nat) \<noteq> CR \<and> char_of (0 :: nat) \<noteq> LF" by code_simp
  ultimately show ?case using Suc by (simp add: read_line.simps(2))
qed simp

text \<open>A server that redirects to the same address is asked again without end.\<close>

lemma restSync_redirect_loop:
  assumes "\<And>i. \<exists>r. rest_once P d f heap connect i verb uri hdrs bdy = Inr r \<and> statusCode r = ''302'' \<and>
      location r = uri"
  shows "restSync P d f heap connect n k verb uri hdrs bdy = Inl Out_of_fuel"
proof (induction n arbitrary: k)
  case (Suc n)
  obtain r where "rest_once P d f heap connect k verb uri hdrs bdy = Inr r" "statusCode r = ''302''"
      "location r = uri" using assms by blast
  with Suc show ?case by simp
qed simp

section \<open>The table of asynchronous requests\<close>

text \<open>A number that is not in the table is left alone; a number that is in it, whether its request is still
  running or is ending itself, takes the program down.\<close>

lemma cancel_unknown: "cid \<notin> clients c \<Longrightarrow> cancelRestAsync cid c = Inr (False, cid, c)"
  by (simp add: cancelRestAsync_def)

lemma cancel_known_terminates: "cid \<in> clients c \<Longrightarrow> cancelRestAsync cid c = Inl Std_terminate"
  by (simp add: cancelRestAsync_def erase_client_def)

lemma async_request_ends_in_terminate:
  "restAsync c = (cid, c') \<Longrightarrow> erase_client cid c' = Inl Std_terminate"
  by (auto simp: restAsync_def erase_client_def Let_def)

end
