(* ===== verification/Tcp.thy ===== *)
theory Tcp
  imports Iostream
begin

text \<open>
  \<open>tcp_streambuf\<close> of tcp_streambuf.cpp: a stream buffer over a connected socket, with or without TLS.
  The operating system and OpenSSL are an argument of the model.
\<close>

section \<open>The system\<close>

record socket_wait_result =
  readable :: bool
  writable :: bool
  excepted :: bool

definition no_wait_result :: socket_wait_result where
  "no_wait_result = \<lparr>readable = False, writable = False, excepted = False\<rparr>"

text \<open>
  What \<open>SSL_get_error\<close> tells, and what \<open>recv\<close> and \<open>SSL_read\<close> answer: the bytes stored, as many as the
  returned count, or a negative result.
\<close>

datatype ssl_error = Ssl_none | Ssl_want_read | Ssl_want_write | Ssl_zero_return | Ssl_failed

datatype received = Received "byte list" | Would_block | Recv_failed

text \<open>
  The calls the library makes.  \<open>SSL_read\<close> and \<open>SSL_write\<close> get a count converted to \<open>int\<close>.  \<open>select\<close> gets the first argument of the call, the descriptor in the
  sets and the time limit in milliseconds, if any; it answers its result and the sets.  \<open>connect\<close> also
  tells whether \<open>errno\<close> is \<open>EINPROGRESS\<close>; ports are in host order, 16 bits.  TLS connections and contexts are named by numbers;
  the error queue of OpenSSL gives its reasons.
\<close>

record 'k system =
  sys_select :: "int \<Rightarrow> int \<Rightarrow> bool \<Rightarrow> bool \<Rightarrow> int option \<Rightarrow> 'k \<Rightarrow> int \<times> socket_wait_result \<times> 'k"
  sys_recv :: "int \<Rightarrow> nat \<Rightarrow> 'k \<Rightarrow> received \<times> 'k"
  sys_recv_dontwait :: "int \<Rightarrow> nat \<Rightarrow> 'k \<Rightarrow> received \<times> 'k"
  sys_send :: "int \<Rightarrow> byte list \<Rightarrow> 'k \<Rightarrow> int \<times> 'k"
  sys_shutdown :: "int \<Rightarrow> 'k \<Rightarrow> 'k"
  sys_close :: "int \<Rightarrow> 'k \<Rightarrow> 'k"
  sys_fionread :: "int \<Rightarrow> 'k \<Rightarrow> int option"
  sys_outq :: "int \<Rightarrow> 'k \<Rightarrow> int option"
  sys_sndbuf :: "int \<Rightarrow> 'k \<Rightarrow> int option"
  ssl_read :: "nat \<Rightarrow> int \<Rightarrow> 'k \<Rightarrow> byte list option \<times> ssl_error \<times> 'k"
  ssl_write :: "nat \<Rightarrow> byte list \<Rightarrow> int \<Rightarrow> 'k \<Rightarrow> int \<times> ssl_error \<times> 'k"
  ssl_shutdown :: "nat \<Rightarrow> 'k \<Rightarrow> int \<times> 'k"
  ssl_free :: "nat \<Rightarrow> 'k \<Rightarrow> 'k"
  sys_socket :: "'k \<Rightarrow> int \<times> 'k"
  sys_set_nonblocking :: "int \<Rightarrow> 'k \<Rightarrow> bool \<times> 'k"
  sys_bind :: "int \<Rightarrow> nat \<Rightarrow> 'k \<Rightarrow> int \<times> 'k"
  sys_listen :: "int \<Rightarrow> nat \<Rightarrow> 'k \<Rightarrow> int \<times> 'k"
  sys_accept :: "int \<Rightarrow> 'k \<Rightarrow> int \<times> 'k"
  sys_inet_pton :: "string \<Rightarrow> int"
  sys_connect :: "int \<Rightarrow> string \<Rightarrow> nat \<Rightarrow> 'k \<Rightarrow> int \<times> bool \<times> 'k"
  sys_so_error :: "int \<Rightarrow> 'k \<Rightarrow> int"
  ssl_new :: "nat \<Rightarrow> 'k \<Rightarrow> nat \<times> 'k"
  ssl_verify_none :: "nat \<Rightarrow> 'k \<Rightarrow> 'k"
  ssl_set_fd :: "nat \<Rightarrow> int \<Rightarrow> 'k \<Rightarrow> 'k"
  ssl_set_host :: "nat \<Rightarrow> string \<Rightarrow> 'k \<Rightarrow> 'k"
  ssl_connect :: "nat \<Rightarrow> 'k \<Rightarrow> int \<times> 'k"
  ssl_accept :: "nat \<Rightarrow> 'k \<Rightarrow> int \<times> 'k"
  ssl_ctx_free :: "nat \<Rightarrow> 'k \<Rightarrow> 'k"
  ssl_errors :: "'k \<Rightarrow> string list \<times> 'k"

section \<open>State\<close>

text \<open>\<open>gbuffer\<close> and \<open>pbuffer\<close> are never used.\<close>

record tcp_streambuf =
  ctx_fd_closed :: bool
  connection_closed :: bool
  stream_empty :: bool
  is_async :: bool
  write_pos :: int
  read_pos :: int
  write_length :: int
  read_length :: int
  fd :: int
  ssl :: "nat option"

definition tcp_streambuf_ctor :: "int \<times> nat option \<Rightarrow> tcp_streambuf" where
  "tcp_streambuf_ctor p = \<lparr>ctx_fd_closed = False, connection_closed = False, stream_empty = True,
     is_async = False, write_pos = 0, read_pos = 0, write_length = 0, read_length = 0,
     fd = fst p, ssl = snd p\<rparr>"

section \<open>Waiting\<close>

definition wait_for_socket ::
  "'k system \<Rightarrow> int \<Rightarrow> int \<Rightarrow> bool \<Rightarrow> bool \<Rightarrow> 'k \<Rightarrow> socket_wait_result \<times> 'k" where
  "wait_for_socket N sock timeout_ms want_read want_write k =
     (case sys_select N (sock + 1) sock want_read want_write
         (if timeout_ms \<ge> 0 then Some timeout_ms else None) k of (res, sets, k) \<Rightarrow>
       if res < 0 then (no_wait_result, k)
       else if res > 0 then (sets, k)
       else (no_wait_result, k))"

definition wait_readable :: "'k system \<Rightarrow> int \<Rightarrow> int \<Rightarrow> 'k \<Rightarrow> bool \<times> 'k" where
  "wait_readable N sock timeout_ms k =
     (case wait_for_socket N sock timeout_ms True False k of (r, k) \<Rightarrow> (readable r, k))"

definition wait_writable :: "'k system \<Rightarrow> int \<Rightarrow> int \<Rightarrow> 'k \<Rightarrow> bool \<times> 'k" where
  "wait_writable N sock timeout_ms k =
     (case wait_for_socket N sock timeout_ms False True k of (r, k) \<Rightarrow> (writable r, k))"

definition tcp_wait_for_socket ::
  "'k system \<Rightarrow> tcp_streambuf \<Rightarrow> int \<Rightarrow> bool \<Rightarrow> bool \<Rightarrow> 'k \<Rightarrow> socket_wait_result \<times> 'k" where
  "tcp_wait_for_socket N t timeout_ms want_read want_write k =
     (case sys_select N (fd t + 1) (fd t) want_read want_write
         (if timeout_ms \<ge> 0 then Some timeout_ms else None) k of (res, sets, k) \<Rightarrow>
       if res < 0 then (no_wait_result, k)
       else if res > 0 then (sets, k)
       else (no_wait_result, k))"

definition tcp_wait_readable :: "'k system \<Rightarrow> tcp_streambuf \<Rightarrow> int \<Rightarrow> 'k \<Rightarrow> bool \<times> 'k" where
  "tcp_wait_readable N t timeout_ms k =
     (case tcp_wait_for_socket N t timeout_ms True False k of (r, k) \<Rightarrow> (readable r, k))"

definition tcp_wait_writable :: "'k system \<Rightarrow> tcp_streambuf \<Rightarrow> int \<Rightarrow> 'k \<Rightarrow> bool \<times> 'k" where
  "tcp_wait_writable N t timeout_ms k =
     (case tcp_wait_for_socket N t timeout_ms False True k of (r, k) \<Rightarrow> (writable r, k))"

section \<open>Reading\<close>

text \<open>
  The loop around \<open>SSL_read\<close>; its number bounds the calls.  The result is \<open>None\<close> when a wait failed or
  ran out of time.
\<close>

fun ssl_read_loop ::
  "'k system \<Rightarrow> tcp_streambuf \<Rightarrow> nat \<Rightarrow> nat \<Rightarrow> nat \<Rightarrow> 'k \<Rightarrow>
   ((byte list option \<times> ssl_error) option \<times> 'k) cpp" where
  "ssl_read_loop N t c 0 n k = Inl Out_of_fuel"
| "ssl_read_loop N t c (Suc f) n k =
     (case ssl_read N c (i32 (int n)) k of (bytes, err, k) \<Rightarrow>
       (case err of
          Ssl_want_read \<Rightarrow> (case tcp_wait_readable N t 30000 k of (ok, k) \<Rightarrow>
            if ok then ssl_read_loop N t c f n k else Inr (None, k))
        | Ssl_want_write \<Rightarrow> (case tcp_wait_writable N t 30000 k of (ok, k) \<Rightarrow>
            if ok then ssl_read_loop N t c f n k else Inr (None, k))
        | _ \<Rightarrow> Inr (Some (bytes, err), k)))"

text \<open>What arrived is counted; more than asked for overruns the destination.\<close>

definition count_read :: "byte list \<Rightarrow> tcp_streambuf \<Rightarrow> tcp_streambuf" where
  "count_read bs t = t\<lparr>stream_empty := False, read_pos := read_pos t + int (length bs),
     read_length := read_length t + int (length bs)\<rparr>"

definition tcp_xsgetn ::
  "'k system \<Rightarrow> nat \<Rightarrow> nat \<Rightarrow> tcp_streambuf \<times> 'k \<Rightarrow> (byte list \<times> tcp_streambuf \<times> 'k) cpp" where
  "tcp_xsgetn N f n tk =
     (case tk of (t, k) \<Rightarrow>
       if n = 0 then Inr ([], t, k)
       else (case ssl t of
         Some c \<Rightarrow> bindE (ssl_read_loop N t c f n k) (\<lambda>(answer, k).
           (case answer of
              None \<Rightarrow> Inr ([], t, k)
            | Some (bytes, err) \<Rightarrow>
                (case bytes of
                   Some bs \<Rightarrow>
                     if n < length bs then Inl Out_of_bounds
                     else if bs \<noteq> [] then Inr (bs, count_read bs t, k)
                     else if err = Ssl_zero_return then Inr ([], t\<lparr>connection_closed := True\<rparr>, k)
                     else Inr ([], t\<lparr>stream_empty := True\<rparr>, k)
                 | None \<Rightarrow> Inr ([], t\<lparr>stream_empty := True\<rparr>, k))))
       | None \<Rightarrow>
           (case tcp_wait_readable N t 30000 k of (ok, k) \<Rightarrow>
             if \<not> ok then Inr ([], t, k)
             else (case sys_recv N (fd t) (wrap64 (i32 (int n))) k of (answer, k) \<Rightarrow>
               (case answer of
                  Received bs \<Rightarrow>
                    if n < length bs then Inl Out_of_bounds
                    else if bs \<noteq> [] then Inr (bs, count_read bs t, k)
                    else Inr ([], t\<lparr>connection_closed := True\<rparr>, k)
                | Would_block \<Rightarrow> Inr ([], t\<lparr>stream_empty := True\<rparr>, k)
                | Recv_failed \<Rightarrow> Inr ([], t\<lparr>connection_closed := True\<rparr>, k))))))"

section \<open>Writing\<close>

fun ssl_write_loop ::
  "'k system \<Rightarrow> tcp_streambuf \<Rightarrow> nat \<Rightarrow> nat \<Rightarrow> byte list \<Rightarrow> 'k \<Rightarrow> (nat option \<times> 'k) cpp" where
  "ssl_write_loop N t c 0 bs k = Inl Out_of_fuel"
| "ssl_write_loop N t c (Suc f) bs k =
     (case ssl_write N c bs (i32 (int (length bs))) k of (r, err, k) \<Rightarrow>
       (case err of
          Ssl_want_read \<Rightarrow> (case tcp_wait_readable N t 30000 k of (ok, k) \<Rightarrow>
            if ok then ssl_write_loop N t c f bs k else Inr (None, k))
        | Ssl_want_write \<Rightarrow> (case tcp_wait_writable N t 30000 k of (ok, k) \<Rightarrow>
            if ok then ssl_write_loop N t c f bs k else Inr (None, k))
        | _ \<Rightarrow> Inr (Some (wrap64 r), k)))"

text \<open>
  \<open>sent\<close> is a \<open>size_t\<close>, so the test \<open>sent <= 0\<close> finds only zero; a negative result is added to the
  positions, modulo \<open>2 ^ 64\<close>, and returned.
\<close>

definition count_sent :: "nat \<Rightarrow> tcp_streambuf \<Rightarrow> int \<times> tcp_streambuf" where
  "count_sent sent t =
     (if sent = 0 then (-1, t)
      else (i64 (int sent), t\<lparr>write_pos := i64 (write_pos t + int sent),
        write_length := i64 (write_length t + int sent)\<rparr>))"

definition tcp_xsputn ::
  "'k system \<Rightarrow> nat \<Rightarrow> byte list \<Rightarrow> tcp_streambuf \<times> 'k \<Rightarrow> (int \<times> tcp_streambuf \<times> 'k) cpp" where
  "tcp_xsputn N f bs tk =
     (case tk of (t, k) \<Rightarrow>
       if bs = [] then Inr (0, t, k)
       else (case tcp_wait_writable N t 30000 k of (ok, k) \<Rightarrow>
         if \<not> ok then Inr (0, t, k)
         else (case ssl t of
           Some c \<Rightarrow> bindE (ssl_write_loop N t c f bs k) (\<lambda>(sent, k).
             (case sent of
                None \<Rightarrow> Inr (0, t, k)
              | Some sent \<Rightarrow> (case count_sent sent t of (r, t) \<Rightarrow> Inr (r, t, k))))
         | None \<Rightarrow> (case sys_send N (fd t) bs k of (r, k) \<Rightarrow>
             (case count_sent (wrap64 r) t of (r, t) \<Rightarrow> Inr (r, t, k))))))"

section \<open>Positions\<close>

definition tcp_seekoff :: "int \<Rightarrow> seekdir \<Rightarrow> openmode \<Rightarrow> tcp_streambuf \<Rightarrow> int \<times> tcp_streambuf" where
  "tcp_seekoff off way which t =
     (if m_out which then
        (let p = i64 (case way of Beg \<Rightarrow> off | Cur \<Rightarrow> write_pos t + off | End \<Rightarrow> write_length t + off)
         in (p, t\<lparr>write_pos := p, write_length := max (write_length t) p\<rparr>))
      else if m_in which then
        (let p = i64 (case way of Beg \<Rightarrow> off | Cur \<Rightarrow> read_pos t + off | End \<Rightarrow> read_length t + off)
         in (p, t\<lparr>read_pos := p\<rparr>))
      else (-1, t))"

definition tcp_seekpos :: "int \<Rightarrow> openmode \<Rightarrow> tcp_streambuf \<Rightarrow> int \<times> tcp_streambuf" where
  "tcp_seekpos sp which t = tcp_seekoff sp Beg which t"

section \<open>The system's buffers and closing\<close>

definition bytes_available :: "'k system \<Rightarrow> tcp_streambuf \<Rightarrow> 'k \<Rightarrow> int cpp" where
  "bytes_available N t k = (case sys_fionread N (fd t) k of
     None \<Rightarrow> Inl (Runtime_error ''ioctl(FIONREAD) failed'')
   | Some n \<Rightarrow> Inr n)"

definition send_buffer_free :: "'k system \<Rightarrow> tcp_streambuf \<Rightarrow> 'k \<Rightarrow> int cpp" where
  "send_buffer_free N t k = (case sys_outq N (fd t) k of
     None \<Rightarrow> Inl (Runtime_error ''ioctl(TIOCOUTQ) failed'')
   | Some pending \<Rightarrow> (case sys_sndbuf N (fd t) k of
       None \<Rightarrow> Inl (Runtime_error ''getsockopt(SO_SNDBUF) failed'')
     | Some bufsize \<Rightarrow> Inr (i32 (bufsize - pending))))"

text \<open>\<open>close_socket\<close> takes what the peer still sends, a byte at a time; the number bounds the bytes.\<close>

fun drain :: "'k system \<Rightarrow> nat \<Rightarrow> int \<Rightarrow> 'k \<Rightarrow> 'k cpp" where
  "drain N 0 sock k = Inl Out_of_fuel"
| "drain N (Suc f) sock k =
     (case wait_readable N sock 1 k of (ok, k) \<Rightarrow>
       if \<not> ok then Inr k
       else (case sys_recv_dontwait N sock 1 k of (answer, k) \<Rightarrow>
         (case answer of
            Received bs \<Rightarrow> if bs = [] then Inr k else drain N f sock k
          | _ \<Rightarrow> Inr k)))"

definition close_socket :: "'k system \<Rightarrow> nat \<Rightarrow> int \<Rightarrow> 'k \<Rightarrow> (bool \<times> 'k) cpp" where
  "close_socket N f sock k =
     (if sock \<ge> 0 then
        bindE (drain N f sock (sys_shutdown N sock k)) (\<lambda>k. Inr (True, sys_close N sock k))
      else Inr (False, k))"

definition tcp_close ::
  "'k system \<Rightarrow> nat \<Rightarrow> tcp_streambuf \<times> 'k \<Rightarrow> (bool \<times> tcp_streambuf \<times> 'k) cpp" where
  "tcp_close N f tk =
     (case tk of (t, k) \<Rightarrow>
       if ctx_fd_closed t then Inr (False, t, k)
       else
         (let k = (case ssl t of
              Some c \<Rightarrow> (case ssl_shutdown N c k of (ret, k) \<Rightarrow>
                ssl_free N c (if ret = 0 then snd (ssl_shutdown N c k) else k))
            | None \<Rightarrow> k)
          in bindE (close_socket N f (fd t) k) (\<lambda>(r, k). Inr (True, t\<lparr>ctx_fd_closed := True\<rparr>, k))))"

text \<open>The destructor; \<open>sync\<close> is that of \<open>std::streambuf\<close> and does nothing.\<close>

definition tcp_destroy ::
  "'k system \<Rightarrow> nat \<Rightarrow> tcp_streambuf \<times> 'k \<Rightarrow> (tcp_streambuf \<times> 'k) cpp" where
  "tcp_destroy N f tk = bindE (tcp_close N f tk) (\<lambda>(r, tk). Inr tk)"

section \<open>As a stream buffer\<close>

text \<open>For \<open>std::ostream\<close> a negative result is one that differs from the count asked for.\<close>

definition tcp_vtable :: "'k system \<Rightarrow> nat \<Rightarrow> (tcp_streambuf \<times> 'k) vtable" where
  "tcp_vtable N f = \<lparr>sgetn = tcp_xsgetn N f,
     sputn = (\<lambda>bs tk. bindE (tcp_xsputn N f bs tk) (\<lambda>(r, tk). Inr (nat r, tk))),
     in_avail = (\<lambda>_. 0),
     sseekoff = (\<lambda>off way which (t, k). case tcp_seekoff off way which t of (p, t) \<Rightarrow> Inr (p, t, k)),
     sseekpos = (\<lambda>sp which (t, k). case tcp_seekpos sp which t of (p, t) \<Rightarrow> Inr (p, t, k))\<rparr>"

section \<open>Standard streams over a connection\<close>

text \<open>
  \<open>tcp_istream\<close>, \<open>tcp_ostream\<close> and \<open>tcp_iostream\<close> of tcp_iostream.cpp: a standard stream and the buffer it points
  to, one object.
\<close>

definition tcp_istream_ctor :: "int \<times> nat option \<Rightarrow> tcp_streambuf stream" where
  [simp]: "tcp_istream_ctor fd_ssl_pair = mk_stream (tcp_streambuf_ctor fd_ssl_pair)"

definition tcp_ostream_ctor :: "int \<times> nat option \<Rightarrow> tcp_streambuf stream" where
  [simp]: "tcp_ostream_ctor fd_ssl_pair = mk_stream (tcp_streambuf_ctor fd_ssl_pair)"

definition tcp_iostream_ctor :: "int \<times> nat option \<Rightarrow> tcp_streambuf stream" where
  [simp]: "tcp_iostream_ctor fd_ssl_pair = mk_stream (tcp_streambuf_ctor fd_ssl_pair)"

definition close_buf ::
  "'k system \<Rightarrow> nat \<Rightarrow> tcp_streambuf stream \<Rightarrow> 'k \<Rightarrow> (bool \<times> tcp_streambuf stream \<times> 'k) cpp" where
  [simp]: "close_buf N f st k = bindE (tcp_close N f (rdbuf st, k)) (\<lambda>(r, t, k). Inr (r, st\<lparr>rdbuf := t\<rparr>, k))"

definition tcp_istream_close ::
  "'k system \<Rightarrow> nat \<Rightarrow> tcp_streambuf stream \<Rightarrow> 'k \<Rightarrow> (bool \<times> tcp_streambuf stream \<times> 'k) cpp" where
  [simp]: "tcp_istream_close N f st k = close_buf N f st k"

definition tcp_ostream_close ::
  "'k system \<Rightarrow> nat \<Rightarrow> tcp_streambuf stream \<Rightarrow> 'k \<Rightarrow> (bool \<times> tcp_streambuf stream \<times> 'k) cpp" where
  [simp]: "tcp_ostream_close N f st k = close_buf N f st k"

definition tcp_iostream_close ::
  "'k system \<Rightarrow> nat \<Rightarrow> tcp_streambuf stream \<Rightarrow> 'k \<Rightarrow> (bool \<times> tcp_streambuf stream \<times> 'k) cpp" where
  [simp]: "tcp_iostream_close N f st k = close_buf N f st k"

section \<open>A system that delivers\<close>

text \<open>
  An instance of the system: one peer whose bytes arrive in segments, a descriptor table, and no TLS.
  \<open>select\<close> looks at descriptors below its first argument only, \<open>recv\<close> gives bytes of one segment.
\<close>

record pipe =
  inbox :: "byte list list"
  outbox :: "byte list"
  peer_done :: bool
  open_fds :: "int list"

definition pipe_select ::
  "int \<Rightarrow> int \<Rightarrow> bool \<Rightarrow> bool \<Rightarrow> int option \<Rightarrow> pipe \<Rightarrow> int \<times> socket_wait_result \<times> pipe" where
  "pipe_select nfds sock r w timeout k =
     (let r = (r \<and> sock < nfds \<and> (inbox k \<noteq> [] \<or> peer_done k)); w = (w \<and> sock < nfds)
      in (if r \<or> w then 1 else 0, \<lparr>readable = r, writable = w, excepted = False\<rparr>, k))"

definition pipe_recv :: "int \<Rightarrow> nat \<Rightarrow> pipe \<Rightarrow> received \<times> pipe" where
  "pipe_recv sock n k = (case inbox k of
     [] \<Rightarrow> (if peer_done k then Received [] else Would_block, k)
   | seg # segs \<Rightarrow> (Received (take n seg),
       k\<lparr>inbox := (if drop n seg = [] then segs else drop n seg # segs)\<rparr>))"

definition pipe_open :: "pipe \<Rightarrow> int \<times> pipe" where
  "pipe_open k = (let sock = int (length (open_fds k)) + 3 in (sock, k\<lparr>open_fds := sock # open_fds k\<rparr>))"

definition pipe_system :: "pipe system" where
  "pipe_system = \<lparr>sys_select = pipe_select, sys_recv = pipe_recv, sys_recv_dontwait = pipe_recv,
     sys_send = (\<lambda>sock bs k. (int (length bs), k\<lparr>outbox := outbox k @ bs\<rparr>)),
     sys_shutdown = (\<lambda>sock k. k),
     sys_close = (\<lambda>sock k. k\<lparr>open_fds := remove1 sock (open_fds k)\<rparr>),
     sys_fionread = (\<lambda>sock k. Some (int (length (concat (inbox k))))),
     sys_outq = (\<lambda>sock k. Some 0), sys_sndbuf = (\<lambda>sock k. Some 65536),
     ssl_read = (\<lambda>c n k. (None, Ssl_failed, k)), ssl_write = (\<lambda>c bs n k. (-1, Ssl_failed, k)),
     ssl_shutdown = (\<lambda>c k. (1, k)), ssl_free = (\<lambda>c k. k),
     sys_socket = pipe_open,
     sys_set_nonblocking = (\<lambda>sock k. (True, k)), sys_bind = (\<lambda>sock p k. (0, k)),
     sys_listen = (\<lambda>sock n k. (0, k)),
     sys_accept = (\<lambda>sock. pipe_open),
     sys_inet_pton = (\<lambda>ip. 1), sys_connect = (\<lambda>sock ip p k. (0, False, k)), sys_so_error = (\<lambda>sock k. 0),
     ssl_new = (\<lambda>ctx k. (0, k)), ssl_verify_none = (\<lambda>c k. k), ssl_set_fd = (\<lambda>c sock k. k),
     ssl_set_host = (\<lambda>c host k. k), ssl_connect = (\<lambda>c k. (-1, k)), ssl_accept = (\<lambda>c k. (-1, k)),
     ssl_ctx_free = (\<lambda>c k. k), ssl_errors = (\<lambda>k. ([], k))\<rparr>"

section \<open>Reading in order\<close>

text \<open>
  What the sockets interface promises of a connected stream socket: waiting takes nothing, and a
  read gives a piece of what the peer sent, no longer than asked for and empty only at the end.
\<close>

definition reliable :: "'k system \<Rightarrow> ('k \<Rightarrow> byte list) \<Rightarrow> int \<Rightarrow> bool" where
  "reliable N incoming sock \<longleftrightarrow>
     (\<forall>nfds r w timeout k. incoming (snd (snd (sys_select N nfds sock r w timeout k))) = incoming k) \<and>
     (\<forall>n k. case sys_recv N sock n k of
        (Received bs, k') \<Rightarrow> length bs \<le> n \<and> incoming k = bs @ incoming k'
      | (_, k') \<Rightarrow> incoming k' = incoming k)"

fun tcp_reads ::
  "'k system \<Rightarrow> nat \<Rightarrow> nat list \<Rightarrow> tcp_streambuf \<times> 'k \<Rightarrow> (byte list \<times> tcp_streambuf \<times> 'k) cpp" where
  "tcp_reads N f [] tk = Inr ([], tk)"
| "tcp_reads N f (n # ns) tk = bindE (tcp_xsgetn N f n tk) (\<lambda>(bs, tk).
     bindE (tcp_reads N f ns tk) (\<lambda>(bs', tk). Inr (bs @ bs', tk)))"

lemma tcp_wait_reliable:
  assumes "reliable N incoming (fd t)"
  shows "incoming (snd (tcp_wait_readable N t tmo k)) = incoming k"
  using assms by (auto simp: reliable_def tcp_wait_readable_def tcp_wait_for_socket_def split: prod.splits)
    (metis snd_conv)+

lemma tcp_xsgetn_reliable:
  assumes "reliable N incoming (fd t)" and "ssl t = None" and "n < 2 ^ 31"
  shows "\<exists>bs t' k'. tcp_xsgetn N f n (t, k) = Inr (bs, t', k') \<and> incoming k = bs @ incoming k' \<and>
    length bs \<le> n \<and> fd t' = fd t \<and> ssl t' = None \<and> ctx_fd_closed t' = ctx_fd_closed t \<and>
    read_pos t' = read_pos t + int (length bs) \<and> read_length t' = read_length t + int (length bs)"
proof (cases "n = 0")
  case True
  then show ?thesis using assms(2) by (simp add: tcp_xsgetn_def)
next
  case False
  obtain ok k1 where w: "tcp_wait_readable N t 30000 k = (ok, k1)" by fastforce
  have k1: "incoming k1 = incoming k" using tcp_wait_reliable [OF assms(1), of 30000 k] w by simp
  obtain ans k2 where r: "sys_recv N (fd t) n k1 = (ans, k2)" by fastforce
  have n: "wrap64 (i32 (int n)) = n" using assms(3) by simp
  have "case ans of Received bs \<Rightarrow> length bs \<le> n \<and> incoming k1 = bs @ incoming k2
      | _ \<Rightarrow> incoming k2 = incoming k1"
    using assms(1) r unfolding reliable_def by (metis (no_types, lifting) case_prod_conv)
  then show ?thesis using False assms(2) w r k1 n
    by (auto simp: tcp_xsgetn_def count_read_def split: received.splits)
qed

text \<open>C14: over a connected socket without TLS any sequence of reads delivers what the peer sent, in order
  and without loss or repetition, however the network splits it; the read position counts it.\<close>

theorem tcp_reads_in_order:
  assumes "reliable N incoming (fd t)" and "ssl t = None" and "\<forall>n \<in> set ns. n < 2 ^ 31"
  shows "\<exists>out t' k'. tcp_reads N f ns (t, k) = Inr (out, t', k') \<and> incoming k = out @ incoming k' \<and>
    read_length t' = read_length t + int (length out) \<and> length out \<le> sum_list ns"
  using assms
proof (induction ns arbitrary: t k)
  case (Cons n ns)
  obtain bs t1 k1 where a: "tcp_xsgetn N f n (t, k) = Inr (bs, t1, k1)" "incoming k = bs @ incoming k1"
      "length bs \<le> n" "fd t1 = fd t" "ssl t1 = None" "read_length t1 = read_length t + int (length bs)"
    using tcp_xsgetn_reliable [OF Cons.prems(1,2), of n f k] Cons.prems(3) by auto
  obtain out t2 k2 where "tcp_reads N f ns (t1, k1) = Inr (out, t2, k2)" "incoming k1 = out @ incoming k2"
      "read_length t2 = read_length t1 + int (length out)" "length out \<le> sum_list ns"
    using Cons.IH [of t1 k1] Cons.prems a(4,5) by auto
  then show ?case using a by simp
qed simp

lemma pipe_reliable: "reliable pipe_system (\<lambda>k. concat (inbox k)) sock"
  by (auto simp: reliable_def pipe_system_def pipe_select_def pipe_recv_def Let_def split: list.splits)

definition demo_pipe :: pipe where
  "demo_pipe = \<lparr>inbox = [[1, 2, 3], [4, 5]], outbox = [], peer_done = True, open_fds = [3]\<rparr>"

theorem tcp_reads_in_order_witness:
  "\<exists>out t' k'. tcp_reads pipe_system 0 [2, 10, 4] (tcp_streambuf_ctor (3, None), demo_pipe) = Inr (out, t', k') \<and>
    [1, 2, 3, 4, 5] = out @ concat (inbox k')"
  using tcp_reads_in_order [OF pipe_reliable, of "tcp_streambuf_ctor (3, None)" "[2, 10, 4]" 0 demo_pipe]
  by (auto simp: tcp_streambuf_ctor_def demo_pipe_def)

text \<open>
  A read of a stream asks the buffer once: a piece that is shorter than the count asked for sets the
  end-of-file and fail bits, although the rest is still to come, and the next read gets nothing.
\<close>

lemma tcp_short_read_fails_stream:
  "\<exists>st. istream_read (tcp_vtable pipe_system 0) 5 (mk_stream (tcp_streambuf_ctor (3, None), demo_pipe)) =
      Inr ([1, 2, 3], st) \<and> eofbit st \<and> failbit st \<and> concat (inbox (snd (rdbuf st))) = [4, 5] \<and>
    istream_read (tcp_vtable pipe_system 0) 2 st = Inr ([], st\<lparr>gcount := 0\<rparr>)"
  by (simp add: istream_read_def good_def mk_stream_def tcp_vtable_def tcp_xsgetn_def tcp_streambuf_ctor_def
      demo_pipe_def tcp_wait_readable_def tcp_wait_for_socket_def pipe_system_def pipe_select_def
      pipe_recv_def count_read_def Let_def wrap64_def i32_def)

text \<open>A failed \<open>send\<close> is not noticed: the positions go back by one.\<close>

lemma tcp_send_failure_moves_back:
  assumes "sys_send N (fd t) bs k1 = (-1, k2)" and "tcp_wait_writable N t 30000 k = (True, k1)"
    and "bs \<noteq> []" and "ssl t = None" and "write_pos t = 0" and "write_length t = 0"
  shows "tcp_xsputn N f bs (t, k) = Inr (-1, t\<lparr>write_pos := -1, write_length := -1\<rparr>, k2)"
  using assms by (simp add: tcp_xsputn_def count_sent_def wrap64_def i64_def)

section \<open>Closing\<close>

text \<open>What is promised of the descriptor being closed: the peer sends only so much more.\<close>

definition finite_peer :: "'k system \<Rightarrow> ('k \<Rightarrow> byte list) \<Rightarrow> int \<Rightarrow> bool" where
  "finite_peer N incoming sock \<longleftrightarrow>
     (\<forall>nfds r w timeout k. incoming (snd (snd (sys_select N nfds sock r w timeout k))) = incoming k) \<and>
     (\<forall>k. incoming (sys_shutdown N sock k) = incoming k) \<and>
     (\<forall>n k. case sys_recv_dontwait N sock n k of
        (Received bs, k') \<Rightarrow> incoming k = bs @ incoming k' | _ \<Rightarrow> True)"

lemma drain_ends:
  assumes "finite_peer N incoming sock" and "length (incoming k) < f"
  shows "\<exists>k'. drain N f sock k = Inr k'"
  using assms(2)
proof (induction f arbitrary: k)
  case (Suc f)
  obtain ok k1 where w: "wait_readable N sock 1 k = (ok, k1)" by fastforce
  have "incoming (snd (wait_for_socket N sock 1 True False k)) = incoming k"
    using assms(1) by (auto simp: finite_peer_def wait_for_socket_def split: prod.splits) (metis snd_conv)+
  then have k1: "incoming k1 = incoming k"
    using w by (auto simp: wait_readable_def split: prod.splits)
  obtain ans k2 where r: "sys_recv_dontwait N sock 1 k1 = (ans, k2)" by fastforce
  have "case ans of Received bs \<Rightarrow> incoming k1 = bs @ incoming k2 | _ \<Rightarrow> True"
    using assms(1) r unfolding finite_peer_def by (metis (no_types, lifting) case_prod_conv)
  then have "\<exists>k'. drain N f sock k2 = Inr k'" if "ans = Received bs" "bs \<noteq> []" for bs
    using Suc.IH [of k2] Suc.prems k1 that by (cases bs) auto
  then show ?case using w r by (auto split: received.splits)
qed simp

text \<open>C30: closing a stream whose peer sends no more than some number of bytes ends, answers true the first
  time and false, without a call to the system, every other time.\<close>

theorem tcp_close_once:
  assumes "finite_peer N incoming (fd t)" and "length (incoming k) < f" and "ssl t = None"
    and "\<not> ctx_fd_closed t"
  shows "\<exists>k'. tcp_close N f (t, k) = Inr (True, t\<lparr>ctx_fd_closed := True\<rparr>, k') \<and>
    (\<forall>g k''. tcp_close N g (t\<lparr>ctx_fd_closed := True\<rparr>, k'') = Inr (False, t\<lparr>ctx_fd_closed := True\<rparr>, k''))"
proof -
  have "length (incoming (sys_shutdown N (fd t) k)) < f" using assms(1,2) by (simp add: finite_peer_def)
  from drain_ends [OF assms(1) this] obtain k' where "drain N f (fd t) (sys_shutdown N (fd t) k) = Inr k'"
    by blast
  then show ?thesis using assms(3,4) by (simp add: tcp_close_def close_socket_def)
qed

lemma pipe_finite: "finite_peer pipe_system (\<lambda>k. concat (inbox k)) sock"
  by (auto simp: finite_peer_def pipe_system_def pipe_select_def pipe_recv_def Let_def split: list.splits)

theorem tcp_close_once_witness:
  "\<exists>k'. tcp_close pipe_system 6 (tcp_streambuf_ctor (3, None), demo_pipe) =
    Inr (True, (tcp_streambuf_ctor (3, None))\<lparr>ctx_fd_closed := True\<rparr>, k')"
  using tcp_close_once [OF pipe_finite, of demo_pipe 6 "tcp_streambuf_ctor (3, None)"]
  by (auto simp: demo_pipe_def tcp_streambuf_ctor_def)

section \<open>Over one segment\<close>

text \<open>A connection whose answer comes in one segment, or not at all, is a source; every connection of the
  instance is a sink.\<close>

definition one_segment :: "tcp_streambuf \<times> pipe \<Rightarrow> bool" where
  "one_segment tk \<longleftrightarrow> ssl (fst tk) = None \<and> length (inbox (snd tk)) \<le> 1 \<and> [] \<notin> set (inbox (snd tk))"

definition pipe_ahead :: "tcp_streambuf \<times> pipe \<Rightarrow> byte list" where
  "pipe_ahead tk = concat (inbox (snd tk))"

interpretation tcp_source: byte_source "tcp_vtable pipe_system f" pipe_ahead one_segment for f
proof
  fix b :: "tcp_streambuf \<times> pipe" and n :: nat
  assume inv: "one_segment b" and n: "n < 2 ^ 31"
  obtain t k where b: "b = (t, k)" by fastforce
  have w: "wrap64 (i32 (int n)) = n" using n by simp
  show "\<exists>b'. sgetn (tcp_vtable pipe_system f) n b = Inr (take n (pipe_ahead b), b') \<and>
      one_segment b' \<and> pipe_ahead b' = drop n (pipe_ahead b)"
  proof (cases "inbox k")
    case Nil
    then show ?thesis using inv unfolding b
      by (auto simp: one_segment_def pipe_ahead_def tcp_vtable_def tcp_xsgetn_def tcp_wait_readable_def
          tcp_wait_for_socket_def pipe_system_def pipe_select_def pipe_recv_def Let_def)
  next
    case (Cons seg segs)
    then have "segs = []" "seg \<noteq> []" "ssl t = None" using inv by (auto simp: one_segment_def b)
    then show ?thesis using Cons w unfolding b
      by (auto simp: one_segment_def pipe_ahead_def tcp_vtable_def tcp_xsgetn_def tcp_wait_readable_def
          tcp_wait_for_socket_def pipe_system_def pipe_select_def pipe_recv_def Let_def count_read_def)
  qed
qed

interpretation tcp_sink: byte_sink "tcp_vtable pipe_system f" "\<lambda>tk. outbox (snd tk)" "\<lambda>_. 2 ^ 31"
  "\<lambda>tk. ssl (fst tk) = None \<and> inbox (snd tk) = q" for f q
proof
  fix b :: "tcp_streambuf \<times> pipe" and bs :: "byte list"
  assume inv: "ssl (fst b) = None \<and> inbox (snd b) = q" and n: "length bs < 2 ^ 31"
  obtain t k where b: "b = (t, k)" by fastforce
  have w: "wrap64 (int (length bs)) = length bs" "i64 (int (length bs)) = int (length bs)" using n by simp_all
  show "\<exists>b'. sputn (tcp_vtable pipe_system f) bs b = Inr (length bs, b') \<and> (ssl (fst b') = None \<and> inbox (snd b') = q) \<and>
      outbox (snd b') = outbox (snd b) @ bs \<and> (2 :: nat) ^ 31 \<le> 2 ^ 31 + length bs"
    using inv w unfolding b
    by (auto simp: tcp_vtable_def tcp_xsputn_def tcp_wait_writable_def tcp_wait_for_socket_def
        pipe_system_def pipe_select_def count_sent_def Let_def)
qed

end
