(* ===== verification/Tcp_Peers.thy ===== *)
theory Tcp_Peers
  imports Tcp Ipv4 Serial
begin

text \<open>
  \<open>tcp_client\<close> and \<open>tcp_server\<close>: making a connection, and the server's table of accepted clients.
\<close>

section \<open>The client\<close>

definition network_port :: "int \<Rightarrow> nat" where
  "network_port port = nat (port mod 2 ^ 16)"

definition openssl_text :: "string list \<Rightarrow> string" where
  "openssl_text reasons = concat (map (\<lambda>e. ''OpenSSL Error: '' @ e @ [CHR 0x0A]) reasons)"

text \<open>
  A connection that fails throws after the system calls it has made, so the result is an error or a
  value, and in either case the state of the system.  Waiting for a connection in progress takes up
  to fifteen seconds.
\<close>

definition finish_connect :: "'k system \<Rightarrow> int \<Rightarrow> 'k \<Rightarrow> unit cpp \<times> 'k" where
  "finish_connect N sock k =
     (case sys_select N (sock + 1) sock False True (Some 15000) k of (sel, sets, k) \<Rightarrow>
       if sel > 0 \<and> writable sets then
         (if sys_so_error N sock k = 0 then (Inr (), k)
          else (Inl (Runtime_error ''Connection failed with socket error''), k))
       else if sel = 0 then (Inl (Runtime_error ''Connection timed out''), k)
       else (Inl (Runtime_error ''Select failed''), k))"

definition tls_connect :: "'k system \<Rightarrow> string \<Rightarrow> nat \<Rightarrow> int \<Rightarrow> 'k \<Rightarrow> unit cpp \<times> 'k" where
  "tls_connect N host c sock k =
     (case ssl_connect N c (ssl_set_host N c host (ssl_set_fd N c sock k)) of (ret, k) \<Rightarrow>
       if ret < 0 then
         (case ssl_errors N k of (reasons, k) \<Rightarrow>
           (Inl (Runtime_error (''SSL Connection failed: '' @ openssl_text reasons)), k))
       else (Inr (), k))"

definition tcp_connect ::
  "'k system \<Rightarrow> (string \<Rightarrow> string list) \<Rightarrow> string \<Rightarrow> int \<Rightarrow> nat option \<Rightarrow> bool \<Rightarrow> 'k \<Rightarrow>
   (int \<times> nat option) cpp \<times> 'k" where
  "tcp_connect N queryA host port ssl_ctx verifyCerts k =
     (case resolve_host_or_ip_to_ip queryA host of
        Inl e \<Rightarrow> (Inl e, k)
      | Inr ip \<Rightarrow>
       (case (case ssl_ctx of
           Some ctx \<Rightarrow> (case ssl_new N ctx k of (c, k) \<Rightarrow>
             (Some c, if verifyCerts then k else ssl_verify_none N c k))
         | None \<Rightarrow> (None, k)) of (conn, k) \<Rightarrow>
       (case sys_socket N k of (sock, k) \<Rightarrow>
         if sys_inet_pton N ip \<le> 0 then (Inl (Runtime_error ''Invalid address/Address not supported!''), k)
         else (case sys_connect N sock ip (network_port port) k of (result, in_progress, k) \<Rightarrow>
           (case (if result < 0 then
                    (if in_progress then finish_connect N sock k
                     else (Inl (Runtime_error ''Connection failed immediately''), k))
                  else (Inr (), k)) of
              (Inl e, k) \<Rightarrow> (Inl e, k)
            | (Inr _, k) \<Rightarrow>
              (case (case conn of Some c \<Rightarrow> tls_connect N host c sock k | None \<Rightarrow> (Inr (), k)) of
                 (Inl e, k) \<Rightarrow> (Inl e, k)
               | (Inr _, k) \<Rightarrow> (Inr (sock, conn), k)))))))"

text \<open>\<open>tcp_client\<close>: the stream buffer over the new connection, with the context it releases in the end.\<close>

definition tcp_client ::
  "'k system \<Rightarrow> (string \<Rightarrow> string list) \<Rightarrow> string \<Rightarrow> int \<Rightarrow> nat option \<Rightarrow> bool \<Rightarrow> 'k \<Rightarrow>
   (tcp_streambuf \<times> nat option) cpp \<times> 'k" where
  "tcp_client N queryA host port ssl_ctx verifyCerts k =
     (case tcp_connect N queryA host port ssl_ctx verifyCerts k of
        (Inl e, k) \<Rightarrow> (Inl e, k)
      | (Inr p, k) \<Rightarrow> (Inr (tcp_streambuf_ctor p, ssl_ctx), k))"

text \<open>Its destructor frees the context before the base class closes the connection.\<close>

definition tcp_client_destroy ::
  "'k system \<Rightarrow> nat \<Rightarrow> tcp_streambuf \<times> nat option \<Rightarrow> 'k \<Rightarrow> (tcp_streambuf \<times> 'k) cpp" where
  "tcp_client_destroy N f c k = (case c of (t, ctx) \<Rightarrow>
     tcp_destroy N f (t, case ctx of Some x \<Rightarrow> ssl_ctx_free N x k | None \<Rightarrow> k))"

section \<open>The server\<close>

text \<open>
  The streams of the clients and the \<open>Serial\<close> objects over them; \<open>clientStreamMap\<close> maps the number of
  a client to its tuple.  \<open>totalClients\<close> is not initialised: its first value is an argument of the
  constructor.
\<close>

type_synonym client_tuple = "int \<times> serial \<times> tcp_streambuf stream"

record tcp_server =
  srv_port :: int
  srv_bitStream :: bool
  srv_ssl_ctx :: "nat option"
  server_fd :: int
  totalClients :: nat
  clientStreamMap :: "nat \<Rightarrow> client_tuple option"
  fd_closed :: bool

definition server_close :: "'k system \<Rightarrow> nat \<Rightarrow> tcp_server \<Rightarrow> 'k \<Rightarrow> (bool \<times> tcp_server \<times> 'k) cpp" where
  "server_close N f sv k =
     (if fd_closed sv then Inr (False, sv, k)
      else bindE (close_socket N f (server_fd sv) k) (\<lambda>(r, k).
        Inr (True, sv\<lparr>fd_closed := True\<rparr>, k)))"

text \<open>
  The destructor closes the server and then destroys the streams of the clients, which close, in some
  order; the list of the clients still there is an argument.
\<close>

fun destroy_clients :: "'k system \<Rightarrow> nat \<Rightarrow> client_tuple list \<Rightarrow> 'k \<Rightarrow> 'k cpp" where
  "destroy_clients N f [] k = Inr k"
| "destroy_clients N f ((sock, ser, t) # cs) k =
     bindE (tcp_destroy N f (rdbuf t, k)) (\<lambda>(t, k). destroy_clients N f cs k)"

definition tcp_server_destroy ::
  "'k system \<Rightarrow> nat \<Rightarrow> (tcp_server \<Rightarrow> client_tuple list) \<Rightarrow> tcp_server \<Rightarrow> 'k \<Rightarrow> 'k cpp" where
  "tcp_server_destroy N f order sv k = bindE (server_close N f sv k) (\<lambda>(_, sv, k).
     destroy_clients N f (order sv) k)"

definition BACKLOG :: nat where "BACKLOG = 5"

text \<open>The steps of the constructor after the socket is made close it again when they fail.\<close>

definition server_fail :: "'k system \<Rightarrow> nat \<Rightarrow> tcp_server \<Rightarrow> 'k \<Rightarrow> string \<Rightarrow> tcp_server cpp \<times> 'k" where
  "server_fail N f sv k msg = (case server_close N f sv k of
     Inl e \<Rightarrow> (Inl e, k)
   | Inr (_, _, k) \<Rightarrow> (Inl (Runtime_error msg), k))"

definition tcp_server_ctor ::
  "'k system \<Rightarrow> nat \<Rightarrow> nat \<Rightarrow> int \<Rightarrow> bool \<Rightarrow> nat option \<Rightarrow> 'k \<Rightarrow> tcp_server cpp \<times> 'k" where
  "tcp_server_ctor N f junk port bits ctx k =
     (case sys_socket N k of (sock, k) \<Rightarrow>
       if sock = -1 then (Inl (Runtime_error ''Socket creation failed''), k)
       else
         (let sv = \<lparr>srv_port = port, srv_bitStream = bits, srv_ssl_ctx = ctx, server_fd = sock,
            totalClients = junk, clientStreamMap = Map.empty, fd_closed = False\<rparr>
          in case sys_set_nonblocking N sock k of (ok, k) \<Rightarrow>
            if \<not> ok then server_fail N f sv k ''SetNonBlocking failed''
            else (case sys_bind N sock (network_port port) k of (r, k) \<Rightarrow>
              if r = -1 then server_fail N f sv k ''Bind failed''
              else (case sys_listen N sock BACKLOG k of (r, k) \<Rightarrow>
                if r = -1 then server_fail N f sv k ''Listen failed'' else (Inr sv, k)))))"

text \<open>The first argument of \<open>select\<close> is 1, whatever the descriptor.\<close>

definition accept_with_timeout :: "'k system \<Rightarrow> int \<Rightarrow> int \<Rightarrow> 'k \<Rightarrow> int \<times> 'k" where
  "accept_with_timeout N listen_fd timeout_ms k =
     (case sys_select N 1 listen_fd True False (Some timeout_ms) k of (ret, sets, k) \<Rightarrow>
       if ret > 0 \<and> readable sets then sys_accept N listen_fd k else (-1, k))"

text \<open>
  \<open>acceptOne\<close>: the new descriptor or \<open>-1\<close>, and the number of the client the out pointer is set to; the
  TLS handshake's failure is only printed.  The stream's place in the world is its client's number.
\<close>

definition acceptOne ::
  "'k system \<Rightarrow> tcp_server \<Rightarrow> 'k \<Rightarrow> int \<times> nat option \<times> tcp_server \<times> 'k" where
  "acceptOne N sv k =
     (if fd_closed sv then (-1, None, sv, k)
      else case accept_with_timeout N (server_fd sv) 175 k of (client_fd, k) \<Rightarrow>
        if client_fd = -1 then (-1, None, sv, k)
        else
          (let cid = wrap64 (int (totalClients sv) + 1) in
           case (case srv_ssl_ctx sv of
               Some ctx \<Rightarrow> (case ssl_new N ctx k of (c, k) \<Rightarrow>
                 (case ssl_accept N c (ssl_set_fd N c client_fd k) of (ret, k) \<Rightarrow>
                   (Some c, if ret < 0 then snd (ssl_errors N k) else k)))
             | None \<Rightarrow> (None, k)) of (c, k) \<Rightarrow>
           (let tup = (client_fd, serial_streams (Some cid) (Some cid) (srv_bitStream sv),
                tcp_iostream_ctor (client_fd, c))
            in (client_fd, Some cid,
                sv\<lparr>totalClients := cid, clientStreamMap := (clientStreamMap sv)(cid \<mapsto> tup)\<rparr>, k))))"

text \<open>Erasing a client destroys its stream, unless somebody else still owns it.\<close>

definition closeClient ::
  "'k system \<Rightarrow> nat \<Rightarrow> bool \<Rightarrow> nat \<Rightarrow> tcp_server \<Rightarrow> 'k \<Rightarrow> (bool \<times> tcp_server \<times> 'k) cpp" where
  "closeClient N f shared cid sv k = (case clientStreamMap sv cid of
     None \<Rightarrow> Inr (False, sv, k)
   | Some (sock, ser, t) \<Rightarrow>
       bindE (if shared then Inr k else bindE (tcp_destroy N f (rdbuf t, k)) (\<lambda>(t, k). Inr k)) (\<lambda>k.
         Inr (True, sv\<lparr>clientStreamMap := (clientStreamMap sv)(cid := None)\<rparr>, k)))"

section \<open>The table of clients\<close>

text \<open>
  A life of a server, as a relation: the number of clients accepted so far and the server, whatever
  the system answers.
\<close>

inductive server_life :: "'k system \<Rightarrow> nat \<Rightarrow> nat \<Rightarrow> tcp_server \<Rightarrow> bool"
  for N :: "'k system" and junk :: nat
where
  life_start: "tcp_server_ctor N f junk port bits ctx k = (Inr sv, k') \<Longrightarrow> server_life N junk 0 sv"
| life_none: "server_life N junk n sv \<Longrightarrow> acceptOne N sv k = (r, None, sv', k') \<Longrightarrow> server_life N junk n sv'"
| life_accept: "server_life N junk n sv \<Longrightarrow> acceptOne N sv k = (r, Some cid, sv', k') \<Longrightarrow>
    server_life N junk (Suc n) sv'"
| life_close_client: "server_life N junk n sv \<Longrightarrow> closeClient N f shared cid sv k = Inr (r, sv', k') \<Longrightarrow>
    server_life N junk n sv'"
| life_close: "server_life N junk n sv \<Longrightarrow> server_close N f sv k = Inr (r, sv', k') \<Longrightarrow>
    server_life N junk n sv'"

inductive_cases server_lifeE: "server_life N junk n sv"

text \<open>The numbers given out, in order, from the junk the counter started with.\<close>

definition nth_client :: "nat \<Rightarrow> nat \<Rightarrow> nat" where
  "nth_client junk i = wrap64 (int junk + int i)"

definition entry_ok :: "nat \<Rightarrow> nat \<Rightarrow> bool \<Rightarrow> nat \<Rightarrow> client_tuple \<Rightarrow> bool" where
  "entry_ok junk n bits cid tup \<longleftrightarrow> (\<exists>i. 1 \<le> i \<and> i \<le> n \<and> cid = nth_client junk i) \<and>
     (case tup of (sock, ser, t) \<Rightarrow> sock \<noteq> -1 \<and> fd (rdbuf t) = sock \<and>
        writeStreamPointer ser = Some cid \<and> readStreamPointer ser = Some cid \<and> bitStream ser = bits)"

definition server_wf :: "nat \<Rightarrow> nat \<Rightarrow> tcp_server \<Rightarrow> bool" where
  "server_wf junk n sv \<longleftrightarrow> wrap64 (int (totalClients sv)) = nth_client junk n \<and>
     (\<forall>cid tup. clientStreamMap sv cid = Some tup \<longrightarrow> entry_ok junk n (srv_bitStream sv) cid tup)"

lemma entry_ok_Suc: "entry_ok junk n bits cid tup \<Longrightarrow> entry_ok junk (Suc n) bits cid tup"
  unfolding entry_ok_def using le_SucI by blast

lemma closeClient_map:
  assumes "closeClient N f shared cid sv k = Inr (r, sv', k')"
  shows "totalClients sv' = totalClients sv \<and> srv_bitStream sv' = srv_bitStream sv \<and>
    clientStreamMap sv' = (clientStreamMap sv)(cid := None)"
  using assms by (auto simp: closeClient_def bindE_eq_Inr split: option.splits prod.splits)

lemma server_wf_close_client:
  assumes "server_wf junk n sv" and "closeClient N f shared cid sv k = Inr (r, sv', k')"
  shows "server_wf junk n sv'"
  using assms(1) closeClient_map [OF assms(2)] unfolding server_wf_def by (simp split: if_splits)

lemma acceptOne_Some:
  assumes "acceptOne N sv k = (r, Some cid, sv', k')"
  shows "\<exists>c. r \<noteq> -1 \<and> cid = wrap64 (int (totalClients sv) + 1) \<and>
    sv' = sv\<lparr>totalClients := cid, clientStreamMap := (clientStreamMap sv)(cid \<mapsto>
      (r, serial_streams (Some cid) (Some cid) (srv_bitStream sv), mk_stream (tcp_streambuf_ctor (r, c))))\<rparr>"
  using assms by (auto simp: acceptOne_def Let_def split: if_splits prod.splits option.splits)

lemma acceptOne_None: "acceptOne N sv k = (r, None, sv', k') \<Longrightarrow> sv' = sv \<and> r = -1"
  by (auto simp: acceptOne_def Let_def split: if_splits prod.splits option.splits)

lemma nth_client_Suc:
  assumes "wrap64 (int m) = nth_client junk n"
  shows "wrap64 (int m + 1) = nth_client junk (Suc n)"
proof -
  have "int m mod 2 ^ 64 = (int junk + int n) mod 2 ^ 64"
    using assms by (simp add: nth_client_def wrap64_def)
  then have "(int m + 1) mod 2 ^ 64 = (int junk + int n + 1) mod 2 ^ 64" by (metis mod_add_left_eq)
  then show ?thesis by (simp add: nth_client_def wrap64_def ac_simps)
qed

lemma wrap64_wrap64: "wrap64 (int (wrap64 x)) = wrap64 x"
  by (simp add: wrap64_def)

lemma server_wf_accept:
  assumes "server_wf junk n sv" and "acceptOne N sv k = (r, Some cid, sv', k')"
  shows "server_wf junk (Suc n) sv' \<and> cid = nth_client junk (Suc n)"
proof -
  obtain c where r: "r \<noteq> -1" and cid: "cid = wrap64 (int (totalClients sv) + 1)" and
    sv': "sv' = sv\<lparr>totalClients := cid, clientStreamMap := (clientStreamMap sv)(cid \<mapsto>
      (r, serial_streams (Some cid) (Some cid) (srv_bitStream sv), mk_stream (tcp_streambuf_ctor (r, c))))\<rparr>"
    using acceptOne_Some [OF assms(2)] by blast
  have "wrap64 (int (totalClients sv)) = nth_client junk n" using assms(1) by (simp add: server_wf_def)
  then have n: "cid = nth_client junk (Suc n)" using cid nth_client_Suc by simp
  have "wrap64 (int cid) = nth_client junk (Suc n)" by (simp add: n nth_client_def wrap64_wrap64)
  moreover have new: "entry_ok junk (Suc n) (srv_bitStream sv) cid
      (r, serial_streams (Some cid) (Some cid) (srv_bitStream sv), mk_stream (tcp_streambuf_ctor (r, c)))"
    using r n by (auto simp: entry_ok_def serial_streams_def tcp_streambuf_ctor_def mk_stream_def)
  ultimately have "server_wf junk (Suc n) sv'"
    using assms(1) n entry_ok_Suc unfolding server_wf_def sv' by (simp split: if_splits)
  with n show ?thesis by simp
qed

lemma server_fail_Inl: "fst (server_fail N f sv k msg) \<noteq> Inr x"
  by (auto simp: server_fail_def split: sum.splits prod.splits)

lemma tcp_server_ctor_new:
  assumes "tcp_server_ctor N f junk port bits ctx k = (Inr sv, k')"
  shows "totalClients sv = junk \<and> clientStreamMap sv = Map.empty"
proof -
  obtain sock k1 where "sys_socket N k = (sock, k1)" by fastforce
  moreover obtain ok k2 where "sys_set_nonblocking N sock k1 = (ok, k2)" by fastforce
  moreover obtain r k3 where "sys_bind N sock (network_port port) k2 = (r, k3)" by fastforce
  moreover obtain q k4 where "sys_listen N sock BACKLOG k3 = (q, k4)" by fastforce
  ultimately show ?thesis using assms
    by (auto simp: tcp_server_ctor_def Let_def dest: arg_cong [where f = fst] simp: server_fail_Inl split: if_splits)
qed

lemma server_life_wf: "server_life N junk n sv \<Longrightarrow> server_wf junk n sv"
proof (induction rule: server_life.induct)
  case (life_start f port bits ctx k sv k')
  then show ?case using tcp_server_ctor_new [OF life_start] by (simp add: server_wf_def nth_client_def)
next
  case (life_none n sv k r sv' k')
  then show ?case using acceptOne_None [OF life_none.hyps(2)] by simp
next
  case (life_accept n sv k r cid sv' k')
  then show ?case using server_wf_accept [OF life_accept.IH life_accept.hyps(2)] by simp
next
  case (life_close_client n sv f shared cid k r sv' k')
  then show ?case using server_wf_close_client [OF life_close_client.IH life_close_client.hyps(2)] by simp
next
  case (life_close n sv f k r sv' k')
  then show ?case
    by (auto simp: server_close_def server_wf_def bindE_eq_Inr split: if_splits)
qed

lemma nth_client_inj:
  assumes "nth_client junk i = nth_client junk j" and "i < 2 ^ 64" and "j < 2 ^ 64"
  shows "i = j"
proof -
  have m: "0 \<le> (int junk + int x) mod 2 ^ 64" for x by simp
  have "(int junk + int i) mod 2 ^ 64 = (int junk + int j) mod 2 ^ 64"
    using assms(1) eq_nat_nat_iff [OF m m] by (simp only: nth_client_def wrap64_def)
  then have "int i mod 2 ^ 64 = int j mod 2 ^ 64"
    by (metis add_diff_cancel_left' mod_diff_left_eq)
  moreover have "int i < 2 ^ 64" "int j < 2 ^ 64" using assms(2,3) by (simp_all add: of_nat_less_numeral_power_cancel_iff)
  ultimately show ?thesis by simp
qed

lemma fresh_client:
  assumes "server_life N junk n sv" and "n + 1 < 2 ^ 64" and "acceptOne N sv k = (r, Some cid, sv', k')"
  shows "clientStreamMap sv cid = None"
proof (rule ccontr)
  assume a: "clientStreamMap sv cid \<noteq> None"
  have wf: "server_wf junk n sv" using server_life_wf [OF assms(1)] .
  have "cid = nth_client junk (Suc n)" using server_wf_accept [OF wf assms(3)] by simp
  moreover obtain i where "i \<le> n" "cid = nth_client junk i"
    using wf a unfolding server_wf_def entry_ok_def by blast
  ultimately show False using nth_client_inj [of junk i "Suc n"] assms(2) by simp
qed


text \<open>A system on which \<open>select\<close> looks at every descriptor it is given.\<close>

definition lenient_system :: "pipe system" where
  "lenient_system = pipe_system\<lparr>sys_select := (\<lambda>nfds sock. pipe_select (sock + 1) sock)\<rparr>"

definition demo_server :: tcp_server where
  "demo_server = \<lparr>srv_port = 80, srv_bitStream = False, srv_ssl_ctx = None, server_fd = 4,
     totalClients = 7, clientStreamMap = Map.empty, fd_closed = False\<rparr>"


text \<open>
  On a system whose \<open>select\<close> looks only at the descriptors below its first argument, no server with a
  descriptor above zero ever accepts a client.
\<close>

lemma server_never_accepts:
  assumes "\<And>nfds sock r w timeout k. nfds \<le> sock \<Longrightarrow> \<not> readable (fst (snd (sys_select N nfds sock r w timeout k)))"
    and "1 \<le> server_fd sv"
  shows "\<exists>k'. acceptOne N sv k = (-1, None, sv, k')"
proof -
  obtain ret sets k1 where s: "sys_select N 1 (server_fd sv) True False (Some 175) k = (ret, sets, k1)"
    by (cases "sys_select N 1 (server_fd sv) True False (Some 175) k") auto
  have "\<not> readable sets" using assms(1) [OF assms(2), of True False "Some 175" k] s by simp
  then show ?thesis by (simp add: acceptOne_def accept_with_timeout_def s)
qed

text \<open>A connection that fails leaves its descriptor open.\<close>

lemma connect_failure_leaks:
  assumes "resolve_host_or_ip_to_ip q host = Inr ip" and "sys_connect N sock ip (network_port port) k1 = (-1, False, k2)"
    and "sys_socket N k = (sock, k1)" and "0 < sys_inet_pton N ip"
  shows "tcp_connect N q host port None v k = (Inl (Runtime_error ''Connection failed immediately''), k2)"
  using assms by (simp add: tcp_connect_def)

end
