(* ===== verification/Http_Tcp.thy ===== *)
theory Http_Tcp
  imports Http_Client Tcp_Peers
begin

text \<open>
  The HTTP client over TCP: a whole exchange on a connection, and the redirections \<open>restSync\<close> follows.
\<close>

section \<open>Serial over a TCP stream\<close>

definition tcp_platform :: "nat \<Rightarrow> (tcp_streambuf \<times> pipe, unit) platform" where
  "tcp_platform f = \<lparr>vt = tcp_vtable pipe_system f, pt_write = apassthrough_write,
     pt_read = apassthrough_read\<rparr>"

interpretation tcp_out: stream_sink_serial "tcp_vtable pipe_system g" "\<lambda>tk. outbox (snd tk)" "\<lambda>_. 2 ^ 31"
    "\<lambda>tk. ssl (fst tk) = None \<and> inbox (snd tk) = q" "tcp_platform g" d a for g q d a
  by unfold_locales (simp add: tcp_platform_def)

interpretation tcp_in: stream_source_serial "tcp_vtable pipe_system g" pipe_ahead one_segment "tcp_platform g" d a
  for g d a
  by unfold_locales (simp add: tcp_platform_def)

text \<open>A new connection on which the peer answers with some bytes in one segment.\<close>

definition answering :: "byte list \<Rightarrow> nat \<Rightarrow> serial \<Rightarrow> (tcp_streambuf \<times> pipe, unit) world \<Rightarrow> bool" where
  "answering bs a s w \<longleftrightarrow> s = serial_streams (Some a) (Some a) False \<and>
     (\<exists>t q. streams w a = mk_stream (t, q) \<and> ssl t = None \<and> inbox q = [bs]) \<and>
     bs \<noteq> [] \<and> length bs < 2 ^ 31"

lemma tcp_write_ok:
  assumes "stream_out (\<lambda>tk. ssl (fst tk) = None \<and> inbox (snd tk) = q) a s w" and "length bs < 2 ^ 31"
  shows "\<exists>r w'. writeBytes (tcp_platform g) d bs s w = Inr (r, s, w') \<and>
    stream_out (\<lambda>tk. ssl (fst tk) = None \<and> inbox (snd tk) = q) a s w' \<and>
    outbox (snd (rdbuf (streams w' a))) = outbox (snd (rdbuf (streams w a))) @ bs"
  using tcp_out.stream_write [OF assms(1), of bs g d] assms(2) by auto

lemma stream_out_in:
  assumes "stream_out (\<lambda>tk. ssl (fst tk) = None \<and> inbox (snd tk) = [bs]) a (serial_streams (Some a) (Some a) False) w"
    and "bs \<noteq> []" and "length bs < 2 ^ 31"
  shows "stream_in one_segment pipe_ahead a (serial_streams (Some a) (Some a) False) w \<and>
    pipe_ahead (rdbuf (streams w a)) = bs"
  using assms by (simp add: stream_in_def stream_out_def one_segment_def pipe_ahead_def
      serial_streams_def serial_default_def)

lemma serialize_request_tcp:
  assumes "answering bs a s w" and "body_bytes (rq_body r) = Inr b"
    and "length (request_header r) < 2 ^ 31" and "length b < 2 ^ 31"
  shows "\<exists>w'. serialize_request (tcp_platform g) d r s w = Inr (s, w') \<and>
    synchronize (tcp_platform g) d s w' = Inr (s, w') \<and>
    stream_in one_segment pipe_ahead a s w' \<and> pipe_ahead (rdbuf (streams w' a)) = bs \<and>
    outbox (snd (rdbuf (streams w' a))) =
      outbox (snd (rdbuf (streams w a))) @ string_bytes (request_header r) @ b"
proof -
  let ?inv = "\<lambda>tk. ssl (fst tk) = None \<and> inbox (snd tk) = [bs]"
  have s: "s = serial_streams (Some a) (Some a) False" using assms(1) by (simp add: answering_def)
  have "stream_out ?inv a s w" using assms(1)
    by (auto simp: answering_def stream_out_def serial_streams_def serial_default_def mk_stream_def good_def)
  from tcp_write_ok [OF this, of "string_bytes (request_header r)" g d] assms(3)
  obtain k1 w1 where w1: "writeBytes (tcp_platform g) d (string_bytes (request_header r)) s w = Inr (k1, s, w1)"
      "stream_out ?inv a s w1"
      "outbox (snd (rdbuf (streams w1 a))) = outbox (snd (rdbuf (streams w a))) @ string_bytes (request_header r)"
    by auto
  from tcp_write_ok [OF w1(2) assms(4), of g d] obtain k2 w2 where
    w2: "writeBytes (tcp_platform g) d b s w1 = Inr (k2, s, w2)" "stream_out ?inv a s w2"
      "outbox (snd (rdbuf (streams w2 a))) = outbox (snd (rdbuf (streams w1 a))) @ b"
    by auto
  have si: "stream_in one_segment pipe_ahead a s w2 \<and> pipe_ahead (rdbuf (streams w2 a)) = bs"
    using stream_out_in [of bs a w2] w2(2) assms(1) s by (simp add: answering_def)
  have "good (streams w2 a)" using w2(2) by (simp add: stream_out_def)
  then have "synchronize (tcp_platform g) d s w2 = Inr (s, w2)"
    by (simp add: synchronize_def s serial_streams_def serial_default_def flush_def istream_sync_def
        sentry_def set_stream_def)
  moreover have "serialize_request (tcp_platform g) d r s w = Inr (s, w2)"
    using w1(1) w2(1) assms(2) by (simp add: serialize_request_def)
  ultimately show ?thesis using si w1(3) w2(3) by simp
qed


text \<open>The same for a response without a length: it has no body.\<close>

lemma http_exchange_no_body:
  assumes "extractUri uri False = Inr e" and "connect k (uri_host e) (uri_port e) (secure e) = Inr (s, w)"
    and "answering (string_bytes (response_text p v code txt hs)) a s w"
    and "good_response p v code txt hs" and "''Content-Length'' \<notin> fst ` set hs"
    and "length (response_text p v code txt hs) \<le> f"
    and "body_bytes bdy = Inr b" and "length b < 2 ^ 31"
    and "length (request_header \<lparr>rq_host = uri_host e, rq_verb = verb, rq_path = uri_path e,
           rq_headers = hdrs, rq_body = bdy\<rparr>) < 2 ^ 31"
  shows "rest_once (tcp_platform g) (Suc d) f heap connect k verb uri hdrs bdy =
    Inr (response_head p v code txt hs)"
proof -
  let ?r = "\<lparr>rq_host = uri_host e, rq_verb = verb, rq_path = uri_path e, rq_headers = hdrs, rq_body = bdy\<rparr>"
  have "body_bytes (rq_body ?r) = Inr b" using assms(7) by simp
  from serialize_request_tcp [OF assms(3) this assms(9,8), of g "Suc d"] obtain w1 where
    w1: "serialize_request (tcp_platform g) (Suc d) ?r s w = Inr (s, w1)"
      "synchronize (tcp_platform g) (Suc d) s w1 = Inr (s, w1)"
      "stream_in one_segment pipe_ahead a s w1"
      "pipe_ahead (rdbuf (streams w1 a)) = string_bytes (response_text p v code txt hs) @ []" by auto
  from tcp_in.inp.deserialize_no_body [OF assms(4,6,5) w1(3,4), of g d heap] show ?thesis
    using assms(1,2) w1(1,2) by (auto simp: rest_once_def)
qed

section \<open>Redirections\<close>

text \<open>C29: \<open>restSync\<close> follows any chain of redirections to its end, keeping the verb, the header fields and
  the body, and returns the first response that is not one; it makes one connection more than there
  are redirections, and no fewer suffice.\<close>

theorem restSync_follows:
  assumes "\<And>i. i < n \<Longrightarrow> \<exists>r. rest_once P d f heap connect (k + i) verb (us i) hdrs bdy = Inr r \<and>
      statusCode r = ''302'' \<and> location r = us (Suc i)"
    and "rest_once P d f heap connect (k + n) verb (us n) hdrs bdy = Inr r" and "statusCode r \<noteq> ''302''"
  shows "restSync P d f heap connect m k verb (us 0) hdrs bdy = (if n < m then Inr r else Inl Out_of_fuel)"
  using assms
proof (induction n arbitrary: k us m)
  case 0
  then show ?case by (cases m) simp_all
next
  case (Suc n)
  show ?case
  proof (cases m)
    case (Suc m')
    obtain r0 where r0: "rest_once P d f heap connect k verb (us 0) hdrs bdy = Inr r0"
        "statusCode r0 = ''302''" "location r0 = us 1"
      using Suc.prems(1) [of 0] by auto
    have "restSync P d f heap connect m' (Suc k) verb (us 1) hdrs bdy =
        (if n < m' then Inr r else Inl Out_of_fuel)"
    proof (unfold One_nat_def, rule Suc.IH [where us = "\<lambda>i. us (Suc i)"])
      fix i assume "i < n"
      then show "\<exists>r. rest_once P d f heap connect (Suc k + i) verb (us (Suc i)) hdrs bdy = Inr r \<and>
          statusCode r = ''302'' \<and> location r = us (Suc (Suc i))"
        using Suc.prems(1) [of "Suc i"] by simp
    next
      show "rest_once P d f heap connect (Suc k + n) verb (us (Suc n)) hdrs bdy = Inr r"
        using Suc.prems(2) by simp
    qed (rule Suc.prems(3))
    with r0 \<open>m = Suc m'\<close> show ?thesis by simp
  qed simp
qed

section \<open>Witnesses\<close>

text \<open>Three hosts: the first redirects to the last, which has nothing; the other answers with a body.\<close>

definition answer_world :: "byte list \<Rightarrow> (tcp_streambuf \<times> pipe, unit) world" where
  "answer_world bs = \<lparr>streams = (\<lambda>_. mk_stream (tcp_streambuf_ctor (3, None), demo_pipe\<lparr>inbox := [bs]\<rparr>)),
     regions = (\<lambda>_. []), passthroughs = (\<lambda>_. ()), other = serial_default\<rparr>"

definition moved_text :: string where
  "moved_text = response_text ''HTTP'' ''1.1'' ''302'' ''Found'' [(''Location'', ''http://c'')]"

definition none_text :: string where
  "none_text = response_text ''HTTP'' ''1.1'' ''404'' ''None'' []"

definition three_hosts ::
  "nat \<Rightarrow> string \<Rightarrow> int \<Rightarrow> bool \<Rightarrow> (serial \<times> (tcp_streambuf \<times> pipe, unit) world) cpp" where
  "three_hosts k host port sec = Inr (serial_streams (Some 0) (Some 0) False, answer_world
     (if host = ''a'' then string_bytes moved_text else if host = ''c'' then string_bytes none_text else string_bytes ok_text @ [104, 105]))"

lemma answering_demo:
  "bs \<noteq> [] \<Longrightarrow> length bs < 2 ^ 31 \<Longrightarrow> answering bs 0 (serial_streams (Some 0) (Some 0) False) (answer_world bs)"
  unfolding answering_def answer_world_def by (auto simp: tcp_streambuf_ctor_def intro!: exI)

lemma demo_uri:
  "extractUri ''http://a'' False = Inr \<lparr>scheme = ''http'', secure = False, uri_host = ''a'', uri_port = 80, uri_path = []\<rparr>"
  "extractUri ''http://b'' False = Inr \<lparr>scheme = ''http'', secure = False, uri_host = ''b'', uri_port = 80, uri_path = []\<rparr>"
  "extractUri ''http://c'' False = Inr \<lparr>scheme = ''http'', secure = False, uri_host = ''c'', uri_port = 80, uri_path = []\<rparr>"
  by code_simp+

lemma texts: "length ok_text = 38" "ok_text \<noteq> []" "length moved_text = 42" "moved_text \<noteq> []"
    "length none_text = 21" "none_text \<noteq> []"
  by (simp_all add: ok_text_def none_text_def moved_text_def response_text_def status_text_def header_text_def CRLF_def)

lemma moved_plain: "good_response ''HTTP'' ''1.1'' ''302'' ''Found'' [(''Location'', ''http://c'')]"
  by (simp add: good_response_def good_header_def plain_line_def status_text_def header_text_def CR_def LF_def)

lemma none_plain: "good_response ''HTTP'' ''1.1'' ''404'' ''None'' []"
  by (simp add: good_response_def plain_line_def status_text_def CR_def LF_def)

lemma get_header_length:
  "length (request_header \<lparr>rq_host = [c], rq_verb = ''GET'', rq_path = [], rq_headers = [], rq_body = (0, None)\<rparr>) =
    length (to_string 0) + 44"
  by (simp add: request_header_def CRLF_def)

lemma to_string_0: "to_string 0 = ''0''"
  by code_simp


lemma demo_redirect:
  "rest_once (tcp_platform 0) 1 100 10 three_hosts k ''GET'' ''http://a'' [] (0, None) =
    Inr (response_head ''HTTP'' ''1.1'' ''302'' ''Found'' [(''Location'', ''http://c'')])"
proof -
  have a: "answering (string_bytes (response_text ''HTTP'' ''1.1'' ''302'' ''Found'' [(''Location'', ''http://c'')]))
      0 (serial_streams (Some 0) (Some 0) False) (answer_world (string_bytes moved_text))"
    using answering_demo [of "string_bytes moved_text"] texts(3,4) by (simp add: moved_text_def string_bytes_def)
  have c: "three_hosts k ''a'' 80 False = Inr (serial_streams (Some 0) (Some 0) False,
      answer_world (string_bytes moved_text))"
    by (simp add: three_hosts_def)
  show ?thesis unfolding One_nat_def
    using http_exchange_no_body [OF demo_uri(1) _ a moved_plain, of three_hosts k 100 "(0, None)" "[]" "''GET''" "[]" 0 0 10] c
      texts(3) get_header_length [of "CHR ''a''"]
    by (simp add: moved_text_def body_bytes_def to_string_0)
qed

lemma demo_none:
  "rest_once (tcp_platform 0) 1 100 10 three_hosts k ''GET'' ''http://c'' [] (0, None) =
    Inr (response_head ''HTTP'' ''1.1'' ''404'' ''None'' [])"
proof -
  have a: "answering (string_bytes (response_text ''HTTP'' ''1.1'' ''404'' ''None'' []))
      0 (serial_streams (Some 0) (Some 0) False) (answer_world (string_bytes none_text))"
    using answering_demo [of "string_bytes none_text"] texts(5,6) by (simp add: none_text_def string_bytes_def)
  have c: "three_hosts k ''c'' 80 False = Inr (serial_streams (Some 0) (Some 0) False,
      answer_world (string_bytes none_text))"
    by (simp add: three_hosts_def)
  show ?thesis unfolding One_nat_def
    using http_exchange_no_body [OF demo_uri(3) _ a none_plain, of three_hosts k 100 "(0, None)" "[]" "''GET''" "[]" 0 0 10] c
      texts(5) get_header_length [of "CHR ''c''"]
    by (simp add: none_text_def body_bytes_def to_string_0)
qed

theorem restSync_follows_witness:
  "restSync (tcp_platform 0) 1 100 10 three_hosts 5 0 ''GET'' ''http://a'' [] (0, None) =
    Inr (response_head ''HTTP'' ''1.1'' ''404'' ''None'' [])"
proof -
  let ?us = "\<lambda>i::nat. if i = 0 then ''http://a'' else ''http://c''"
  have "restSync (tcp_platform 0) 1 100 10 three_hosts 5 0 ''GET'' (?us 0) [] (0, None) =
      (if 1 < (5::nat) then Inr (response_head ''HTTP'' ''1.1'' ''404'' ''None'' []) else Inl Out_of_fuel)"
    by (rule restSync_follows)
      (simp_all add: demo_redirect [unfolded One_nat_def] demo_none [unfolded One_nat_def]
        response_head_def location_def)
  then show ?thesis by simp
qed

end
