(* ===== verification/Tcp_Descriptors.thy ===== *)
theory Tcp_Descriptors
  imports Tcp_Peers
begin

text \<open>
  What a \<open>tcp_server\<close> does with file descriptors: in every state it can reach it owns its own and those of
  its clients, and its destructor gives all of them back.
\<close>

section \<open>Descriptors of the system\<close>

text \<open>
  What the system promises of its open descriptors: a new one was not open before, closing one closes just
  that one, the other calls open and close none, and what a peer still sends when its connection is
  closed ends within the given number of bytes.
\<close>

definition opens :: "('k \<Rightarrow> int set) \<Rightarrow> int \<Rightarrow> 'k \<Rightarrow> 'k \<Rightarrow> bool" where
  "opens fds sock k k' \<longleftrightarrow> (if sock = -1 then fds k' = fds k
     else 0 \<le> sock \<and> sock \<notin> fds k \<and> fds k' = insert sock (fds k))"

definition tracks :: "'k system \<Rightarrow> nat \<Rightarrow> ('k \<Rightarrow> int set) \<Rightarrow> bool" where
  "tracks N f fds \<longleftrightarrow>
     (\<forall>k. opens fds (fst (sys_socket N k)) k (snd (sys_socket N k))) \<and>
     (\<forall>s k. opens fds (fst (sys_accept N s k)) k (snd (sys_accept N s k))) \<and>
     (\<forall>s k. fds (sys_close N s k) = fds k - {s}) \<and>
     (\<forall>s k. fds (sys_shutdown N s k) = fds k) \<and>
     (\<forall>n s r w t k. fds (snd (snd (sys_select N n s r w t k))) = fds k) \<and>
     (\<forall>s k. fds (snd (sys_set_nonblocking N s k)) = fds k) \<and>
     (\<forall>s p k. fds (snd (sys_bind N s p k)) = fds k) \<and>
     (\<forall>s n k. fds (snd (sys_listen N s n k)) = fds k) \<and>
     (\<forall>c k. fds (snd (ssl_new N c k)) = fds k) \<and> (\<forall>c s k. fds (ssl_set_fd N c s k) = fds k) \<and>
     (\<forall>c k. fds (snd (ssl_accept N c k)) = fds k) \<and> (\<forall>c k. fds (snd (ssl_shutdown N c k)) = fds k) \<and>
     (\<forall>c k. fds (ssl_free N c k) = fds k) \<and> (\<forall>k. fds (snd (ssl_errors N k)) = fds k) \<and>
     (\<forall>s k. \<exists>k'. drain N f s k = Inr k' \<and> fds k' = fds k)"

lemma close_socket_tracks:
  assumes "tracks N f fds" and "0 \<le> s"
  shows "\<exists>k'. close_socket N f s k = Inr (True, k') \<and> fds k' = fds k - {s}"
proof -
  obtain k1 where "drain N f s (sys_shutdown N s k) = Inr k1" "fds k1 = fds k"
    using assms(1) unfolding tracks_def by metis
  then show ?thesis using assms by (simp add: close_socket_def tracks_def)
qed

lemma tcp_destroy_tracks:
  assumes "tracks N f fds" and "0 \<le> fd t" and "\<not> ctx_fd_closed t"
  shows "\<exists>t' k'. tcp_destroy N f (t, k) = Inr (t', k') \<and> fds k' = fds k - {fd t}"
proof -
  let ?k = "case ssl t of
      Some c \<Rightarrow> (case ssl_shutdown N c k of (ret, k) \<Rightarrow>
        ssl_free N c (if ret = 0 then snd (ssl_shutdown N c k) else k))
    | None \<Rightarrow> k"
  have "fds ?k = fds k" using assms(1) by (auto simp: tracks_def split: option.splits prod.splits) (metis snd_conv)+
  moreover obtain k' where "close_socket N f (fd t) ?k = Inr (True, k')" "fds k' = fds ?k - {fd t}"
    using close_socket_tracks [OF assms(1,2)] by blast
  ultimately show ?thesis using assms(3) by (simp add: tcp_destroy_def tcp_close_def Let_def)
qed

section \<open>Runs of a server\<close>

text \<open>The states a server and the system reach together, with the number of clients accepted.\<close>

inductive server_run :: "'k system \<Rightarrow> nat \<Rightarrow> nat \<Rightarrow> 'k \<Rightarrow> nat \<Rightarrow> tcp_server \<Rightarrow> 'k \<Rightarrow> bool"
  for N :: "'k system" and f junk :: nat and k0 :: 'k
where
  run_start: "tcp_server_ctor N f junk port bits ctx k0 = (Inr sv, k) \<Longrightarrow> server_run N f junk k0 0 sv k"
| run_none: "server_run N f junk k0 n sv k \<Longrightarrow> acceptOne N sv k = (r, None, sv', k') \<Longrightarrow>
    server_run N f junk k0 n sv' k'"
| run_accept: "server_run N f junk k0 n sv k \<Longrightarrow> acceptOne N sv k = (r, Some cid, sv', k') \<Longrightarrow>
    server_run N f junk k0 (Suc n) sv' k'"
| run_close_client: "server_run N f junk k0 n sv k \<Longrightarrow> closeClient N f False cid sv k = Inr (r, sv', k') \<Longrightarrow>
    server_run N f junk k0 n sv' k'"
| run_close: "server_run N f junk k0 n sv k \<Longrightarrow> server_close N f sv k = Inr (r, sv', k') \<Longrightarrow>
    server_run N f junk k0 n sv' k'"

lemma server_run_life: "server_run N f junk k0 n sv k \<Longrightarrow> server_life N junk n sv"
  by (induction rule: server_run.induct) (blast intro: server_life.intros)+

text \<open>What a server owns: its own descriptor until it is closed, and one for each client.\<close>

definition client_fds :: "tcp_server \<Rightarrow> int set" where
  "client_fds sv = fst ` ran (clientStreamMap sv)"

definition own_fds :: "tcp_server \<Rightarrow> int set" where
  "own_fds sv = (if fd_closed sv then {} else {server_fd sv}) \<union> client_fds sv"

definition client_ok :: "int set \<Rightarrow> tcp_server \<Rightarrow> client_tuple \<Rightarrow> bool" where
  "client_ok F sv c \<longleftrightarrow> (case c of (sock, ser, st) \<Rightarrow>
     fd (rdbuf st) = sock \<and> \<not> ctx_fd_closed (rdbuf st) \<and> 0 \<le> sock \<and> sock \<notin> F \<and> sock \<noteq> server_fd sv)"

definition owns :: "('k \<Rightarrow> int set) \<Rightarrow> int set \<Rightarrow> tcp_server \<Rightarrow> 'k \<Rightarrow> bool" where
  "owns fds F sv k \<longleftrightarrow> 0 \<le> server_fd sv \<and> server_fd sv \<notin> F \<and> (\<forall>c \<in> ran (clientStreamMap sv). client_ok F sv c) \<and>
     (\<forall>i j c d. clientStreamMap sv i = Some c \<longrightarrow> clientStreamMap sv j = Some d \<longrightarrow> fst c = fst d \<longrightarrow> i = j) \<and>
     fds k = F \<union> own_fds sv"

lemma client_fds_iff: "x \<in> client_fds sv \<longleftrightarrow> (\<exists>i c. clientStreamMap sv i = Some c \<and> x = fst c)"
  by (auto simp: client_fds_def ran_def image_def)

lemma owns_distinct:
  "owns fds F sv k \<Longrightarrow> clientStreamMap sv i = Some c \<Longrightarrow> clientStreamMap sv j = Some d \<Longrightarrow> fst c = fst d \<Longrightarrow> i = j"
  unfolding owns_def by blast

lemma owns_start:
  assumes "tracks N f fds" and "tcp_server_ctor N f junk port bits ctx k0 = (Inr sv, k)"
  shows "owns fds (fds k0) sv k"
proof -
  obtain sock k1 where 1: "sys_socket N k0 = (sock, k1)" by fastforce
  obtain ok k2 where 2: "sys_set_nonblocking N sock k1 = (ok, k2)" by fastforce
  obtain r k3 where 3: "sys_bind N sock (network_port port) k2 = (r, k3)" by fastforce
  obtain q k4 where 4: "sys_listen N sock BACKLOG k3 = (q, k4)" by fastforce
  have s: "sock \<noteq> -1" "k = k4" "server_fd sv = sock" "clientStreamMap sv = Map.empty" "\<not> fd_closed sv"
    using assms(2) 1 2 3 4
    by (auto simp: tcp_server_ctor_def Let_def dest: arg_cong [where f = fst] simp: server_fail_Inl
        split: if_splits)
  have "opens fds sock k0 k1" using assms(1) 1 unfolding tracks_def by (metis fst_conv snd_conv)
  moreover have "fds k4 = fds k1" using assms(1) 2 3 4 unfolding tracks_def by (metis snd_conv)
  ultimately show ?thesis using s by (auto simp: owns_def opens_def own_fds_def client_fds_def)
qed

lemma accept_with_timeout_opens:
  assumes "tracks N f fds" and "accept_with_timeout N s t k = (r, k')"
  shows "opens fds r k k'"
proof -
  obtain ret sets k1 where s: "sys_select N 1 s True False (Some t) k = (ret, sets, k1)"
    by (cases "sys_select N 1 s True False (Some t) k") auto
  have k1: "fds k1 = fds k" using assms(1) s unfolding tracks_def by (metis snd_conv)
  obtain a k2 where a: "sys_accept N s k1 = (a, k2)" by fastforce
  have "opens fds a k1 k2" using assms(1) a unfolding tracks_def by (metis fst_conv snd_conv)
  then show ?thesis using assms(2) k1 s a
    by (auto simp: accept_with_timeout_def opens_def split: if_splits)
qed

lemma acceptOne_opens:
  assumes "tracks N f fds" and "acceptOne N sv k = (r, cid, sv', k')"
  shows "opens fds r k k'"
proof (cases "fd_closed sv")
  case True
  then show ?thesis using assms(2) by (simp add: acceptOne_def opens_def)
next
  case False
  obtain a k1 where a: "accept_with_timeout N (server_fd sv) 175 k = (a, k1)" by fastforce
  have o: "opens fds a k k1" using accept_with_timeout_opens [OF assms(1) a] .
  show ?thesis
  proof (cases "srv_ssl_ctx sv")
    case None
    then show ?thesis using assms(2) False a o by (auto simp: acceptOne_def Let_def split: if_splits)
  next
    case (Some x)
    obtain c k2 where c: "ssl_new N x k1 = (c, k2)" by fastforce
    obtain ret k3 where r: "ssl_accept N c (ssl_set_fd N c a k2) = (ret, k3)" by fastforce
    have "fds k3 = fds k1" "fds (snd (ssl_errors N k3)) = fds k1"
      using assms(1) c r unfolding tracks_def by (metis snd_conv)+
    then have "a \<noteq> -1 \<Longrightarrow> fds k' = fds k1" using assms(2) False a Some c r
      by (auto simp: acceptOne_def Let_def split: if_splits)
    then show ?thesis using assms(2) False a o Some c r
      by (auto simp: acceptOne_def Let_def opens_def split: if_splits)
  qed
qed

lemma owns_none:
  assumes "tracks N f fds" and "owns fds F sv k" and "acceptOne N sv k = (r, None, sv', k')"
  shows "owns fds F sv' k'"
  using acceptOne_opens [OF assms(1,3)] acceptOne_None [OF assms(3)] assms(2) by (simp add: owns_def opens_def)

lemma owns_accept:
  assumes "tracks N f fds" and "owns fds F sv k" and "acceptOne N sv k = (r, Some cid, sv', k')"
    and "clientStreamMap sv cid = None"
  shows "owns fds F sv' k'"
proof -
  obtain c where r: "r \<noteq> -1" and sv': "sv' = sv\<lparr>totalClients := cid, clientStreamMap := (clientStreamMap sv)(cid \<mapsto>
      (r, serial_streams (Some cid) (Some cid) (srv_bitStream sv), mk_stream (tcp_streambuf_ctor (r, c))))\<rparr>"
    using acceptOne_Some [OF assms(3)] by blast
  have o: "0 \<le> r" "r \<notin> fds k" "fds k' = insert r (fds k)"
    using acceptOne_opens [OF assms(1,3)] r by (simp_all add: opens_def)
  have open_server: "\<not> fd_closed sv" using assms(3) by (auto simp: acceptOne_def)
  have w: "server_fd sv \<in> fds k" "F \<subseteq> fds k" "client_fds sv \<subseteq> fds k"
    using assms(2) open_server by (auto simp: owns_def own_fds_def)
  have ran: "ran (clientStreamMap sv') = insert (r, serial_streams (Some cid) (Some cid) (srv_bitStream sv),
      mk_stream (tcp_streambuf_ctor (r, c))) (ran (clientStreamMap sv))"
    using assms(4) unfolding sv' by simp
  have "r \<noteq> server_fd sv" "r \<notin> F" "r \<notin> client_fds sv" using o(2) w by auto
  moreover have "fst c \<in> client_fds sv" if "clientStreamMap sv i = Some c" for i c
    using that unfolding client_fds_def by (blast intro: ranI)
  ultimately have new: "fst c \<noteq> r" if "clientStreamMap sv i = Some c" for i c using that by metis
  have old: "\<forall>i j c d. clientStreamMap sv i = Some c \<longrightarrow> clientStreamMap sv j = Some d \<longrightarrow> fst c = fst d \<longrightarrow> i = j"
    using assms(2) by (simp add: owns_def)
  have inj: "i = j" if "clientStreamMap sv' i = Some c" "clientStreamMap sv' j = Some d" "fst c = fst d" for i j c d
  proof (cases "i = cid \<or> j = cid")
    case True
    then show ?thesis using that new [of i c] new [of j d] unfolding sv' by (auto split: if_splits)
  next
    case False
    then have "clientStreamMap sv i = Some c" "clientStreamMap sv j = Some d" using that(1,2) by (simp_all add: sv')
    then show ?thesis using that(3) old by blast
  qed
  have "client_fds sv' = insert r (client_fds sv)" unfolding client_fds_def ran by simp
  then have "own_fds sv' = insert r (own_fds sv)" by (simp add: own_fds_def sv')
  then have "fds k' = F \<union> own_fds sv'" using o(3) assms(2) by (simp add: owns_def)
  moreover have "client_ok F sv' = client_ok F sv" by (simp add: fun_eq_iff client_ok_def sv')
  moreover have "client_ok F sv (r, serial_streams (Some cid) (Some cid) (srv_bitStream sv),
      mk_stream (tcp_streambuf_ctor (r, c)))"
    using \<open>r \<noteq> server_fd sv\<close> \<open>r \<notin> F\<close> o(1) by (simp add: client_ok_def mk_stream_def tcp_streambuf_ctor_def)
  ultimately have "fds k' = F \<union> own_fds sv'" "\<forall>c \<in> ran (clientStreamMap sv'). client_ok F sv' c"
    using assms(2) unfolding ran by (simp_all add: owns_def)
  moreover have "server_fd sv' = server_fd sv" by (simp add: sv')
  moreover have "0 \<le> server_fd sv" "server_fd sv \<notin> F" using assms(2) by (simp_all add: owns_def)
  ultimately show ?thesis unfolding owns_def using inj by metis
qed

lemma owns_close_client:
  assumes "tracks N f fds" and "owns fds F sv k" and "closeClient N f False cid sv k = Inr (r, sv', k')"
  shows "owns fds F sv' k'"
proof (cases "clientStreamMap sv cid")
  case None
  then show ?thesis using assms(2,3) by (simp add: closeClient_def)
next
  case (Some c)
  obtain sock ser st where c: "c = (sock, ser, st)" by (cases c) auto
  have ok: "client_ok F sv c" using assms(2) Some unfolding owns_def by (blast intro: ranI)
  obtain t1 k1 where d: "tcp_destroy N f (rdbuf st, k) = Inr (t1, k1)" "fds k1 = fds k - {sock}"
    using tcp_destroy_tracks [OF assms(1), of "rdbuf st" k] ok by (auto simp: client_ok_def c)
  have e: "sv' = sv\<lparr>clientStreamMap := (clientStreamMap sv)(cid := None)\<rparr>" "k' = k1"
    using assms(3) Some c d(1) by (simp_all add: closeClient_def)
  have "client_fds sv' = client_fds sv - {sock}"
  proof (intro set_eqI iffI)
    fix x assume "x \<in> client_fds sv'"
    then obtain i d where d: "i \<noteq> cid" "clientStreamMap sv i = Some d" "x = fst d"
      unfolding client_fds_iff e(1) by (auto split: if_splits)
    then have "x \<noteq> sock" using owns_distinct [OF assms(2) d(2) Some] c by auto
    moreover have "x \<in> client_fds sv" using d(2,3) unfolding client_fds_iff by blast
    ultimately show "x \<in> client_fds sv - {sock}" by simp
  next
    fix x assume "x \<in> client_fds sv - {sock}"
    then obtain i d where d: "clientStreamMap sv i = Some d" "x = fst d" "x \<noteq> sock"
      unfolding Diff_iff client_fds_iff by blast
    then have "i \<noteq> cid" using Some c by auto
    then have "clientStreamMap sv' i = Some d" using d(1) by (simp add: e(1))
    then show "x \<in> client_fds sv'" using d(2) unfolding client_fds_iff by blast
  qed
  moreover have "sock \<noteq> server_fd sv" "sock \<notin> F" using ok by (simp_all add: client_ok_def c)
  ultimately have "fds k' = F \<union> own_fds sv'"
    using assms(2) d(2) unfolding owns_def own_fds_def e by auto
  moreover have "ran (clientStreamMap sv') \<subseteq> ran (clientStreamMap sv)" unfolding e(1) by (auto simp: ran_def)
  moreover have "client_ok F sv' = client_ok F sv" by (simp add: fun_eq_iff client_ok_def e(1))
  moreover have "i = j" if "clientStreamMap sv' i = Some c" "clientStreamMap sv' j = Some d" "fst c = fst d" for i j c d
  proof (rule owns_distinct [OF assms(2) _ _ that(3)])
    show "clientStreamMap sv i = Some c" "clientStreamMap sv j = Some d"
      using that(1,2) by (auto simp: e(1) split: if_splits)
  qed
  moreover have "server_fd sv' = server_fd sv" by (simp add: e(1))
  moreover have "0 \<le> server_fd sv" "server_fd sv \<notin> F" "\<forall>c \<in> ran (clientStreamMap sv). client_ok F sv c"
    using assms(2) by (simp_all add: owns_def)
  ultimately show ?thesis unfolding owns_def by (metis subsetD)
qed

lemma owns_close:
  assumes "tracks N f fds" and "owns fds F sv k"
  shows "\<exists>r sv' k'. server_close N f sv k = Inr (r, sv', k') \<and> owns fds F sv' k' \<and> fd_closed sv' \<and>
    clientStreamMap sv' = clientStreamMap sv"
proof (cases "fd_closed sv")
  case True
  then show ?thesis using assms(2) by (auto simp: server_close_def intro: exI [of _ False])
next
  case False
  have "0 \<le> server_fd sv" using assms(2) by (simp add: owns_def)
  from close_socket_tracks [OF assms(1) this, of k] obtain k' where
    c: "close_socket N f (server_fd sv) k = Inr (True, k')" "fds k' = fds k - {server_fd sv}" by blast
  have "server_fd sv \<notin> client_fds sv" "server_fd sv \<notin> F"
    using assms(2) by (force simp: owns_def client_fds_def client_ok_def)+
  then have "owns fds F (sv\<lparr>fd_closed := True\<rparr>) k'"
    using assms(2) c(2) False by (auto simp: owns_def own_fds_def client_fds_def client_ok_def)
  moreover have "server_close N f sv k = Inr (True, sv\<lparr>fd_closed := True\<rparr>, k')"
    using False c(1) by (simp add: server_close_def)
  ultimately show ?thesis by (intro exI conjI) (assumption | simp)+
qed

section \<open>Nothing is left open\<close>

lemma server_run_owns:
  assumes "server_run N f junk k0 n sv k" and "tracks N f fds" and "n < 2 ^ 64"
  shows "owns fds (fds k0) sv k"
  using assms(1,3)
proof (induction rule: server_run.induct)
  case (run_start port bits ctx sv k)
  then show ?case using owns_start [OF assms(2)] by blast
next
  case (run_none n sv k r sv' k')
  then show ?case using owns_none [OF assms(2)] by blast
next
  case (run_accept n sv k r cid sv' k')
  have "clientStreamMap sv cid = None"
    using fresh_client [OF server_run_life [OF run_accept.hyps(1)] _ run_accept.hyps(2)] run_accept.prems by simp
  then show ?case using owns_accept [OF assms(2) _ run_accept.hyps(2)] run_accept by simp
next
  case (run_close_client n sv k cid r sv' k')
  then show ?case using owns_close_client [OF assms(2)] by blast
next
  case (run_close n sv k r sv' k')
  then show ?case using owns_close [OF assms(2), of "fds k0" sv k] by auto
qed

lemma server_life_finite: "server_life N junk n sv \<Longrightarrow> finite (dom (clientStreamMap sv))"
proof (induction rule: server_life.induct)
  case (life_start f port bits ctx k sv k')
  then show ?case using tcp_server_ctor_new [OF life_start] by simp
next
  case (life_none n sv k r sv' k')
  then show ?case using acceptOne_None [OF life_none.hyps(2)] by simp
next
  case (life_accept n sv k r cid sv' k')
  obtain c where "clientStreamMap sv' = (clientStreamMap sv)(cid \<mapsto> c)"
    using acceptOne_Some [OF life_accept.hyps(2)] by fastforce
  with life_accept.IH show ?case by (simp del: fun_upd_apply)
next
  case (life_close_client n sv f shared cid k r sv' k')
  then show ?case using closeClient_map [OF life_close_client.hyps(2)] by (simp del: fun_upd_apply)
next
  case (life_close n sv f k r sv' k')
  then show ?case by (auto simp: server_close_def bindE_eq_Inr split: if_splits)
qed

lemma destroy_clients_tracks:
  assumes "tracks N f fds" and "\<forall>c \<in> set cs. client_ok F sv c"
  shows "\<exists>k'. destroy_clients N f cs k = Inr k' \<and> fds k' = fds k - fst ` set cs"
  using assms(2)
proof (induction cs arbitrary: k)
  case (Cons c cs)
  obtain sock ser st where c: "c = (sock, ser, st)" by (cases c) auto
  have ok: "fd (rdbuf st) = sock" "\<not> ctx_fd_closed (rdbuf st)" "0 \<le> sock"
    using Cons.prems by (simp_all add: client_ok_def c)
  then obtain t1 k1 where "tcp_destroy N f (rdbuf st, k) = Inr (t1, k1)" "fds k1 = fds k - {sock}"
    using tcp_destroy_tracks [OF assms(1), of "rdbuf st" k] by auto
  moreover obtain k2 where "destroy_clients N f cs k1 = Inr k2" "fds k2 = fds k1 - fst ` set cs"
    using Cons.IH [of k1] Cons.prems by auto
  ultimately show ?case by (auto simp: c)
qed simp


text \<open>The instance gives descriptors that are not open and sends nothing more.\<close>

definition next_fd :: "pipe \<Rightarrow> int" where
  "next_fd k = Max (insert 2 (set (open_fds k))) + 1"

definition quiet_system :: "pipe system" where
  "quiet_system = lenient_system\<lparr>
     sys_socket := (\<lambda>k. (next_fd k, k\<lparr>open_fds := next_fd k # open_fds k\<rparr>)),
     sys_accept := (\<lambda>_ k. (next_fd k, k\<lparr>open_fds := next_fd k # open_fds k\<rparr>)),
     sys_close := (\<lambda>s k. k\<lparr>open_fds := removeAll s (open_fds k)\<rparr>),
     sys_recv_dontwait := (\<lambda>s n k. (Would_block, k))\<rparr>"

lemma next_fd:
  fixes xs :: "int list"
  defines "s \<equiv> Max (insert 2 (set xs)) + 1"
  shows "2 < s" and "s \<notin> set xs"
proof -
  have m: "x \<le> Max (insert 2 (set xs))" if "x \<in> insert 2 (set xs)" for x
    by (rule Max_ge) (use that in simp_all)
  show "2 < s" using m [of 2] by (simp add: s_def)
  show "s \<notin> set xs" using m [of s] by (auto simp: s_def)
qed

lemma next_fd_opens:
  "opens (\<lambda>k. set (open_fds k)) (next_fd k) k (k\<lparr>open_fds := next_fd k # open_fds k\<rparr>)"
proof -
  have "2 < next_fd k" "next_fd k \<notin> set (open_fds k)" unfolding next_fd_def by (rule next_fd)+
  then show ?thesis by (simp add: opens_def)
qed

lemma quiet_drain: "drain quiet_system 1 s k = Inr k"
  by (simp add: quiet_system_def lenient_system_def pipe_system_def pipe_select_def Let_def
      wait_readable_def wait_for_socket_def)

lemma quiet_tracks: "tracks quiet_system 1 (\<lambda>k. set (open_fds k))"
proof -
  have "\<exists>k'. drain quiet_system 1 s k = Inr k' \<and> set (open_fds k') = set (open_fds k)" for s k
    using quiet_drain by blast
  then show ?thesis unfolding tracks_def
    by (intro conjI) (simp_all add: quiet_system_def lenient_system_def pipe_system_def pipe_select_def Let_def
        next_fd_opens)
qed

text \<open>The clients in the order of their numbers.\<close>

definition by_number :: "tcp_server \<Rightarrow> client_tuple list" where
  "by_number sv = map (\<lambda>i. the (clientStreamMap sv i)) (sorted_list_of_set (dom (clientStreamMap sv)))"

lemma by_number_all:
  assumes "finite (dom (clientStreamMap sv))"
  shows "set (by_number sv) = ran (clientStreamMap sv)"
  using assms by (force simp: by_number_def ran_def image_def dom_def)


end
