(* ===== verification/Tcp_Threads.thy ===== *)
theory Tcp_Threads
  imports Tcp_Peers
begin

text \<open>
  A \<open>tcp_server\<close> that several threads call at once, step by step: what its mutex protects, the descriptor of the
  server, and what it does not, the counter and the table of the clients.
\<close>

section \<open>Threads\<close>

text \<open>
  Where a thread is: in \<open>acceptOne\<close> before the lock, under it, with the new descriptor, with the counter's value
  read, with the counter written, or finished with a client's number or with none; in \<open>close\<close> before the lock,
  under it, and with the descriptor closed but \<open>fd_closed\<close> not yet set.
\<close>

datatype server_pc =
    Idle
  | Accept_begin
  | Accept_locked
  | Accepted int
  | Counter_read int nat
  | Counter_written int nat
  | Accept_done int nat
  | Accept_none
  | Close_begin
  | Close_locked
  | Close_half
  | Close_done bool

text \<open>The server, who holds its mutex, whether the system still has its descriptor open and how often it was closed.\<close>

record server_threads =
  shared :: tcp_server
  mtx :: "nat option"
  fd_open :: bool
  closings :: nat
  pcs :: "nat \<Rightarrow> server_pc"

definition at_rest :: "server_pc \<Rightarrow> bool" where
  "at_rest p \<longleftrightarrow> (case p of Idle \<Rightarrow> True | Accept_done _ _ \<Rightarrow> True | Accept_none \<Rightarrow> True | Close_done _ \<Rightarrow> True | _ \<Rightarrow> False)"

definition goes :: "nat \<Rightarrow> server_pc \<Rightarrow> server_threads \<Rightarrow> server_threads" where
  "goes t p s = s\<lparr>pcs := (pcs s)(t := p)\<rparr>"

definition enter_client :: "int \<Rightarrow> nat option \<Rightarrow> nat \<Rightarrow> tcp_server \<Rightarrow> tcp_server" where
  "enter_client sock c cid sv = sv\<lparr>clientStreamMap := (clientStreamMap sv)(cid \<mapsto>
     (sock, serial_streams (Some cid) (Some cid) (srv_bitStream sv), tcp_iostream_ctor (sock, c)))\<rparr>"

text \<open>
  One step of a thread \<open>t\<close>.  The result of \<open>accept\<close>, the TLS connection and the number given to \<open>closeClient\<close> are
  any; \<open>closeClient\<close> takes no lock.
\<close>

inductive server_step :: "server_threads \<Rightarrow> server_threads \<Rightarrow> bool"
where
  call_accept: "at_rest (pcs s t) \<Longrightarrow> server_step s (goes t Accept_begin s)"
| accept_lock: "pcs s t = Accept_begin \<Longrightarrow> mtx s = None \<Longrightarrow> server_step s (goes t Accept_locked (s\<lparr>mtx := Some t\<rparr>))"
| accept_closed: "pcs s t = Accept_locked \<Longrightarrow> fd_closed (shared s) \<Longrightarrow>
    server_step s (goes t Accept_none (s\<lparr>mtx := None\<rparr>))"
| accept_none: "pcs s t = Accept_locked \<Longrightarrow> \<not> fd_closed (shared s) \<Longrightarrow>
    server_step s (goes t Accept_none (s\<lparr>mtx := None\<rparr>))"
| accept_some: "pcs s t = Accept_locked \<Longrightarrow> \<not> fd_closed (shared s) \<Longrightarrow> sock \<noteq> -1 \<Longrightarrow>
    server_step s (goes t (Accepted sock) (s\<lparr>mtx := None\<rparr>))"
| counter_read: "pcs s t = Accepted sock \<Longrightarrow>
    server_step s (goes t (Counter_read sock (totalClients (shared s))) s)"
| counter_write: "pcs s t = Counter_read sock n \<Longrightarrow> cid = wrap64 (int n + 1) \<Longrightarrow>
    server_step s (goes t (Counter_written sock cid) (s\<lparr>shared := (shared s)\<lparr>totalClients := cid\<rparr>\<rparr>))"
| enter: "pcs s t = Counter_written sock cid \<Longrightarrow>
    server_step s (goes t (Accept_done sock cid) (s\<lparr>shared := enter_client sock c cid (shared s)\<rparr>))"
| call_close: "at_rest (pcs s t) \<Longrightarrow> server_step s (goes t Close_begin s)"
| close_lock: "pcs s t = Close_begin \<Longrightarrow> mtx s = None \<Longrightarrow> server_step s (goes t Close_locked (s\<lparr>mtx := Some t\<rparr>))"
| close_again: "pcs s t = Close_locked \<Longrightarrow> fd_closed (shared s) \<Longrightarrow>
    server_step s (goes t (Close_done False) (s\<lparr>mtx := None\<rparr>))"
| close_fd: "pcs s t = Close_locked \<Longrightarrow> \<not> fd_closed (shared s) \<Longrightarrow>
    server_step s (goes t Close_half (s\<lparr>fd_open := False, closings := Suc (closings s)\<rparr>))"
| close_flag: "pcs s t = Close_half \<Longrightarrow>
    server_step s (goes t (Close_done True) (s\<lparr>mtx := None, shared := (shared s)\<lparr>fd_closed := True\<rparr>\<rparr>))"
| close_client: "at_rest (pcs s t) \<Longrightarrow>
    server_step s (s\<lparr>shared := (shared s)\<lparr>clientStreamMap := (clientStreamMap (shared s))(cid := None)\<rparr>\<rparr>)"

definition server_threads_start :: "tcp_server \<Rightarrow> server_threads" where
  "server_threads_start sv = \<lparr>shared = sv, mtx = None, fd_open = True, closings = 0, pcs = (\<lambda>_. Idle)\<rparr>"

abbreviation reaches :: "server_threads \<Rightarrow> server_threads \<Rightarrow> bool" where
  "reaches \<equiv> server_step\<^sup>*\<^sup>*"

inductive_simps server_step_simps: "server_step s s'"

section \<open>What the mutex protects\<close>

definition in_section :: "server_pc \<Rightarrow> bool" where
  "in_section p \<longleftrightarrow> p = Accept_locked \<or> p = Close_locked \<or> p = Close_half"

definition half_closed :: "server_threads \<Rightarrow> bool" where
  "half_closed s \<longleftrightarrow> (case mtx s of Some t \<Rightarrow> pcs s t = Close_half | None \<Rightarrow> False)"

definition guarded :: "server_threads \<Rightarrow> bool" where
  "guarded s \<longleftrightarrow> (\<forall>t. in_section (pcs s t) \<longleftrightarrow> mtx s = Some t) \<and> (half_closed s \<longrightarrow> \<not> fd_closed (shared s)) \<and>
     (fd_open s \<longleftrightarrow> \<not> fd_closed (shared s) \<and> \<not> half_closed s) \<and> closings s = (if fd_open s then 0 else 1)"

lemma guarded_start: "\<not> fd_closed sv \<Longrightarrow> guarded (server_threads_start sv)"
  by (simp add: guarded_def server_threads_start_def in_section_def half_closed_def)

lemma guarded_owner: "guarded s \<Longrightarrow> in_section (pcs s t) \<Longrightarrow> mtx s = Some t"
  by (simp add: guarded_def)

text \<open>A thread that stays outside the locked sections leaves the guard as it is.\<close>

lemma guarded_outside:
  assumes "guarded s" and "\<not> in_section (pcs s t)" and "\<not> in_section p" and "fd_closed sv = fd_closed (shared s)"
  shows "guarded (goes t p (s\<lparr>shared := sv\<rparr>))"
proof -
  have "mtx s \<noteq> Some t" using assms(1,2) by (simp add: guarded_def)
  then have "half_closed (goes t p (s\<lparr>shared := sv\<rparr>)) = half_closed s"
    by (auto simp: half_closed_def goes_def split: option.splits)
  then show ?thesis using assms \<open>mtx s \<noteq> Some t\<close> unfolding guarded_def goes_def by simp
qed

lemma guarded_enter:
  assumes "guarded s" and "mtx s = None" and "p = Accept_locked \<or> p = Close_locked"
  shows "guarded (goes t p (s\<lparr>mtx := Some t\<rparr>))"
  using assms unfolding guarded_def goes_def by (auto simp: half_closed_def in_section_def)

lemma guarded_leave:
  assumes "guarded s" and "in_section (pcs s t)" and "pcs s t \<noteq> Close_half" and "\<not> in_section p"
  shows "guarded (goes t p (s\<lparr>mtx := None\<rparr>))"
proof -
  have m: "mtx s = Some t" by (rule guarded_owner [OF assms(1,2)])
  have h: "\<not> half_closed s" using assms(3) m by (simp add: half_closed_def)
  have "\<not> half_closed (goes t p (s\<lparr>mtx := None\<rparr>))" by (simp add: half_closed_def goes_def)
  moreover have "in_section (pcs s u) \<longleftrightarrow> u = t" for u using assms(1) m unfolding guarded_def by auto
  ultimately show ?thesis using assms h unfolding guarded_def goes_def by simp
qed

lemma guarded_step: "server_step s s' \<Longrightarrow> guarded s \<Longrightarrow> guarded s'"
proof (induction rule: server_step.induct)
  case (close_fd s t)
  have m: "mtx s = Some t" using close_fd by (intro guarded_owner) (simp_all add: in_section_def)
  have h: "\<not> half_closed s" using close_fd(1) m by (simp add: half_closed_def)
  let ?s = "goes t Close_half (s\<lparr>fd_open := False, closings := Suc (closings s)\<rparr>)"
  have "half_closed ?s" using m by (simp add: half_closed_def goes_def)
  moreover have "in_section (pcs s u) \<longleftrightarrow> u = t" for u using close_fd(3) m unfolding guarded_def by auto
  ultimately show ?case using close_fd h m unfolding guarded_def goes_def by (simp add: in_section_def)
next
  case (close_flag s t)
  have m: "mtx s = Some t" using close_flag by (intro guarded_owner) (simp_all add: in_section_def)
  have h: "half_closed s" using close_flag(1) m by (simp add: half_closed_def)
  let ?s = "goes t (Close_done True) (s\<lparr>mtx := None, shared := (shared s)\<lparr>fd_closed := True\<rparr>\<rparr>)"
  have "\<not> half_closed ?s" by (simp add: half_closed_def goes_def)
  moreover have "in_section (pcs s u) \<longleftrightarrow> u = t" for u using close_flag(2) m unfolding guarded_def by auto
  moreover have "\<not> in_section (Close_done True)" by (simp add: in_section_def)
  ultimately show ?case using close_flag(2) h unfolding guarded_def goes_def by simp
next
  case (call_accept s t)
  then show ?case using guarded_outside [of s t Accept_begin "shared s"]
    by (auto simp: at_rest_def in_section_def split: server_pc.splits)
next
  case (call_close s t)
  then show ?case using guarded_outside [of s t Close_begin "shared s"]
    by (auto simp: at_rest_def in_section_def split: server_pc.splits)
next
  case (counter_read s t sock)
  then show ?case using guarded_outside [of s t "Counter_read sock (totalClients (shared s))" "shared s"]
    by (simp add: in_section_def)
next
  case (counter_write s t sock n cid)
  then show ?case using guarded_outside [of s t "Counter_written sock cid" "(shared s)\<lparr>totalClients := cid\<rparr>"]
    by (simp add: in_section_def)
next
  case (enter s t sock cid c)
  then show ?case using guarded_outside [of s t "Accept_done sock cid" "enter_client sock c cid (shared s)"]
    by (simp add: in_section_def enter_client_def)
next
  case (close_client s t cid)
  have "half_closed (s\<lparr>shared := x\<rparr>) = half_closed s" for x by (simp add: half_closed_def split: option.split)
  with close_client show ?case by (simp add: guarded_def)
qed (auto intro!: guarded_enter guarded_leave simp: in_section_def)

lemma guarded_reaches: "reaches s s' \<Longrightarrow> guarded s \<Longrightarrow> guarded s'"
  by (induction rule: rtranclp_induct) (auto intro: guarded_step)



section \<open>What it does not protect\<close>

text \<open>A call that is not interrupted does what \<open>acceptOne\<close> does.\<close>

lemma accept_alone:
  assumes "acceptOne N (shared s) k = (sock, Some cid, sv', k')" and "at_rest (pcs s t)" and "mtx s = None"
  shows "\<exists>s'. reaches s s' \<and> shared s' = sv' \<and> pcs s' t = Accept_done sock cid \<and> mtx s' = None"
proof -
  have open_fd: "\<not> fd_closed (shared s)" using assms(1) by (auto simp: acceptOne_def)
  obtain k1 where 1: "accept_with_timeout N (server_fd (shared s)) 175 k = (sock, k1)" "sock \<noteq> -1"
    using assms(1) open_fd by (auto simp: acceptOne_def Let_def split: prod.splits if_splits)
  obtain c where c: "cid = wrap64 (int (totalClients (shared s)) + 1)"
      "sv' = enter_client sock c cid ((shared s)\<lparr>totalClients := cid\<rparr>)"
    using assms(1) open_fd 1 by (auto simp: acceptOne_def Let_def enter_client_def split: prod.splits)
  let ?n = "totalClients (shared s)"
  define s1 where "s1 = goes t Accept_begin s"
  define s2 where "s2 = goes t Accept_locked (s1\<lparr>mtx := Some t\<rparr>)"
  define s3 where "s3 = goes t (Accepted sock) (s2\<lparr>mtx := None\<rparr>)"
  define s4 where "s4 = goes t (Counter_read sock ?n) s3"
  define s5 where "s5 = goes t (Counter_written sock cid) (s4\<lparr>shared := (shared s4)\<lparr>totalClients := cid\<rparr>\<rparr>)"
  define s6 where "s6 = goes t (Accept_done sock cid) (s5\<lparr>shared := enter_client sock c cid (shared s5)\<rparr>)"
  have p: "pcs s1 t = Accept_begin" "mtx s1 = None" "pcs s2 t = Accept_locked" "shared s2 = shared s"
      "pcs s3 t = Accepted sock" "shared s3 = shared s" "pcs s4 t = Counter_read sock ?n" "pcs s5 t = Counter_written sock cid"
    by (simp_all add: s1_def s2_def s3_def s4_def s5_def goes_def assms(3))
  have "server_step s s1" unfolding s1_def by (rule call_accept [OF assms(2)])
  moreover have "server_step s1 s2" unfolding s2_def by (rule accept_lock [OF p(1,2)])
  moreover have "server_step s2 s3" unfolding s3_def by (rule accept_some [OF p(3) _ 1(2)]) (simp add: p open_fd)
  moreover have "server_step s3 s4" unfolding s4_def using counter_read [OF p(5)] by (simp add: p(6))
  moreover have "server_step s4 s5" unfolding s5_def by (rule counter_write [OF p(7) c(1)])
  moreover have "server_step s5 s6" unfolding s6_def by (rule enter [OF p(8)])
  ultimately have "reaches s s6" by (meson converse_rtranclp_into_rtranclp rtranclp.rtrancl_refl)
  moreover have "shared s6 = sv'" "pcs s6 t = Accept_done sock cid" "mtx s6 = None"
    by (simp_all add: s6_def s5_def s4_def s3_def s2_def s1_def goes_def c(2))
  ultimately show ?thesis by blast
qed

text \<open>
  Two threads in \<open>acceptOne\<close> can read the counter before either writes it: both clients get the same number,
  and the table keeps one of them only; the stream of the other is destroyed while its caller holds a pointer
  to its entry.
\<close>

lemma accept_race:
  assumes "\<not> fd_closed sv" and "a \<noteq> -1" and "b \<noteq> -1"
  shows "\<exists>s cid. reaches (server_threads_start sv) s \<and> pcs s 0 = Accept_done a cid \<and> pcs s 1 = Accept_done b cid \<and>
    map_option fst (clientStreamMap (shared s) cid) = Some b"
proof -
  let ?n = "totalClients sv" and ?c = "wrap64 (int (totalClients sv) + 1)"
  define s0 where "s0 = server_threads_start sv"
  define accepted where "accepted = (\<lambda>t x s. goes t (Counter_read x (totalClients (shared s)))
    (goes t (Accepted x) ((goes t Accept_locked ((goes t Accept_begin s)\<lparr>mtx := Some t\<rparr>))\<lparr>mtx := None\<rparr>)))"
  have go: "reaches s (accepted t x s)" if "at_rest (pcs s t)" "mtx s = None" "\<not> fd_closed (shared s)" "x \<noteq> -1" for s t x
  proof -
    define s1 where "s1 = goes t Accept_begin s"
    define s2 where "s2 = goes t Accept_locked (s1\<lparr>mtx := Some t\<rparr>)"
    define s3 where "s3 = goes t (Accepted x) (s2\<lparr>mtx := None\<rparr>)"
    have p: "pcs s1 t = Accept_begin" "mtx s1 = None" "pcs s2 t = Accept_locked" "shared s2 = shared s"
        "pcs s3 t = Accepted x" "shared s3 = shared s"
      by (simp_all add: s1_def s2_def s3_def goes_def that(2))
    have "server_step s s1" unfolding s1_def by (rule call_accept [OF that(1)])
    moreover have "server_step s1 s2" unfolding s2_def by (rule accept_lock [OF p(1,2)])
    moreover have "server_step s2 s3" unfolding s3_def by (rule accept_some [OF p(3) _ that(4)]) (simp add: p that(3))
    moreover have "server_step s3 (accepted t x s)"
      using counter_read [OF p(5)] unfolding p(6) unfolding accepted_def s3_def s2_def s1_def .
    ultimately show ?thesis by (meson converse_rtranclp_into_rtranclp rtranclp.rtrancl_refl)
  qed
  define finished where "finished = (\<lambda>t x s. goes t (Accept_done x ?c)
    ((goes t (Counter_written x ?c) (s\<lparr>shared := (shared s)\<lparr>totalClients := ?c\<rparr>\<rparr>))
      \<lparr>shared := enter_client x None ?c ((shared s)\<lparr>totalClients := ?c\<rparr>)\<rparr>))"
  have fin: "reaches s (finished t x s)" if "pcs s t = Counter_read x ?n" for s t x
  proof -
    define s1 where "s1 = goes t (Counter_written x ?c) (s\<lparr>shared := (shared s)\<lparr>totalClients := ?c\<rparr>\<rparr>)"
    have "server_step s s1" unfolding s1_def by (rule counter_write [OF that refl])
    moreover have "server_step s1 (finished t x s)"
      using enter [of s1 t x ?c None] by (simp add: finished_def s1_def goes_def)
    ultimately show ?thesis by (meson converse_rtranclp_into_rtranclp rtranclp.rtrancl_refl)
  qed
  define s1 where "s1 = accepted 0 a s0"
  define s2 where "s2 = accepted 1 b s1"
  define s3 where "s3 = finished 0 a s2"
  define s4 where "s4 = finished 1 b s3"
  have q: "shared s1 = sv" "mtx s1 = None" "pcs s1 1 = Idle" "shared s2 = sv" "pcs s2 0 = Counter_read a ?n"
      "pcs s2 1 = Counter_read b ?n" "pcs s3 1 = Counter_read b ?n"
    by (simp_all add: s1_def s2_def s3_def accepted_def finished_def goes_def s0_def server_threads_start_def)
  have "reaches s0 s1" unfolding s1_def
    by (rule go) (use assms in \<open>simp_all add: s0_def server_threads_start_def at_rest_def\<close>)
  also have "reaches s1 s2" unfolding s2_def by (rule go) (use assms q in \<open>simp_all add: at_rest_def\<close>)
  also have "reaches s2 s3" unfolding s3_def by (rule fin [OF q(5)])
  also have "reaches s3 s4" unfolding s4_def by (rule fin [OF q(7)])
  finally have "reaches (server_threads_start sv) s4" by (simp add: s0_def)
  moreover have "pcs s4 0 = Accept_done a ?c" "pcs s4 1 = Accept_done b ?c"
      "map_option fst (clientStreamMap (shared s4) ?c) = Some b"
    by (simp_all add: s4_def s3_def finished_def goes_def enter_client_def)
  ultimately show ?thesis by blast
qed

end
