(* ===== verification/Ssl_Factory.thy ===== *)
theory Ssl_Factory
  imports Cpp_String
begin

text \<open>
  \<open>ssl_factory\<close> of ssl_factory.cpp: making TLS contexts.  OpenSSL is an argument; its objects are numbers, a
  null pointer is \<open>None\<close>.
\<close>

section \<open>OpenSSL\<close>

text \<open>What is set in a certificate, one call after the other.\<close>

datatype x509_setting =
    Version nat
  | Serial_number nat
  | Not_before int
  | Not_after int
  | Pubkey "nat option"
  | Common_name string
  | Issuer_from_subject

record 'o openssl =
  ctx_new :: "bool \<Rightarrow> 'o \<Rightarrow> nat option \<times> 'o"
  ctx_free :: "nat \<Rightarrow> 'o \<Rightarrow> 'o"
  verify_host :: "nat \<Rightarrow> string \<Rightarrow> 'o \<Rightarrow> 'o"
  bn_new :: "'o \<Rightarrow> nat option \<times> 'o"
  bn_set_word :: "nat option \<Rightarrow> nat \<Rightarrow> 'o \<Rightarrow> int \<times> 'o"
  bn_free :: "nat \<Rightarrow> 'o \<Rightarrow> 'o"
  rsa_new :: "'o \<Rightarrow> nat option \<times> 'o"
  rsa_generate :: "nat option \<Rightarrow> nat \<Rightarrow> nat option \<Rightarrow> 'o \<Rightarrow> int \<times> 'o"
  rsa_free :: "nat \<Rightarrow> 'o \<Rightarrow> 'o"
  pkey_new :: "'o \<Rightarrow> nat option \<times> 'o"
  pkey_assign_rsa :: "nat option \<Rightarrow> nat option \<Rightarrow> 'o \<Rightarrow> bool \<times> 'o"
  pkey_free :: "nat \<Rightarrow> 'o \<Rightarrow> 'o"
  x509_new :: "'o \<Rightarrow> nat option \<times> 'o"
  x509_set :: "x509_setting \<Rightarrow> nat option \<Rightarrow> 'o \<Rightarrow> 'o"
  ext_conf :: "string \<Rightarrow> 'o \<Rightarrow> nat option \<times> 'o"
  x509_add_ext :: "nat option \<Rightarrow> nat \<Rightarrow> 'o \<Rightarrow> 'o"
  ext_free :: "nat \<Rightarrow> 'o \<Rightarrow> 'o"
  x509_sign :: "nat option \<Rightarrow> nat option \<Rightarrow> 'o \<Rightarrow> bool \<times> 'o"
  x509_free :: "nat \<Rightarrow> 'o \<Rightarrow> 'o"
  bio_new :: "'o \<Rightarrow> nat option \<times> 'o"
  bio_mem_buf :: "string \<Rightarrow> int \<Rightarrow> 'o \<Rightarrow> nat option \<times> 'o"
  bio_free :: "nat option \<Rightarrow> 'o \<Rightarrow> 'o"
  write_key :: "nat option \<Rightarrow> nat option \<Rightarrow> 'o \<Rightarrow> bool \<times> 'o"
  write_x509 :: "nat option \<Rightarrow> nat option \<Rightarrow> 'o \<Rightarrow> bool \<times> 'o"
  read_x509 :: "nat option \<Rightarrow> 'o \<Rightarrow> nat option \<times> 'o"
  read_key :: "nat option \<Rightarrow> 'o \<Rightarrow> nat option \<times> 'o"
  use_certificate :: "nat \<Rightarrow> nat option \<Rightarrow> 'o \<Rightarrow> int \<times> 'o"
  use_key :: "nat \<Rightarrow> nat option \<Rightarrow> 'o \<Rightarrow> int \<times> 'o"
  check_key :: "nat \<Rightarrow> 'o \<Rightarrow> int \<times> 'o"

definition ssl_fail :: "string \<Rightarrow> 'o \<Rightarrow> nat cpp \<times> 'o" where
  "ssl_fail msg k = (Inl (Runtime_error msg), k)"

section \<open>A client's context\<close>

definition createClient :: "'o openssl \<Rightarrow> string \<Rightarrow> 'o \<Rightarrow> nat cpp \<times> 'o" where
  "createClient L host k = (case ctx_new L False k of
     (None, k) \<Rightarrow> ssl_fail ''failed to create SSL context'' k
   | (Some c, k) \<Rightarrow> (Inr c, verify_host L c (takeWhile (\<lambda>x. x \<noteq> CHR 0x00) host) k))"

section \<open>A server's context with a certificate and a key\<close>

text \<open>\<open>load_key\<close> is the part after the certificate \<open>x\<close> was given to the context \<open>c\<close>.\<close>

definition load_key :: "'o openssl \<Rightarrow> nat \<Rightarrow> nat \<Rightarrow> string \<Rightarrow> 'o \<Rightarrow> nat cpp \<times> 'o" where
  "load_key L c x key k =
     (case bio_mem_buf L key (i32 (int (length key))) k of (keyBio, k) \<Rightarrow>
     (case read_key L keyBio k of (pkey, k) \<Rightarrow>
      let k = bio_free L keyBio k in
      (case pkey of
         None \<Rightarrow> ssl_fail ''Failed to load private key'' (ctx_free L c (x509_free L x k))
       | Some p \<Rightarrow>
         (case use_key L c (Some p) k of (r, k) \<Rightarrow>
           if r \<noteq> 1 then ssl_fail ''Failed to assign private key to SSL context''
             (ctx_free L c (x509_free L x (pkey_free L p k)))
           else (case check_key L c k of (r, k) \<Rightarrow>
             if r \<noteq> 1 then ssl_fail ''Private key does not match certificate''
               (ctx_free L c (x509_free L x (pkey_free L p k)))
             else (Inr c, x509_free L x (pkey_free L p k)))))))"

definition createServer_pem :: "'o openssl \<Rightarrow> string \<Rightarrow> string \<Rightarrow> 'o \<Rightarrow> nat cpp \<times> 'o" where
  "createServer_pem L cert key k = (case ctx_new L True k of
     (None, k) \<Rightarrow> ssl_fail ''failed to create SSL context'' k
   | (Some c, k) \<Rightarrow>
     (case bio_mem_buf L cert (i32 (int (length cert))) k of (certBio, k) \<Rightarrow>
     (case read_x509 L certBio k of (x509, k) \<Rightarrow>
      let k = bio_free L certBio k in
      (case x509 of
         None \<Rightarrow> ssl_fail ''Failed to load X509 certificate'' (ctx_free L c k)
       | Some x \<Rightarrow>
         (case use_certificate L c (Some x) k of (r, k) \<Rightarrow>
           if r \<noteq> 1 then ssl_fail ''Failed to assign certificate to SSL context'' (ctx_free L c (x509_free L x k))
           else load_key L c x key k)))))"

section \<open>A server's context with a certificate of its own\<close>

text \<open>The pointers of the function; \<open>cleanup\<close> frees those that are not null.\<close>

record pointers =
  p_bne :: "nat option"
  p_rsa :: "nat option"
  p_pkey :: "nat option"
  p_x509 :: "nat option"
  p_certBio :: "nat option"
  p_keyBio :: "nat option"

definition no_pointers :: pointers where
  "no_pointers = \<lparr>p_bne = None, p_rsa = None, p_pkey = None, p_x509 = None, p_certBio = None, p_keyBio = None\<rparr>"

definition freed_by :: "(nat \<Rightarrow> 'o \<Rightarrow> 'o) \<Rightarrow> nat option \<Rightarrow> 'o \<Rightarrow> 'o" where
  "freed_by free_it p k = (case p of Some a \<Rightarrow> free_it a k | None \<Rightarrow> k)"

definition cleanup :: "'o openssl \<Rightarrow> pointers \<Rightarrow> 'o \<Rightarrow> 'o" where
  "cleanup L p k =
     (let k = freed_by (bn_free L) (p_bne p) k;
          k = freed_by (rsa_free L) (p_rsa p) k;
          k = freed_by (pkey_free L) (p_pkey p) k;
          k = freed_by (x509_free L) (p_x509 p) k;
          k = freed_by (\<lambda>b. bio_free L (Some b)) (p_certBio p) k
      in freed_by (\<lambda>b. bio_free L (Some b)) (p_keyBio p) k)"

text \<open>\<open>fill_certificate\<close> is what is set in the new certificate before it is signed.\<close>

definition fill_certificate :: "'o openssl \<Rightarrow> nat option \<Rightarrow> nat option \<Rightarrow> 'o \<Rightarrow> 'o" where
  "fill_certificate L x509 pkey k =
     (let k = x509_set L (Version 2) x509 k;
          k = x509_set L (Serial_number 1) x509 k;
          k = x509_set L (Not_before 0) x509 k;
          k = x509_set L (Not_after (60 * 60 * 24 * 365)) x509 k;
          k = x509_set L (Pubkey pkey) x509 k;
          k = x509_set L (Common_name ''localhost'') x509 k;
          k = x509_set L Issuer_from_subject x509 k
      in case ext_conf L ''DNS:localhost,IP:127.0.0.1'' k of
           (Some e, k) \<Rightarrow> ext_free L e (x509_add_ext L x509 e k)
         | (None, k) \<Rightarrow> k)"

text \<open>The steps up to the label; the result is the pointers at the jump, or an exception.\<close>

definition make_key :: "'o openssl \<Rightarrow> 'o \<Rightarrow> bool \<times> pointers \<times> 'o" where
  "make_key L k = (case bn_new L k of (bne, k) \<Rightarrow>
     (let p = no_pointers\<lparr>p_bne := bne\<rparr> in
      case bn_set_word L bne 65537 k of (r, k) \<Rightarrow>
        if r \<noteq> 1 then (False, p, k)
        else (case rsa_new L k of (rsa, k) \<Rightarrow>
          (let p = p\<lparr>p_rsa := rsa\<rparr> in
           case rsa_generate L rsa 2048 bne k of (r, k) \<Rightarrow>
             if r \<noteq> 1 then (False, p, k)
             else (case pkey_new L k of (pkey, k) \<Rightarrow>
               (let p = p\<lparr>p_pkey := pkey\<rparr> in
                case pkey_assign_rsa L pkey rsa k of (ok, k) \<Rightarrow>
                  if \<not> ok then (False, p, k) else (True, p\<lparr>p_rsa := None\<rparr>, k)))))))"

definition assign_failed :: cpp_error where
  "assign_failed = Runtime_error ''Failed to assign certificate or private key to SSL context''"

text \<open>\<open>install_certificate\<close> is what follows the signature.\<close>

definition install_certificate :: "'o openssl \<Rightarrow> nat \<Rightarrow> pointers \<Rightarrow> 'o \<Rightarrow> pointers cpp \<times> 'o" where
  "install_certificate L c p k = (case bio_new L k of (certBio, k) \<Rightarrow> (case bio_new L k of (keyBio, k) \<Rightarrow>
     (let p = p\<lparr>p_certBio := certBio, p_keyBio := keyBio\<rparr> in
      case write_key L keyBio (p_pkey p) k of (ok, k) \<Rightarrow>
        if \<not> ok then (Inr p, k)
        else (case write_x509 L certBio (p_x509 p) k of (ok, k) \<Rightarrow>
          if \<not> ok then (Inr p, k)
          else (case use_certificate L c (p_x509 p) k of (r, k) \<Rightarrow>
            if r \<noteq> 1 then (Inl assign_failed, k)
            else (case use_key L c (p_pkey p) k of (r, k) \<Rightarrow>
              if r \<noteq> 1 then (Inl assign_failed, k)
              else (Inr p, k)))))))"

definition make_certificate :: "'o openssl \<Rightarrow> nat \<Rightarrow> pointers \<Rightarrow> 'o \<Rightarrow> pointers cpp \<times> 'o" where
  "make_certificate L c p k = (case x509_new L k of (x509, k) \<Rightarrow>
     (let p = p\<lparr>p_x509 := x509\<rparr>; k = fill_certificate L x509 (p_pkey p) k in
      case x509_sign L x509 (p_pkey p) k of (ok, k) \<Rightarrow>
        if \<not> ok then (Inr p, k) else install_certificate L c p k))"

definition createServer :: "'o openssl \<Rightarrow> 'o \<Rightarrow> nat cpp \<times> 'o" where
  "createServer L k = (case ctx_new L True k of
     (None, k) \<Rightarrow> ssl_fail ''failed to create SSL context'' k
   | (Some c, k) \<Rightarrow> (case make_key L k of (ok, p, k) \<Rightarrow>
       if \<not> ok then (Inr c, cleanup L p k)
       else (case make_certificate L c p k of
         (Inl e, k) \<Rightarrow> (Inl e, k)
       | (Inr p, k) \<Rightarrow> (Inr c, cleanup L p k))))"

section \<open>Nothing is lost or freed twice\<close>

text \<open>
  What OpenSSL promises of the objects its caller has to free: a new one is not one of them yet, freeing one
  takes just that one away, a key that was assigned to an \<open>EVP_PKEY\<close> belongs to it, and the other calls
  change nothing.
\<close>

definition gives :: "('o \<Rightarrow> nat set) \<Rightarrow> nat option \<times> 'o \<Rightarrow> 'o \<Rightarrow> bool" where
  "gives live r k \<longleftrightarrow> (case r of
     (None, k') \<Rightarrow> live k' = live k
   | (Some x, k') \<Rightarrow> x \<notin> live k \<and> live k' = insert x (live k))"

definition accounts :: "'o openssl \<Rightarrow> ('o \<Rightarrow> nat set) \<Rightarrow> bool" where
  "accounts L live \<longleftrightarrow>
     (\<forall>b k. gives live (ctx_new L b k) k) \<and> (\<forall>k. gives live (bn_new L k) k) \<and> (\<forall>k. gives live (rsa_new L k) k) \<and>
     (\<forall>k. gives live (pkey_new L k) k) \<and> (\<forall>k. gives live (x509_new L k) k) \<and> (\<forall>k. gives live (bio_new L k) k) \<and>
     (\<forall>s n k. gives live (bio_mem_buf L s n k) k) \<and> (\<forall>b k. gives live (read_x509 L b k) k) \<and>
     (\<forall>b k. gives live (read_key L b k) k) \<and> (\<forall>s k. gives live (ext_conf L s k) k) \<and>
     (\<forall>x k. live (ctx_free L x k) = live k - {x}) \<and> (\<forall>x k. live (bn_free L x k) = live k - {x}) \<and>
     (\<forall>x k. live (rsa_free L x k) = live k - {x}) \<and> (\<forall>x k. live (pkey_free L x k) = live k - {x}) \<and>
     (\<forall>x k. live (x509_free L x k) = live k - {x}) \<and> (\<forall>x k. live (ext_free L x k) = live k - {x}) \<and>
     (\<forall>b k. live (bio_free L b k) = live k - set_option b) \<and>
     (\<forall>p r k. live (snd (pkey_assign_rsa L p r k)) =
        (if fst (pkey_assign_rsa L p r k) then live k - set_option r else live k)) \<and>
     (\<forall>c h k. live (verify_host L c h k) = live k) \<and> (\<forall>b w k. live (snd (bn_set_word L b w k)) = live k) \<and>
     (\<forall>r n b k. live (snd (rsa_generate L r n b k)) = live k) \<and> (\<forall>s x k. live (x509_set L s x k) = live k) \<and>
     (\<forall>x e k. live (x509_add_ext L x e k) = live k) \<and> (\<forall>x p k. live (snd (x509_sign L x p k)) = live k) \<and>
     (\<forall>b p k. live (snd (write_key L b p k)) = live k) \<and> (\<forall>b x k. live (snd (write_x509 L b x k)) = live k) \<and>
     (\<forall>c x k. live (snd (use_certificate L c x k)) = live k) \<and> (\<forall>c p k. live (snd (use_key L c p k)) = live k) \<and>
     (\<forall>c k. live (snd (check_key L c k)) = live k)"

lemma gives_Some: "gives live (Some x, k') k \<Longrightarrow> x \<notin> live k \<and> live k' = insert x (live k)"
  by (simp add: gives_def)

lemma gives_None: "gives live (None, k') k \<Longrightarrow> live k' = live k"
  by (simp add: gives_def)

lemma gives_option: "gives live (a, k') k \<Longrightarrow> live k' = set_option a \<union> live k \<and> set_option a \<inter> live k = {}"
  by (cases a) (auto simp: gives_def)

lemma accounts_new:
  assumes "accounts L live"
  shows "gives live (ctx_new L b k) k" "gives live (bn_new L k) k" "gives live (rsa_new L k) k"
    "gives live (pkey_new L k) k" "gives live (x509_new L k) k" "gives live (bio_new L k) k"
    "gives live (bio_mem_buf L s n k) k" "gives live (read_x509 L p k) k" "gives live (read_key L p k) k"
    "gives live (ext_conf L s k) k"
  using assms by (simp_all add: accounts_def)

lemma accounts_free:
  assumes "accounts L live"
  shows "live (ctx_free L x k) = live k - {x}" "live (bn_free L x k) = live k - {x}"
    "live (rsa_free L x k) = live k - {x}" "live (pkey_free L x k) = live k - {x}"
    "live (x509_free L x k) = live k - {x}" "live (ext_free L x k) = live k - {x}"
    "live (bio_free L b k) = live k - set_option b"
  using assms by (simp_all add: accounts_def)

lemma accounts_keep:
  assumes "accounts L live"
  shows "live (verify_host L c h k) = live k" "live (x509_set L s y k) = live k" "live (x509_add_ext L y e k) = live k"
    "bn_set_word L p w k = (r, k') \<Longrightarrow> live k' = live k" "rsa_generate L p n q k = (r, k') \<Longrightarrow> live k' = live k"
    "x509_sign L p q k = (ok, k') \<Longrightarrow> live k' = live k" "write_key L p q k = (ok, k') \<Longrightarrow> live k' = live k"
    "write_x509 L p q k = (ok, k') \<Longrightarrow> live k' = live k" "use_certificate L c p k = (r, k') \<Longrightarrow> live k' = live k"
    "use_key L c p k = (r, k') \<Longrightarrow> live k' = live k" "check_key L c k = (r, k') \<Longrightarrow> live k' = live k"
    "pkey_assign_rsa L p q k = (ok, k') \<Longrightarrow> live k' = (if ok then live k - set_option q else live k)"
  using assms unfolding accounts_def by (metis fst_conv snd_conv)+

text \<open>A context that was made is the one new object; when none is made there is no new object.\<close>

definition made :: "('o \<Rightarrow> nat set) \<Rightarrow> nat cpp \<times> 'o \<Rightarrow> 'o \<Rightarrow> bool" where
  "made live r k \<longleftrightarrow> (case r of
     (Inl e, k') \<Rightarrow> live k' = live k
   | (Inr c, k') \<Rightarrow> c \<notin> live k \<and> live k' = insert c (live k))"

lemma made_simps [simp]: "made live (ssl_fail msg k') k \<longleftrightarrow> live k' = live k"
    "made live (Inr c, k') k \<longleftrightarrow> c \<notin> live k \<and> live k' = insert c (live k)"
  by (simp_all add: made_def ssl_fail_def)

lemma createClient_made:
  assumes "accounts L live"
  shows "made live (createClient L host k) k"
proof -
  obtain c k1 where c: "ctx_new L False k = (c, k1)" by fastforce
  then have "gives live (c, k1) k" using accounts_new(1) [OF assms, of False k] by simp
  then show ?thesis
    by (cases c) (simp_all add: createClient_def c gives_def accounts_keep(1) [OF assms])
qed

lemma load_key_made:
  assumes "accounts L live" and "live k = insert x (insert c V)" and "x \<noteq> c" "x \<notin> V" "c \<notin> V"
  shows "case load_key L c x key k of (Inl e, k') \<Rightarrow> live k' = V | (Inr c', k') \<Rightarrow> c' = c \<and> live k' = insert c V"
proof -
  note free = accounts_free [OF assms(1)] and keep = accounts_keep [OF assms(1)] and new = accounts_new [OF assms(1)]
  obtain d k1 where 1: "bio_mem_buf L key (i32 (int (length key))) k = (d, k1)" by fastforce
  obtain z k2 where 2: "read_key L d k1 = (z, k2)" by fastforce
  have l: "live k1 = set_option d \<union> live k" "set_option d \<inter> live k = {}" "gives live (z, k2) k1"
    using gives_option [of live d k1 k] new(7) [of key "i32 (int (length key))" k] new(9) [of d k1] 1 2 by simp_all
  show ?thesis
  proof (cases z)
    case None
    have "live k2 = live k1" by (rule gives_None) (use l(3) None in simp)
    then have "live (ctx_free L c (x509_free L x (bio_free L d k2))) = V" using l assms(2-5) unfolding free by auto
    then show ?thesis by (simp add: load_key_def 1 2 None ssl_fail_def)
  next
    case (Some p)
    have p: "p \<notin> live k1" "live k2 = insert p (live k1)"
      using gives_Some [of live p k2 k1] l(3) by (simp_all add: Some)
    obtain r k3 where 3: "use_key L c (Some p) (bio_free L d k2) = (r, k3)" by fastforce
    obtain t k4 where 4: "check_key L c k3 = (t, k4)" by fastforce
    have "live k3 = insert p (live k)" "live k4 = insert p (live k)" "p \<notin> live k"
      using keep(10) [OF 3] keep(11) [OF 4] l p unfolding free by auto
    then have "live (x509_free L x (pkey_free L p k4)) = insert c V"
        "live (ctx_free L c (x509_free L x (pkey_free L p k3))) = V"
        "live (ctx_free L c (x509_free L x (pkey_free L p k4))) = V"
      using assms(2-5) unfolding free by auto
    then show ?thesis by (simp add: load_key_def 1 2 3 4 Some ssl_fail_def)
  qed
qed

lemma createServer_pem_made:
  assumes "accounts L live"
  shows "made live (createServer_pem L cert key k) k"
proof -
  note free = accounts_free [OF assms] and keep = accounts_keep [OF assms] and new = accounts_new [OF assms]
  obtain a k1 where 1: "ctx_new L True k = (a, k1)" by fastforce
  have l1: "gives live (a, k1) k" using new(1) [of True k] by (simp add: 1)
  show ?thesis
  proof (cases a)
    case None
    then show ?thesis using l1 by (simp add: createServer_pem_def 1 gives_def)
  next
    case a: (Some c)
    have c: "c \<notin> live k" "live k1 = insert c (live k)" using gives_Some [of live c k1 k] l1 by (simp_all add: a)
    obtain b k2 where 2: "bio_mem_buf L cert (i32 (int (length cert))) k1 = (b, k2)" by fastforce
    obtain z k3 where 3: "read_x509 L b k2 = (z, k3)" by fastforce
    have l: "live k2 = set_option b \<union> live k1" "set_option b \<inter> live k1 = {}" "gives live (z, k3) k2"
      using gives_option [of live b k2 k1] new(7) [of cert "i32 (int (length cert))" k1] new(8) [of b k2] 2 3
      by simp_all
    show ?thesis
    proof (cases z)
      case None
      have "live k3 = live k2" by (rule gives_None) (use l(3) None in simp)
      then have "live (ctx_free L c (bio_free L b k3)) = live k" using l c unfolding free by auto
      then show ?thesis by (simp add: createServer_pem_def 1 2 3 a None)
    next
      case z: (Some x)
      have x: "x \<notin> live k2" "live k3 = insert x (live k2)"
        using gives_Some [of live x k3 k2] l(3) by (simp_all add: z)
      obtain r k4 where 4: "use_certificate L c (Some x) (bio_free L b k3) = (r, k4)" by fastforce
      have k4: "live k4 = insert x (insert c (live k))" "x \<noteq> c" "x \<notin> live k"
        using keep(9) [OF 4] l x c unfolding free by auto
      then have f: "live (ctx_free L c (x509_free L x k4)) = live k" using c unfolding free by auto
      show ?thesis using load_key_made [OF assms k4(1-3) c(1), of key] f c(1)
        by (auto simp: createServer_pem_def 1 2 3 4 a z made_def ssl_fail_def split: sum.splits prod.splits)
    qed
  qed
qed

section \<open>The self-signed context\<close>

definition owned :: "pointers \<Rightarrow> nat set" where
  "owned p = set_option (p_bne p) \<union> set_option (p_rsa p) \<union> set_option (p_pkey p) \<union> set_option (p_x509 p) \<union>
     set_option (p_certBio p) \<union> set_option (p_keyBio p)"

lemma live_freed_by:
  "(\<And>x k. live (f x k) = live k - {x}) \<Longrightarrow> live (freed_by f p k) = live k - set_option p"
  by (cases p) (auto simp: freed_by_def)

lemma live_cleanup:
  assumes "accounts L live"
  shows "live (cleanup L p k) = live k - owned p"
proof -
  note free = accounts_free [OF assms]
  have "live (freed_by (\<lambda>b. bio_free L (Some b)) q k) = live k - set_option q" for q k
    by (rule live_freed_by) (simp add: free)
  then show ?thesis
    by (auto simp: cleanup_def Let_def owned_def live_freed_by [where live = live, OF free(2)]
      live_freed_by [where live = live, OF free(3)] live_freed_by [where live = live, OF free(4)]
      live_freed_by [where live = live, OF free(5)])
qed

lemma live_fill_certificate:
  assumes "accounts L live"
  shows "live (fill_certificate L x p k) = live k"
proof -
  note free = accounts_free [OF assms] and keep = accounts_keep [OF assms] and new = accounts_new [OF assms]
  have "live (case ext_conf L n k of (Some e, k') \<Rightarrow> ext_free L e (x509_add_ext L x e k') | (None, k') \<Rightarrow> k') = live k"
    for n k using new(10) [of n k] by (auto simp: gives_def free keep(3) split: prod.splits option.splits)
  then show ?thesis by (simp add: fill_certificate_def Let_def keep(2))
qed

lemma make_key_live:
  assumes "accounts L live" and "make_key L k = (ok, p, k')"
  shows "live k' = owned p \<union> live k \<and> owned p \<inter> live k = {} \<and> p_x509 p = None \<and> p_certBio p = None \<and> p_keyBio p = None"
proof -
  note keep = accounts_keep [OF assms(1)] and new = accounts_new [OF assms(1)]
  obtain a k1 where 1: "bn_new L k = (a, k1)" by fastforce
  obtain r2 k2 where 2: "bn_set_word L a 65537 k1 = (r2, k2)" by fastforce
  obtain b k3 where 3: "rsa_new L k2 = (b, k3)" by fastforce
  obtain r4 k4 where 4: "rsa_generate L b 2048 a k3 = (r4, k4)" by fastforce
  obtain c k5 where 5: "pkey_new L k4 = (c, k5)" by fastforce
  obtain d k6 where 6: "pkey_assign_rsa L c b k5 = (d, k6)" by fastforce
  have l1: "live k1 = set_option a \<union> live k \<and> set_option a \<inter> live k = {}"
    using gives_option new(2) [of k] 1 by metis
  have l2: "live k2 = live k1" by (rule keep(4) [OF 2])
  have l3: "live k3 = set_option b \<union> live k2 \<and> set_option b \<inter> live k2 = {}"
    using gives_option new(3) [of k2] 3 by metis
  have l4: "live k4 = live k3" by (rule keep(5) [OF 4])
  have l5: "live k5 = set_option c \<union> live k4 \<and> set_option c \<inter> live k4 = {}"
    using gives_option new(4) [of k4] 5 by metis
  have l6: "live k6 = (if d then live k5 - set_option b else live k5)" by (rule keep(12) [OF 6])
  have m: "make_key L k = (if r2 \<noteq> 1 then (False, no_pointers\<lparr>p_bne := a\<rparr>, k2)
      else if r4 \<noteq> 1 then (False, no_pointers\<lparr>p_bne := a, p_rsa := b\<rparr>, k4)
      else if \<not> d then (False, no_pointers\<lparr>p_bne := a, p_rsa := b, p_pkey := c\<rparr>, k6)
      else (True, no_pointers\<lparr>p_bne := a, p_pkey := c, p_rsa := None\<rparr>, k6))"
    by (simp add: make_key_def Let_def 1 2 3 4 5 6 cong del: if_weak_cong)
  show ?thesis using assms(2) l1 l2 l3 l4 l5 l6 unfolding m
    by (auto simp: owned_def no_pointers_def split: if_splits)
qed

lemma added_to:
  fixes A B K P :: "nat set"
  assumes "A \<inter> K = {}" "B \<inter> K = {}" "P \<subseteq> K"
  shows "B \<union> (A \<union> K) = P \<union> A \<union> B \<union> K \<and> P \<subseteq> P \<union> A \<union> B \<and> (P \<union> A \<union> B) \<inter> K \<subseteq> P"
  using assms by blast

lemma added_more:
  fixes A K P :: "nat set"
  assumes "L3 = Q' \<union> L2" "Q \<subseteq> Q'" "Q' \<inter> L2 \<subseteq> Q" "L2 = A \<union> K" "Q = P \<union> A" "A \<inter> K = {}"
  shows "L3 = Q' \<union> K \<and> P \<subseteq> Q' \<and> Q' \<inter> K \<subseteq> P"
  using assms by blast

lemma install_certificate_live:
  assumes "accounts L live" and "p_certBio p = None" "p_keyBio p = None" and "owned p \<subseteq> live k"
  shows "case install_certificate L c p k of
     (Inr p', k') \<Rightarrow> live k' = owned p' \<union> live k \<and> owned p \<subseteq> owned p' \<and> owned p' \<inter> live k \<subseteq> owned p
   | (Inl e, k') \<Rightarrow> live k \<subseteq> live k'"
proof -
  note keep = accounts_keep [OF assms(1)] and new = accounts_new [OF assms(1)]
  obtain a k3 where 3: "bio_new L k = (a, k3)" by fastforce
  obtain b k4 where 4: "bio_new L k3 = (b, k4)" by fastforce
  obtain r5 k5 where 5: "write_key L b (p_pkey p) k4 = (r5, k5)" by fastforce
  obtain r6 k6 where 6: "write_x509 L a (p_x509 p) k5 = (r6, k6)" by fastforce
  obtain r7 k7 where 7: "use_certificate L c (p_x509 p) k6 = (r7, k7)" by fastforce
  obtain r8 k8 where 8: "use_key L c (p_pkey p) k7 = (r8, k8)" by fastforce
  have l3: "live k3 = set_option a \<union> live k \<and> set_option a \<inter> live k = {}"
    using gives_option [of live a k3 k] new(6) [of k] by (simp add: 3)
  have l4: "live k4 = set_option b \<union> live k3 \<and> set_option b \<inter> live k3 = {}"
    using gives_option [of live b k4 k3] new(6) [of k3] by (simp add: 4)
  have l5: "live k5 = live k4" "live k6 = live k5" "live k7 = live k6" "live k8 = live k7"
    by (rule keep(7) [OF 5], rule keep(8) [OF 6], rule keep(9) [OF 7], rule keep(10) [OF 8])
  define p2 where "p2 = p\<lparr>p_certBio := a, p_keyBio := b\<rparr>"
  have o: "owned p2 = owned p \<union> set_option a \<union> set_option b"
    using assms(2,3) by (auto simp: owned_def p2_def)
  let ?e = "Inl assign_failed"
  have m: "install_certificate L c p k = (if \<not> r5 then (Inr p2, k5) else if \<not> r6 then (Inr p2, k6)
      else if r7 \<noteq> 1 then (?e, k7) else if r8 \<noteq> 1 then (?e, k8) else (Inr p2, k8))"
    unfolding install_certificate_def Let_def p2_def 3 4 prod.case
    by (cases r5; cases r6; cases "r7 = 1"; cases "r8 = 1"; simp add: 5 6 7 8)
  have d: "set_option a \<inter> live k = {}" "set_option b \<inter> live k = {}" using l3 l4 by auto
  have e: "live k5 = set_option b \<union> (set_option a \<union> live k)" using l5 l4 l3 by simp
  have "live k5 = owned p2 \<union> live k \<and> owned p \<subseteq> owned p2 \<and> owned p2 \<inter> live k \<subseteq> owned p"
    unfolding e o by (rule added_to [OF d assms(4)])
  then show ?thesis unfolding m by (simp add: l5 split: if_split)
qed

lemma make_certificate_live:
  assumes "accounts L live" and "p_x509 p = None" "p_certBio p = None" "p_keyBio p = None" and "owned p \<subseteq> live k"
  shows "case make_certificate L c p k of
     (Inr p', k') \<Rightarrow> live k' = owned p' \<union> live k \<and> owned p \<subseteq> owned p' \<and> owned p' \<inter> live k \<subseteq> owned p
   | (Inl e, k') \<Rightarrow> live k \<subseteq> live k'"
proof -
  obtain x k1 where 1: "x509_new L k = (x, k1)" by fastforce
  define kf where "kf = fill_certificate L x (p_pkey p) k1"
  obtain ok k2 where 2: "x509_sign L x (p_pkey p) kf = (ok, k2)" by fastforce
  define q where "q = p\<lparr>p_x509 := x\<rparr>"
  have l1: "live k1 = set_option x \<union> live k \<and> set_option x \<inter> live k = {}"
    using gives_option [of live x k1 k] accounts_new(5) [OF assms(1), of k] by (simp add: 1)
  have l2: "live k2 = set_option x \<union> live k"
    using accounts_keep(6) [OF assms(1) 2] live_fill_certificate [OF assms(1)] l1 by (simp add: kf_def)
  have o: "owned q = owned p \<union> set_option x" using assms(2) by (auto simp: owned_def q_def)
  have q: "p_certBio q = None" "p_keyBio q = None" "owned q \<subseteq> live k2"
    using assms(3-5) o l2 by (auto simp: q_def)
  have m: "make_certificate L c p k = (if \<not> ok then (Inr q, k2) else install_certificate L c q k2)"
    by (simp add: make_certificate_def Let_def q_def 1 2 [unfolded kf_def])
  obtain r k3 where 3: "install_certificate L c q k2 = (r, k3)" by fastforce
  have 4: "case (r, k3) of
     (Inr p', k') \<Rightarrow> live k' = owned p' \<union> live k2 \<and> owned q \<subseteq> owned p' \<and> owned p' \<inter> live k2 \<subseteq> owned q
   | (Inl e, k') \<Rightarrow> live k2 \<subseteq> live k'"
    using install_certificate_live [OF assms(1) q, of c] by (simp only: 3)
  show ?thesis
  proof (cases ok)
    case False
    then show ?thesis using l1 l2 o assms(5) unfolding m by auto
  next
    case True
    show ?thesis
    proof (cases r)
      case (Inl e)
      then show ?thesis using 4 True l2 by (simp add: m 3)
    next
      case (Inr p')
      then have x: "live k3 = owned p' \<union> live k2" "owned q \<subseteq> owned p'" "owned p' \<inter> live k2 \<subseteq> owned q" using 4 by simp_all
      have "live k3 = owned p' \<union> live k \<and> owned p \<subseteq> owned p' \<and> owned p' \<inter> live k \<subseteq> owned p"
        by (rule added_more [OF x l2 o conjunct2 [OF l1]])
      then show ?thesis by (simp add: m 3 Inr True)
    qed
  qed
qed

lemma createServer_made:
  assumes "accounts L live"
  shows "case createServer L k of
     (Inr c, k') \<Rightarrow> c \<notin> live k \<and> live k' = insert c (live k)
   | (Inl e, k') \<Rightarrow> live k \<subseteq> live k'"
proof -
  obtain a k1 where 1: "ctx_new L True k = (a, k1)" by fastforce
  have l1: "gives live (a, k1) k" using accounts_new(1) [OF assms, of True k] by (simp add: 1)
  show ?thesis
  proof (cases a)
    case None
    then show ?thesis using l1 by (simp add: createServer_def 1 gives_def ssl_fail_def)
  next
    case (Some c)
    have c: "c \<notin> live k" "live k1 = insert c (live k)" using gives_Some [of live c k1 k] l1 by (simp_all add: Some)
    obtain d p k2 where 2: "make_key L k1 = (d, p, k2)" by (metis prod_cases3)
    have l2: "live k2 = owned p \<union> live k1" "owned p \<inter> live k1 = {}" "p_x509 p = None" "p_certBio p = None" "p_keyBio p = None"
      using make_key_live [OF assms 2] by simp_all
    obtain r k3 where 3: "make_certificate L c p k2 = (r, k3)" by fastforce
    have l3: "case (r, k3) of
       (Inr p', k') \<Rightarrow> live k' = owned p' \<union> live k2 \<and> owned p \<subseteq> owned p' \<and> owned p' \<inter> live k2 \<subseteq> owned p
     | (Inl e, k') \<Rightarrow> live k2 \<subseteq> live k'"
      using make_certificate_live [OF assms l2(3-5), of k2 c] l2(1) 3 by simp
    show ?thesis
    proof (cases r)
      case (Inl e)
      then show ?thesis using l3 l2 c by (auto simp: createServer_def 1 2 3 Some live_cleanup [OF assms])
    next
      case (Inr p')
      have "live (cleanup L p k2) = insert c (live k)" "live (cleanup L p' k3) = insert c (live k)"
        using l3 l2 c by (auto simp: live_cleanup [OF assms] Inr)
      then show ?thesis using c by (simp add: createServer_def 1 2 3 Some Inr)
    qed
  qed
qed

text \<open>An exception from the self-signed \<open>createServer\<close> leaves the context behind, with everything made for it.\<close>

lemma createServer_throw_leaks:
  assumes "accounts L live" and "ctx_new L True k = (Some c, k1)" and "createServer L k = (Inl e, k')"
  shows "c \<notin> live k \<and> c \<in> live k'"
proof -
  have c: "c \<notin> live k" "live k1 = insert c (live k)"
    using gives_Some [of live c k1 k] accounts_new(1) [OF assms(1), of True k] by (simp_all add: assms(2))
  obtain d p k2 where 2: "make_key L k1 = (d, p, k2)" by (metis prod_cases3)
  note l = make_key_live [OF assms(1) 2]
  obtain r k3 where 3: "make_certificate L c p k2 = (r, k3)" by fastforce
  have d: "d" "r = Inl e" "k' = k3" using assms(3)
    by (auto simp: createServer_def assms(2) 2 3 split: if_splits sum.splits)
  then have "live k2 \<subseteq> live k3"
    using make_certificate_live [OF assms(1), of p k2 c] l 3 by (cases r) simp_all
  then show ?thesis using l c d by auto
qed

text \<open>When the key cannot be made, the context that is returned has no certificate: nothing was given to it.\<close>

lemma createServer_without_certificate:
  assumes "ctx_new L True k = (Some c, k1)" and "bn_new L k1 = (b, k2)" and "bn_set_word L b 65537 k2 = (r, k3)"
    and "r \<noteq> 1"
  shows "createServer L k = (Inr c, freed_by (bn_free L) b k3)"
  using assms by (simp add: createServer_def make_key_def cleanup_def freed_by_def no_pointers_def Let_def)


text \<open>A provider whose state is the list of its live objects.\<close>

definition fresh :: "nat list \<Rightarrow> nat" where
  "fresh xs = Suc (sum_list xs)"

definition list_new :: "nat list \<Rightarrow> nat option \<times> nat list" where
  "list_new xs = (Some (fresh xs), fresh xs # xs)"

definition list_openssl :: "nat list openssl" where
  "list_openssl = \<lparr>ctx_new = \<lambda>b. list_new, ctx_free = removeAll, verify_host = \<lambda>c h k. k, bn_new = list_new,
     bn_set_word = \<lambda>b n k. (1, k), bn_free = removeAll, rsa_new = list_new, rsa_generate = \<lambda>r n b k. (1, k),
     rsa_free = removeAll, pkey_new = list_new,
     pkey_assign_rsa = \<lambda>p r k. (True, case r of Some x \<Rightarrow> removeAll x k | None \<Rightarrow> k), pkey_free = removeAll,
     x509_new = list_new, x509_set = \<lambda>s x k. k, ext_conf = \<lambda>s. list_new, x509_add_ext = \<lambda>x e k. k,
     ext_free = removeAll, x509_sign = \<lambda>x p k. (True, k), x509_free = removeAll, bio_new = list_new,
     bio_mem_buf = \<lambda>s n. list_new, bio_free = \<lambda>b k. (case b of Some x \<Rightarrow> removeAll x k | None \<Rightarrow> k),
     write_key = \<lambda>b p k. (True, k), write_x509 = \<lambda>b x k. (True, k), read_x509 = \<lambda>b. list_new,
     read_key = \<lambda>b. list_new, use_certificate = \<lambda>c x k. (1, k), use_key = \<lambda>c p k. (1, k),
     check_key = \<lambda>c k. (1, k)\<rparr>"

lemma list_new_gives: "gives set (list_new xs) xs"
proof -
  have "fresh xs \<notin> set xs" using member_le_sum_list [of _ xs] by (fastforce simp: fresh_def)
  then show ?thesis by (simp add: gives_def list_new_def)
qed

lemma list_openssl_accounts: "accounts list_openssl set"
  by (auto simp: accounts_def list_openssl_def list_new_gives split: option.splits)

lemma list_calls:
  "ctx_new list_openssl b = list_new" "bn_new list_openssl = list_new" "rsa_new list_openssl = list_new"
  "pkey_new list_openssl = list_new" "x509_new list_openssl = list_new" "bio_new list_openssl = list_new"
  "ext_conf list_openssl s = list_new" "ext_free list_openssl = removeAll" "bn_free list_openssl = removeAll"
  "pkey_free list_openssl = removeAll" "x509_free list_openssl = removeAll" "rsa_free list_openssl = removeAll"
  "bio_free list_openssl (Some x) k = removeAll x k" "x509_set list_openssl t p k = k"
  "x509_add_ext list_openssl p e k = k" "bn_set_word list_openssl p n k = (1, k)"
  "rsa_generate list_openssl p n q k = (1, k)" "pkey_assign_rsa list_openssl p (Some x) k = (True, removeAll x k)"
  "x509_sign list_openssl p q k = (True, k)" "write_key list_openssl p q k = (True, k)"
  "write_x509 list_openssl p q k = (True, k)" "use_certificate list_openssl c p k = (1, k)"
  "use_key list_openssl c p k = (1, k)"
  by (simp_all add: list_openssl_def)

lemma list_make_key:
  "make_key list_openssl [1] = (True, no_pointers\<lparr>p_bne := Some 2, p_pkey := Some 8, p_rsa := None\<rparr>, [8, 2, 1])"
  by (simp add: make_key_def list_calls list_new_def fresh_def)

lemma list_make_certificate:
  "make_certificate list_openssl 1 (no_pointers\<lparr>p_bne := Some 2, p_pkey := Some 8, p_rsa := None\<rparr>) [8, 2, 1] =
   (Inr \<lparr>p_bne = Some 2, p_rsa = None, p_pkey = Some 8, p_x509 = Some 12, p_certBio = Some 24, p_keyBio = Some 48\<rparr>,
    [48, 24, 12, 8, 2, 1])"
  by (simp add: make_certificate_def install_certificate_def fill_certificate_def list_calls list_new_def fresh_def
      no_pointers_def)

lemma list_createServer: "createServer list_openssl [] = (Inr 1, [1])"
proof -
  have "ctx_new list_openssl True [] = (Some 1, [1])" by (simp add: list_calls list_new_def fresh_def)
  then show ?thesis
    by (simp add: createServer_def list_make_key [unfolded One_nat_def] list_make_certificate [unfolded One_nat_def]
        cleanup_def freed_by_def list_calls)
qed


end
