(* ===== verification/Sockets.thy ===== *)
theory Sockets
  imports Tcp_Peers "HOL-Library.Word"
begin

text \<open>
  The start of the socket library (socket_init.cpp), name queries (system_dns.cpp), the local address
  (get_local_ip.cpp) and \<open>SetNonBlocking\<close> of tcp_iostream.hpp.  The code is compiled for Windows or for a POSIX
  system; the Boolean \<open>win\<close> says which.
\<close>

unbundle bit_operations_syntax

section \<open>The calls\<close>

datatype family = AF_INET | AF_INET6

text \<open>
  \<open>getaddrinfo\<close> gives its result, and the list it allocated, if any: its number and the addresses in it, as the
  bytes that \<open>inet_ntop\<close> gets.  \<open>inet_ntop\<close> gives the text it stores, or nothing when it fails.  A remote address
  is its text and its port in host order; \<open>getsockname\<close> gives its result and the bytes of the local address.
  \<open>fcntl_getfl\<close> and \<open>fcntl_setfl\<close> are \<open>fcntl\<close> with \<open>F_GETFL\<close> and \<open>F_SETFL\<close>, \<open>ioctl_fionbio\<close> is the call of Windows.
\<close>

record 'k net =
  wsa_startup :: "'k \<Rightarrow> int \<times> 'k"
  wsa_cleanup :: "'k \<Rightarrow> 'k"
  ssl_library_init :: "'k \<Rightarrow> 'k"
  ssl_load_error_strings :: "'k \<Rightarrow> 'k"
  openssl_add_all_algorithms :: "'k \<Rightarrow> 'k"
  getaddrinfo :: "string \<Rightarrow> family \<Rightarrow> 'k \<Rightarrow> int \<times> (nat \<times> byte list list) option \<times> 'k"
  freeaddrinfo :: "nat \<Rightarrow> 'k \<Rightarrow> 'k"
  inet_ntop :: "family \<Rightarrow> byte list \<Rightarrow> string option"
  dgram_socket :: "'k \<Rightarrow> int \<times> 'k"
  dgram_connect :: "int \<Rightarrow> string \<Rightarrow> nat \<Rightarrow> 'k \<Rightarrow> int \<times> 'k"
  getsockname :: "int \<Rightarrow> 'k \<Rightarrow> int \<times> byte list \<times> 'k"
  close_fd :: "int \<Rightarrow> 'k \<Rightarrow> 'k"
  fcntl_getfl :: "int \<Rightarrow> 'k \<Rightarrow> 32 word \<times> 'k"
  fcntl_setfl :: "int \<Rightarrow> 32 word \<Rightarrow> 'k \<Rightarrow> int \<times> 'k"
  ioctl_fionbio :: "int \<Rightarrow> int \<Rightarrow> 'k \<Rightarrow> int \<times> 'k"

section \<open>The start of the library\<close>

definition initialized_at_start :: "bool \<Rightarrow> bool" where
  "initialized_at_start win = (\<not> win)"

definition initialize :: "'k net \<Rightarrow> bool \<Rightarrow> bool \<times> 'k \<Rightarrow> unit cpp \<times> bool \<times> 'k" where
  "initialize N win ik = (case ik of (initialized, k) \<Rightarrow>
     if initialized then (Inr (), initialized, k)
     else (case (if win then wsa_startup N k else (0, k)) of (r, k) \<Rightarrow>
       if r \<noteq> 0 then (Inl (Runtime_error ''WSAStartup failed''), initialized, k)
       else (Inr (), True, openssl_add_all_algorithms N (ssl_load_error_strings N (ssl_library_init N k)))))"

definition cleanup_sockets :: "'k net \<Rightarrow> bool \<Rightarrow> bool \<times> 'k \<Rightarrow> bool \<times> 'k" where
  "cleanup_sockets N win ik = (case ik of (initialized, k) \<Rightarrow>
     if \<not> initialized then (initialized, k)
     else (False, if win then wsa_cleanup N k else k))"

section \<open>Name queries\<close>

text \<open>The loop over the list; \<open>ipstr\<close> is the buffer, whose text \<open>inet_ntop\<close> replaces unless it fails.\<close>

fun name_loop :: "'k net \<Rightarrow> family \<Rightarrow> string \<Rightarrow> byte list list \<Rightarrow> string list" where
  "name_loop N fam ipstr [] = []"
| "name_loop N fam ipstr (a # as) =
     (let ipstr = (case inet_ntop N fam a of Some t \<Rightarrow> t | None \<Rightarrow> ipstr)
      in ipstr # name_loop N fam ipstr as)"

text \<open>\<open>hostname.c_str()\<close> ends at the first null character.  \<open>junk\<close> is what the buffer holds before it is written.\<close>

definition queryFamily ::
  "'k net \<Rightarrow> bool \<Rightarrow> string \<Rightarrow> family \<Rightarrow> string \<Rightarrow> bool \<times> 'k \<Rightarrow> string list cpp \<times> bool \<times> 'k" where
  "queryFamily N win junk fam hostname ik = (case initialize N win ik of
     (Inl e, ik) \<Rightarrow> (Inl e, ik)
   | (Inr _, initialized, k) \<Rightarrow>
     (case getaddrinfo N (takeWhile (\<lambda>c. c \<noteq> CHR 0x00) hostname) fam k of (ret, result, k) \<Rightarrow>
       if ret \<noteq> 0 then (Inr [], initialized, k)
       else (case result of
         None \<Rightarrow> (Inr [], initialized, k)
       | Some (r, as) \<Rightarrow> (Inr (name_loop N fam junk as), initialized, freeaddrinfo N r k))))"

definition queryA :: "'k net \<Rightarrow> bool \<Rightarrow> string \<Rightarrow> string \<Rightarrow> bool \<times> 'k \<Rightarrow> string list cpp \<times> bool \<times> 'k" where
  "queryA N win junk hostname ik = queryFamily N win junk AF_INET hostname ik"

definition queryAAAA :: "'k net \<Rightarrow> bool \<Rightarrow> string \<Rightarrow> string \<Rightarrow> bool \<times> 'k \<Rightarrow> string list cpp \<times> bool \<times> 'k" where
  "queryAAAA N win junk hostname ik =
     (if win then queryFamily N win junk AF_INET hostname ik else queryFamily N win junk AF_INET6 hostname ik)"

section \<open>The local address\<close>

text \<open>What is done before every return once the library was started and, if there is one, the socket opened.\<close>

definition local_ip_end :: "'k net \<Rightarrow> bool \<Rightarrow> int option \<Rightarrow> 'k \<Rightarrow> 'k" where
  "local_ip_end N win sock k =
     (let k = (case sock of Some s \<Rightarrow> close_fd N s k | None \<Rightarrow> k) in if win then wsa_cleanup N k else k)"

definition get_local_ip :: "'k net \<Rightarrow> bool \<Rightarrow> 'k \<Rightarrow> string \<times> 'k" where
  "get_local_ip N win k = (case (if win then wsa_startup N k else (0, k)) of (r, k) \<Rightarrow>
     if r \<noteq> 0 then ([], k)
     else (case dgram_socket N k of (sock, k) \<Rightarrow>
       if sock < 0 then ([], local_ip_end N win None k)
       else (case dgram_connect N sock ''8.8.8.8'' (network_port 53) k of (res, k) \<Rightarrow>
         if res < 0 then ([], local_ip_end N win (Some sock) k)
         else (case getsockname N sock k of (r, addr, k) \<Rightarrow>
           if r \<noteq> 0 then ([], local_ip_end N win (Some sock) k)
           else (case inet_ntop N AF_INET addr of Some t \<Rightarrow> t | None \<Rightarrow> [], local_ip_end N win (Some sock) k)))))"

section \<open>A non-blocking socket\<close>

definition SetNonBlocking :: "'k net \<Rightarrow> bool \<Rightarrow> 32 word \<Rightarrow> int \<Rightarrow> 'k \<Rightarrow> bool \<times> 'k" where
  "SetNonBlocking N win O_NONBLOCK sock k =
     (if win then (case ioctl_fionbio N sock 1 k of (r, k) \<Rightarrow> (r = 0, k))
      else (case fcntl_getfl N sock k of (flags, k) \<Rightarrow>
        if flags = - 1 then (False, k)
        else (case fcntl_setfl N sock (flags OR O_NONBLOCK) k of (r, k) \<Rightarrow> (r \<noteq> - 1, k))))"

text \<open>On Windows a query for the addresses of the sixth version asks for those of the fourth.\<close>

lemma queryAAAA_windows: "queryAAAA N True junk hostname ik = queryA N True junk hostname ik"
  by (simp add: queryAAAA_def queryA_def)

text \<open>A socket that was made non-blocking keeps its other flags.\<close>

lemma SetNonBlocking_flags:
  assumes "\<And>k. fcntl_getfl N sock k = (flags k, k)"
    and "\<And>w k r k'. fcntl_setfl N sock w k = (r, k') \<Longrightarrow> r \<noteq> - 1 \<Longrightarrow> flags k' = w"
    and "SetNonBlocking N False O_NONBLOCK sock k = (True, k')"
  shows "flags k' AND O_NONBLOCK = O_NONBLOCK \<and> flags k' AND NOT O_NONBLOCK = flags k AND NOT O_NONBLOCK"
proof -
  obtain r k2 where 2: "fcntl_setfl N sock (flags k OR O_NONBLOCK) k = (r, k2)" by fastforce
  then have "r \<noteq> - 1" "k2 = k'" using assms(3)
    by (auto simp: SetNonBlocking_def assms(1) split: if_splits)
  then have "flags k' = flags k OR O_NONBLOCK" using assms(2) 2 by blast
  then show ?thesis by (auto simp: bit_eq_iff bit_simps)
qed

section \<open>What is started, opened and allocated is given back\<close>

text \<open>
  What the program owes the system: the startups of the Windows library without a cleanup yet, the open
  descriptors and the address lists that were not freed.  The system promises that a new descriptor or list was
  not there before, that a failed query leaves no list and that the other calls change nothing.
\<close>

record account =
  acc_ups :: int
  acc_fds :: "int set"
  acc_lists :: "nat set"

definition net_accounts :: "'k net \<Rightarrow> ('k \<Rightarrow> account) \<Rightarrow> bool" where
  "net_accounts N acc \<longleftrightarrow>
     (\<forall>k. case wsa_startup N k of (r, k') \<Rightarrow> acc k' = (if r = 0 then (acc k)\<lparr>acc_ups := acc_ups (acc k) + 1\<rparr> else acc k)) \<and>
     (\<forall>k. acc (wsa_cleanup N k) = (acc k)\<lparr>acc_ups := acc_ups (acc k) - 1\<rparr>) \<and>
     (\<forall>k. acc (ssl_library_init N k) = acc k) \<and> (\<forall>k. acc (ssl_load_error_strings N k) = acc k) \<and>
     (\<forall>k. acc (openssl_add_all_algorithms N k) = acc k) \<and>
     (\<forall>h f k. case getaddrinfo N h f k of (ret, r, k') \<Rightarrow> (case r of
        None \<Rightarrow> acc k' = acc k
      | Some (a, _) \<Rightarrow> ret = 0 \<and> a \<notin> acc_lists (acc k) \<and> acc k' = (acc k)\<lparr>acc_lists := insert a (acc_lists (acc k))\<rparr>)) \<and>
     (\<forall>a k. acc (freeaddrinfo N a k) = (acc k)\<lparr>acc_lists := acc_lists (acc k) - {a}\<rparr>) \<and>
     (\<forall>k. case dgram_socket N k of (s, k') \<Rightarrow>
        if s < 0 then acc k' = acc k
        else s \<notin> acc_fds (acc k) \<and> acc k' = (acc k)\<lparr>acc_fds := insert s (acc_fds (acc k))\<rparr>) \<and>
     (\<forall>s a p k. acc (snd (dgram_connect N s a p k)) = acc k) \<and>
     (\<forall>s k. acc (snd (snd (getsockname N s k))) = acc k) \<and>
     (\<forall>s k. acc (close_fd N s k) = (acc k)\<lparr>acc_fds := acc_fds (acc k) - {s}\<rparr>)"

text \<open>The account when the library is started or not.\<close>

definition balanced :: "bool \<Rightarrow> account \<Rightarrow> bool \<Rightarrow> account \<Rightarrow> bool" where
  "balanced win a i b \<longleftrightarrow> b = a\<lparr>acc_ups := acc_ups a + (if win \<and> i then 1 else 0)\<rparr>"

inductive net_run :: "'k net \<Rightarrow> bool \<Rightarrow> string \<Rightarrow> 'k \<Rightarrow> bool \<Rightarrow> 'k \<Rightarrow> bool"
  for N :: "'k net" and win :: bool and junk :: string and k0 :: 'k
where
  net_start: "net_run N win junk k0 (initialized_at_start win) k0"
| net_initialize: "net_run N win junk k0 i k \<Longrightarrow> initialize N win (i, k) = (r, i', k') \<Longrightarrow> net_run N win junk k0 i' k'"
| net_cleanup: "net_run N win junk k0 i k \<Longrightarrow> cleanup_sockets N win (i, k) = (i', k') \<Longrightarrow> net_run N win junk k0 i' k'"
| net_queryA: "net_run N win junk k0 i k \<Longrightarrow> queryA N win junk h (i, k) = (r, i', k') \<Longrightarrow> net_run N win junk k0 i' k'"
| net_queryAAAA: "net_run N win junk k0 i k \<Longrightarrow> queryAAAA N win junk h (i, k) = (r, i', k') \<Longrightarrow> net_run N win junk k0 i' k'"
| net_local_ip: "net_run N win junk k0 i k \<Longrightarrow> get_local_ip N win k = (t, k') \<Longrightarrow> net_run N win junk k0 i k'"

lemma account_startup:
  assumes "net_accounts N acc" and "wsa_startup N k = (r, k')"
  shows "acc k' = (if r = 0 then (acc k)\<lparr>acc_ups := acc_ups (acc k) + 1\<rparr> else acc k)"
proof -
  have "case wsa_startup N k of (r, k') \<Rightarrow> acc k' = (if r = 0 then (acc k)\<lparr>acc_ups := acc_ups (acc k) + 1\<rparr> else acc k)"
    using assms(1) unfolding net_accounts_def by (elim conjE) (rule spec)
  then show ?thesis by (simp only: assms(2) prod.case)
qed

lemma account_getaddrinfo:
  assumes "net_accounts N acc" and "getaddrinfo N h f k = (ret, r, k')"
  shows "case r of
        None \<Rightarrow> acc k' = acc k
      | Some (a, _) \<Rightarrow> ret = 0 \<and> a \<notin> acc_lists (acc k) \<and> acc k' = (acc k)\<lparr>acc_lists := insert a (acc_lists (acc k))\<rparr>"
proof -
  have "case getaddrinfo N h f k of (ret, r, k') \<Rightarrow> (case r of
        None \<Rightarrow> acc k' = acc k
      | Some (a, _) \<Rightarrow> ret = 0 \<and> a \<notin> acc_lists (acc k) \<and> acc k' = (acc k)\<lparr>acc_lists := insert a (acc_lists (acc k))\<rparr>)"
    using assms(1) unfolding net_accounts_def by (elim conjE) simp
  then show ?thesis by (simp only: assms(2) prod.case)
qed

lemma account_socket:
  assumes "net_accounts N acc" and "dgram_socket N k = (s, k')"
  shows "if s < 0 then acc k' = acc k
    else s \<notin> acc_fds (acc k) \<and> acc k' = (acc k)\<lparr>acc_fds := insert s (acc_fds (acc k))\<rparr>"
proof -
  have "case dgram_socket N k of (s, k') \<Rightarrow> if s < 0 then acc k' = acc k
    else s \<notin> acc_fds (acc k) \<and> acc k' = (acc k)\<lparr>acc_fds := insert s (acc_fds (acc k))\<rparr>"
    using assms(1) unfolding net_accounts_def by (elim conjE) (rule spec)
  then show ?thesis by (simp only: assms(2) prod.case)
qed

lemma account_calls:
  assumes "net_accounts N acc"
  shows "acc (wsa_cleanup N k) = (acc k)\<lparr>acc_ups := acc_ups (acc k) - 1\<rparr>" "acc (ssl_library_init N k) = acc k"
    "acc (ssl_load_error_strings N k) = acc k" "acc (openssl_add_all_algorithms N k) = acc k"
    "acc (freeaddrinfo N a k) = (acc k)\<lparr>acc_lists := acc_lists (acc k) - {a}\<rparr>"
    "acc (close_fd N s k) = (acc k)\<lparr>acc_fds := acc_fds (acc k) - {s}\<rparr>"
    "dgram_connect N s t p k = (q, k') \<Longrightarrow> acc k' = acc k" "getsockname N s k = (q, ad, k') \<Longrightarrow> acc k' = acc k"
  using assms unfolding net_accounts_def by (simp_all, metis snd_conv, metis snd_conv)

lemma initialize_balanced:
  assumes "net_accounts N acc" and "balanced win a i (acc k)" and "initialize N win (i, k) = (r, i', k')"
  shows "balanced win a i' (acc k')"
proof (cases "win \<and> \<not> i")
  case True
  obtain q k1 where 1: "wsa_startup N k = (q, k1)" by fastforce
  show ?thesis using account_startup [OF assms(1) 1] assms(2,3) True
    by (auto simp: initialize_def 1 balanced_def account_calls [OF assms(1)] split: if_splits)
qed (use assms in \<open>auto simp: initialize_def balanced_def account_calls split: if_splits\<close>)

lemma queryFamily_balanced:
  assumes "net_accounts N acc" and "balanced win a i (acc k)" and "queryFamily N win junk f h (i, k) = (r, i', k')"
  shows "balanced win a i' (acc k')"
proof -
  obtain q j k1 where 1: "initialize N win (i, k) = (q, j, k1)" by (metis prod_cases3)
  have b: "balanced win a j (acc k1)" by (rule initialize_balanced [OF assms(1,2) 1])
  obtain ret l k2 where 2: "getaddrinfo N (takeWhile (\<lambda>c. c \<noteq> CHR 0x00) h) f k1 = (ret, l, k2)" by (metis prod_cases3)
  note g = account_getaddrinfo [OF assms(1) 2]
  have "i' = j \<and> acc k' = acc k1"
    using assms(3) g by (auto simp: queryFamily_def 1 2 account_calls [OF assms(1)] split: sum.splits option.splits if_splits)
  then show ?thesis using b by simp
qed

lemma get_local_ip_account:
  assumes "net_accounts N acc"
  shows "acc (snd (get_local_ip N win k)) = acc k"
proof -
  obtain r k1 where 1: "(if win then wsa_startup N k else (0, k)) = (r, k1)" by fastforce
  have a1: "acc k1 = (if win \<and> r = 0 then (acc k)\<lparr>acc_ups := acc_ups (acc k) + 1\<rparr> else acc k)"
    using account_startup [OF assms, of k r k1] 1 by (cases win) auto
  obtain sock k2 where 2: "dgram_socket N k1 = (sock, k2)" by fastforce
  note a2 = account_socket [OF assms 2]
  obtain res k3 where 3: "dgram_connect N sock ''8.8.8.8'' (network_port 53) k2 = (res, k3)" by fastforce
  obtain q ad k4 where 4: "getsockname N sock k3 = (q, ad, k4)" by (metis prod_cases3)
  have a4: "acc k3 = acc k2" "acc k4 = acc k2" using account_calls(7) [OF assms 3] account_calls(8) [OF assms 4] by simp_all
  show ?thesis
    using 1 a1 a2 a4
    by (simp add: get_local_ip_def 2 3 4 local_ip_end_def Let_def account_calls [OF assms] split: if_splits)
qed

text \<open>C26: whatever sequence of starts, stops, queries and requests for the local address a program makes, and
  whichever of the system's calls fail, no descriptor stays open, every address list is freed, and the socket
  library of Windows has been started exactly once more than stopped while \<open>initialized\<close> is set, otherwise as
  often.\<close>

theorem net_run_balanced:
  assumes "net_accounts N acc" and "net_run N win junk k0 i k"
  shows "acc k = (acc k0)\<lparr>acc_ups := acc_ups (acc k0) + (if win \<and> i then 1 else 0)\<rparr>"
proof -
  have "balanced win (acc k0) i (acc k)" using assms(2)
  proof induction
    case net_start
    then show ?case by (simp add: balanced_def initialized_at_start_def)
  next
    case (net_initialize i k r i' k')
    show ?case by (rule initialize_balanced [OF assms(1) net_initialize.IH net_initialize.hyps(2)])
  next
    case (net_cleanup i k i' k')
    then show ?case
      by (auto simp: cleanup_sockets_def balanced_def account_calls [OF assms(1)] split: if_splits)
  next
    case (net_queryA i k h r i' k')
    show ?case
      by (rule queryFamily_balanced [OF assms(1) net_queryA.IH net_queryA.hyps(2) [unfolded queryA_def]])
  next
    case (net_queryAAAA i k h r i' k')
    then have "queryFamily N win junk (if win then AF_INET else AF_INET6) h (i, k) = (r, i', k')"
      by (simp add: queryAAAA_def split: if_splits)
    then show ?case by (rule queryFamily_balanced [OF assms(1) net_queryAAAA.IH])
  next
    case (net_local_ip i k t k')
    then show ?case using get_local_ip_account [OF assms(1), of win k] by simp
  qed
  then show ?thesis by (simp add: balanced_def)
qed

text \<open>A network whose state is its account; every name has the address 127.0.0.1.\<close>

definition dotted :: "byte list \<Rightarrow> string" where
  "dotted a = to_string (unat (a ! 0)) @ ''.'' @ to_string (unat (a ! 1)) @ ''.'' @
     to_string (unat (a ! 2)) @ ''.'' @ to_string (unat (a ! 3))"

type_synonym demo_account = "int \<times> int list \<times> nat list"

definition demo_net :: "demo_account net" where
  "demo_net = \<lparr>wsa_startup = \<lambda>(u, f, l). (0, u + 1, f, l), wsa_cleanup = \<lambda>(u, f, l). (u - 1, f, l),
     ssl_library_init = \<lambda>k. k, ssl_load_error_strings = \<lambda>k. k, openssl_add_all_algorithms = \<lambda>k. k,
     getaddrinfo = \<lambda>h fam (u, f, l). (0, Some (Suc (sum_list l), [[127, 0, 0, 1]]), u, f, Suc (sum_list l) # l),
     freeaddrinfo = \<lambda>a (u, f, l). (u, f, removeAll a l),
     inet_ntop = \<lambda>fam a. Some (dotted a),
     dgram_socket = \<lambda>(u, f, l). (1 + sum_list (map abs f), u, (1 + sum_list (map abs f)) # f, l),
     dgram_connect = \<lambda>s a p k. (0, k), getsockname = \<lambda>s k. (0, [127, 0, 0, 1], k),
     close_fd = \<lambda>s (u, f, l). (u, removeAll s f, l), fcntl_getfl = \<lambda>s k. (0, k), fcntl_setfl = \<lambda>s w k. (0, k),
     ioctl_fionbio = \<lambda>s n k. (0, k)\<rparr>"

definition demo_acc :: "demo_account \<Rightarrow> account" where
  "demo_acc k = (case k of (u, f, l) \<Rightarrow> \<lparr>acc_ups = u, acc_fds = set f, acc_lists = set l\<rparr>)"

lemma demo_fd_new: "0 \<le> sum_list (map abs f) \<and> 1 + sum_list (map abs f) \<notin> set (f :: int list)"
proof -
  have "0 \<le> sum_list (map abs f) \<and> (\<forall>x \<in> set f. x \<le> sum_list (map abs f))" by (induction f) force+
  then show ?thesis by force
qed

lemma demo_list_new: "Suc (sum_list l) \<notin> set l"
  using member_le_sum_list [of _ l] by fastforce

lemma demo_net_accounts: "net_accounts demo_net demo_acc"
proof -
  have "\<not> 1 + sum_list (map abs f) < 0" for f :: "int list" using demo_fd_new [of f] by linarith
  then show ?thesis unfolding net_accounts_def demo_net_def demo_acc_def
    using demo_fd_new demo_list_new by simp
qed

lemma demo_dotted: "dotted [127, 0, 0, 1] = ''127.0.0.1''"
  by code_simp

theorem net_run_balanced_witness:
  "net_accounts demo_net demo_acc \<and>
   demo_acc (1, [], []) = (demo_acc (0, [], []))\<lparr>acc_ups := acc_ups (demo_acc (0, [], [])) + 1\<rparr>"
proof
  have 0: "net_run demo_net True [] (0, [], []) False (0, [], [])"
    using net_start [of demo_net True "[]" "(0, [], [])"] by (simp add: initialized_at_start_def)
  have 1: "net_run demo_net True [] (0, [], []) True (1, [], [])"
    by (rule net_queryA [OF 0, where h = "''a''" and r = "Inr [''127.0.0.1'']"])
      (simp add: queryA_def queryFamily_def initialize_def demo_net_def demo_dotted)
  have "net_run demo_net True [] (0, [], []) True (1, [], [])"
    by (rule net_local_ip [OF 1, where t = "''127.0.0.1''"])
      (simp add: get_local_ip_def local_ip_end_def demo_net_def demo_dotted)
  from net_run_balanced [OF demo_net_accounts this]
  show "demo_acc (1, [], []) = (demo_acc (0, [], []))\<lparr>acc_ups := acc_ups (demo_acc (0, [], [])) + 1\<rparr>"
    by simp
qed (rule demo_net_accounts)

section \<open>Resolved names\<close>

text \<open>
  What the documentation promises of \<open>inet_ntop\<close> and \<open>getaddrinfo\<close>: four bytes are printed in the dotted form, and
  a query of the family \<open>AF_INET\<close> gives addresses of four bytes.
\<close>

definition prints_dotted :: "'k net \<Rightarrow> bool" where
  "prints_dotted N \<longleftrightarrow> (\<forall>a. length a = 4 \<longrightarrow> inet_ntop N AF_INET a = Some (dotted a)) \<and>
     (\<forall>h k ret r as k'. getaddrinfo N h AF_INET k = (ret, Some (r, as), k') \<longrightarrow> (\<forall>a \<in> set as. length a = 4))"

text \<open>The answers of a query, as \<open>resolve_host_or_ip_to_ip\<close> gets them on a POSIX system.\<close>

definition answers :: "'k net \<Rightarrow> string \<Rightarrow> bool \<times> 'k \<Rightarrow> string \<Rightarrow> string list" where
  "answers N junk ik host = (case queryA N False junk host ik of (Inr ips, _) \<Rightarrow> ips | (Inl e, _) \<Rightarrow> [])"

lemma name_loop_dotted:
  assumes "\<forall>a \<in> set as. inet_ntop N fam a = Some (dotted a)"
  shows "name_loop N fam junk as = map dotted as"
  using assms by (induction as arbitrary: junk) simp_all

lemma dotted_is_ipv4: "string_is_ipv4 (dotted a) = Inr True"
proof -
  have "octet (to_string (unat (a ! i)))" for i :: nat
    using unsigned_less [of "a ! i", where ?'a = nat] by (intro octet_to_string) simp
  then show ?thesis unfolding string_is_ipv4_correct dotted_def by blast
qed

lemma answers_dotted:
  assumes "prints_dotted N"
  shows "\<exists>as. answers N junk ik host = map dotted as"
proof -
  obtain i k where ik: "ik = (i, k)" by fastforce
  obtain j k1 where 1: "initialize N False (i, k) = (Inr (), j, k1)" by (cases i) (simp_all add: initialize_def)
  obtain ret l k2 where 2: "getaddrinfo N (takeWhile (\<lambda>c. c \<noteq> CHR 0x00) host) AF_INET k1 = (ret, l, k2)"
    by (metis prod_cases3)
  show ?thesis
  proof (cases "ret = 0 \<and> l \<noteq> None")
    case True
    then obtain r as where l: "l = Some (r, as)" by fastforce
    have "\<forall>a \<in> set as. length a = 4" using assms 2 unfolding prints_dotted_def l by blast
    then have "\<forall>a \<in> set as. inet_ntop N AF_INET a = Some (dotted a)" using assms unfolding prints_dotted_def by blast
    then have "answers N junk ik host = map dotted as"
      using True by (simp add: answers_def queryA_def queryFamily_def ik 1 2 l name_loop_dotted)
    then show ?thesis by blast
  next
    case False
    then have "answers N junk ik host = []" 
      by (cases l) (auto simp: answers_def queryA_def queryFamily_def ik 1 2)
    then show ?thesis by (metis list.map_disc_iff)
  qed
qed

text \<open>C25: resolving a host, with the answers the system's name query gives, results in a dotted address, in the
  strict form \<open>string_is_ipv4\<close> accepts, or throws: what is then handed to \<open>inet_pton\<close> and \<open>inet_addr\<close> is always an
  address.\<close>

theorem resolve_gives_ipv4:
  assumes "prints_dotted N" and "resolve_host_or_ip_to_ip (answers N junk ik) host = Inr ip"
  shows "string_is_ipv4 ip = Inr True"
proof -
  obtain as where as: "answers N junk ik host = map dotted as" using answers_dotted [OF assms(1)] by blast
  obtain x where x: "string_is_ipv4 host = Inr x" using string_is_ipv4_parts by blast
  show ?thesis
    using assms(2) x by (cases x; cases as) (auto simp: resolve_host_or_ip_to_ip_def as dotted_is_ipv4)
qed

theorem resolve_gives_ipv4_witness:
  "resolve_host_or_ip_to_ip (answers demo_net [] (True, (0, [], []))) ''localhost'' = Inr ''127.0.0.1'' \<and>
   string_is_ipv4 ''127.0.0.1'' = Inr True"
proof -
  have p: "prints_dotted demo_net" by (auto simp: prints_dotted_def demo_net_def)
  have a: "answers demo_net [] (True, (0, [], [])) ''localhost'' = [''127.0.0.1'']"
    by (simp add: answers_def queryA_def queryFamily_def initialize_def demo_net_def demo_dotted)
  have r: "resolve_host_or_ip_to_ip (answers demo_net [] (True, (0, [], []))) ''localhost'' = Inr ''127.0.0.1''"
    by (simp add: resolve_host_or_ip_to_ip_def a string_is_ipv4_def is_digit_def)
  show ?thesis using r resolve_gives_ipv4 [OF p r] by (rule conjI)
qed

end
