(* ===== verification/Udp.thy ===== *)
theory Udp
  imports Ipv4 Tcp
begin

text \<open>
  \<open>udp_streambuf\<close>, \<open>udp_client\<close> and \<open>udp_server\<close>: streams over datagrams.  The system is an argument.
\<close>

section \<open>The system\<close>

text \<open>An address is that of \<open>sockaddr_in\<close>: the host and the port.  \<open>recvfrom\<close> also gives the sender.\<close>

type_synonym sockaddr = "nat \<times> nat"

record 'k udp_system =
  udp_socket :: "'k \<Rightarrow> int \<times> 'k"
  udp_bind :: "int \<Rightarrow> nat \<Rightarrow> 'k \<Rightarrow> int \<times> 'k"
  udp_pton :: "string \<Rightarrow> nat option"
  udp_timeout :: "int \<Rightarrow> nat \<Rightarrow> 'k \<Rightarrow> 'k"
  udp_recvfrom :: "int \<Rightarrow> nat \<Rightarrow> 'k \<Rightarrow> received \<times> sockaddr \<times> 'k"
  udp_sendto :: "int \<Rightarrow> byte list \<Rightarrow> sockaddr \<Rightarrow> 'k \<Rightarrow> int \<times> 'k"
  udp_closefd :: "int \<Rightarrow> 'k \<Rightarrow> 'k"

section \<open>The stream buffer\<close>

text \<open>
  The get area is part of \<open>gbuffer\<close>, from its beginning.  No put area is ever set, so \<open>overflow\<close> finds
  none: what it would send of one does not arise.
\<close>

record udp_streambuf =
  ufd :: int
  uaddr :: sockaddr
  gbuffer :: "byte list"
  ugptr :: nat
  uegptr :: nat

definition udp_streambuf_ctor :: "int \<times> sockaddr \<Rightarrow> udp_streambuf" where
  "udp_streambuf_ctor p = \<lparr>ufd = fst p, uaddr = snd p, gbuffer = replicate 4096 0, ugptr = 0, uegptr = 0\<rparr>"

text \<open>\<open>resize\<close> of a vector throws above \<open>max_size\<close>.\<close>

definition vector_max :: nat where "vector_max = 2 ^ 63 - 1"

definition add_received_data :: "byte list \<Rightarrow> nat \<Rightarrow> udp_streambuf \<Rightarrow> udp_streambuf cpp" where
  "add_received_data data count u =
     bindE (if length (gbuffer u) < count then
              (if vector_max < count then Inl (Runtime_error ''vector::_M_default_append'')
               else Inr (u\<lparr>gbuffer := gbuffer u @ replicate (count - length (gbuffer u)) 0\<rparr>))
            else Inr u) (\<lambda>u.
     if length data < count then Inl Out_of_bounds
     else Inr (u\<lparr>gbuffer := blit 0 (take count data) (gbuffer u), ugptr := 0, uegptr := count\<rparr>))"

definition udp_underflow :: "'k udp_system \<Rightarrow> udp_streambuf \<times> 'k \<Rightarrow> (byte option \<times> udp_streambuf \<times> 'k) cpp" where
  "udp_underflow N uk = (case uk of (u, k) \<Rightarrow>
     if ugptr u < uegptr u then Inr (Some (gbuffer u ! ugptr u), u, k)
     else (case udp_recvfrom N (ufd u) (length (gbuffer u)) k of (answer, sender, k) \<Rightarrow>
       (case answer of
          Received bs \<Rightarrow>
            if bs = [] then Inr (None, u\<lparr>uaddr := sender\<rparr>, k)
            else if length (gbuffer u) < length bs then Inl Out_of_bounds
            else Inr (Some (hd bs), u\<lparr>uaddr := sender, gbuffer := blit 0 bs (gbuffer u), ugptr := 0,
              uegptr := length bs\<rparr>, k)
        | _ \<Rightarrow> Inr (None, u, k))))"

definition udp_uflow :: "'k udp_system \<Rightarrow> udp_streambuf \<times> 'k \<Rightarrow> (byte option \<times> udp_streambuf \<times> 'k) cpp" where
  "udp_uflow N uk = bindE (udp_underflow N uk) (\<lambda>(c, u, k).
     Inr (c, if c = None then u else u\<lparr>ugptr := Suc (ugptr u)\<rparr>, k))"

definition udp_area :: "nat \<Rightarrow> udp_streambuf \<times> 'k \<Rightarrow> (byte list \<times> udp_streambuf \<times> 'k) cpp" where
  "udp_area n uk = (case uk of (u, k) \<Rightarrow>
     (let m = min n (uegptr u - ugptr u)
      in if length (gbuffer u) < ugptr u + m then Inl Out_of_bounds
         else Inr (slice (ugptr u) m (gbuffer u), u\<lparr>ugptr := ugptr u + m\<rparr>, k)))"

text \<open>Every round of the block read takes a byte, so one more round than bytes is enough.\<close>

definition udp_xsgetn ::
  "'k udp_system \<Rightarrow> nat \<Rightarrow> udp_streambuf \<times> 'k \<Rightarrow> (byte list \<times> udp_streambuf \<times> 'k) cpp" where
  "udp_xsgetn N n uk = default_xsgetn udp_area (udp_uflow N) (Suc n) n uk"

text \<open>Without a put area each byte is a datagram of its own.\<close>

definition udp_overflow ::
  "'k udp_system \<Rightarrow> byte option \<Rightarrow> udp_streambuf \<times> 'k \<Rightarrow> bool \<times> udp_streambuf \<times> 'k" where
  "udp_overflow N c uk = (case uk of (u, k) \<Rightarrow>
     (case c of
        None \<Rightarrow> (True, u, k)
      | Some c \<Rightarrow> (case udp_sendto N (ufd u) [c] (uaddr u) k of (sent, k) \<Rightarrow>
          (sent \<noteq> -1, u, k))))"

fun udp_xsputn ::
  "'k udp_system \<Rightarrow> byte list \<Rightarrow> udp_streambuf \<times> 'k \<Rightarrow> (nat \<times> udp_streambuf \<times> 'k) cpp" where
  "udp_xsputn N [] uk = Inr (0, uk)"
| "udp_xsputn N (c # cs) uk = (case udp_overflow N (Some c) uk of (ok, uk) \<Rightarrow>
     if ok then bindE (udp_xsputn N cs uk) (\<lambda>(n, uk). Inr (Suc n, uk)) else Inr (0, uk))"

definition udp_sync :: "'k udp_system \<Rightarrow> udp_streambuf \<times> 'k \<Rightarrow> int \<times> udp_streambuf \<times> 'k" where
  "udp_sync N uk = (case udp_overflow N None uk of (ok, uk) \<Rightarrow> (if ok then 0 else -1, uk))"

definition udp_close :: "'k udp_system \<Rightarrow> udp_streambuf \<Rightarrow> 'k \<Rightarrow> 'k" where
  "udp_close N u k = (if ufd u \<ge> 0 then udp_closefd N (ufd u) k else k)"

definition udp_destroy :: "'k udp_system \<Rightarrow> udp_streambuf \<times> 'k \<Rightarrow> 'k" where
  "udp_destroy N uk = (case udp_sync N uk of (_, u, k) \<Rightarrow> udp_close N u k)"

definition udp_vtable :: "'k udp_system \<Rightarrow> (udp_streambuf \<times> 'k) vtable" where
  "udp_vtable N = \<lparr>sgetn = udp_xsgetn N, sputn = udp_xsputn N,
     in_avail = (\<lambda>(u, k). int (uegptr u - ugptr u)),
     sseekoff = (\<lambda>off way which b. Inr (-1, b)), sseekpos = (\<lambda>p which b. Inr (-1, b))\<rparr>"

section \<open>The client\<close>

definition udp_client :: "'k udp_system \<Rightarrow> string \<Rightarrow> int \<Rightarrow> 'k \<Rightarrow> udp_streambuf cpp \<times> 'k" where
  "udp_client N host port k = (case udp_socket N k of (sock, k) \<Rightarrow>
     (case udp_pton N host of
        None \<Rightarrow> (Inl (Runtime_error ''Invalid address/Address not supported!''), k)
      | Some a \<Rightarrow> (Inr (udp_streambuf_ctor (sock, a, nat (port mod 2 ^ 16))), k)))"

section \<open>Standard streams over a UDP socket\<close>

text \<open>\<open>udp_istream\<close>, \<open>udp_ostream\<close> and \<open>udp_iostream\<close>: a standard stream and the buffer it points to.\<close>

definition udp_istream_ctor :: "int \<times> sockaddr \<Rightarrow> udp_streambuf stream" where
  [simp]: "udp_istream_ctor fd_addr_pair = mk_stream (udp_streambuf_ctor fd_addr_pair)"

definition udp_ostream_ctor :: "int \<times> sockaddr \<Rightarrow> udp_streambuf stream" where
  [simp]: "udp_ostream_ctor fd_addr_pair = mk_stream (udp_streambuf_ctor fd_addr_pair)"

definition udp_iostream_ctor :: "int \<times> sockaddr \<Rightarrow> udp_streambuf stream" where
  [simp]: "udp_iostream_ctor fd_addr_pair = mk_stream (udp_streambuf_ctor fd_addr_pair)"

section \<open>The server\<close>

text \<open>
  The streams of the senders are shared objects: the server's map and whoever \<open>receiveOne\<close> gave one to
  point to them.  They live in a heap of streams; a new one goes to an address not in use.
\<close>

type_synonym udp_heap = "nat \<Rightarrow> udp_streambuf stream option"

record udp_server =
  us_port :: int
  us_bitStream :: bool
  us_fd :: int
  us_timeout :: nat
  clientStreams :: "sockaddr \<Rightarrow> nat option"

definition udp_server_ctor :: "'k udp_system \<Rightarrow> int \<Rightarrow> bool \<Rightarrow> 'k \<Rightarrow> udp_server cpp \<times> 'k" where
  "udp_server_ctor N port bits k = (case udp_socket N k of (sock, k) \<Rightarrow>
     if sock = -1 then (Inl (Runtime_error ''Socket creation failed''), k)
     else (case udp_bind N sock (nat (port mod 2 ^ 16)) k of (r, k) \<Rightarrow>
       if r = -1 then (Inl (Runtime_error ''udp_server Bind failed''), udp_closefd N sock k)
       else (Inr \<lparr>us_port = port, us_bitStream = bits, us_fd = sock, us_timeout = 0,
         clientStreams = Map.empty\<rparr>, k)))"

text \<open>
  \<open>receiveOne\<close>: \<open>junk\<close> is the address nobody wrote when \<open>recvfrom\<close> fails, and \<open>new\<close> the address of a
  new stream.  A failed call's result is converted to \<open>size_t\<close>.
\<close>

definition apply_timeout :: "'k udp_system \<Rightarrow> bool \<Rightarrow> nat \<Rightarrow> udp_server \<Rightarrow> 'k \<Rightarrow> udp_server \<times> 'k" where
  "apply_timeout N nonBlock timeout sv k =
     (if nonBlock \<and> timeout \<noteq> us_timeout sv
      then (sv\<lparr>us_timeout := timeout\<rparr>, udp_timeout N (us_fd sv) timeout k) else (sv, k))"

definition receiveOne ::
  "'k udp_system \<Rightarrow> sockaddr \<Rightarrow> nat \<Rightarrow> bool \<Rightarrow> nat \<Rightarrow> udp_server \<Rightarrow> udp_heap \<Rightarrow> 'k \<Rightarrow>
   nat cpp \<times> udp_server \<times> udp_heap \<times> 'k" where
  "receiveOne N junk new nonBlock timeout sv h k =
     (case apply_timeout N nonBlock timeout sv k of (sv, k) \<Rightarrow>
      (case udp_recvfrom N (us_fd sv) 4096 k of (answer, sender, k) \<Rightarrow>
        (case (case answer of Received bs \<Rightarrow> (bs @ replicate (4096 - length bs) 0, length bs, sender)
             | _ \<Rightarrow> (replicate 4096 0, wrap64 (-1), junk)) of (buffer, recv_len, key) \<Rightarrow>
          (case (case clientStreams sv key of
               Some a \<Rightarrow> (a, sv, h)
             | None \<Rightarrow> (new, sv\<lparr>clientStreams := (clientStreams sv)(key \<mapsto> new)\<rparr>,
                 h(new \<mapsto> udp_iostream_ctor (us_fd sv, key)))) of (a, sv, h) \<Rightarrow>
            (case h a of
               None \<Rightarrow> (Inl Dangling, sv, h, k)
             | Some st \<Rightarrow> (case add_received_data buffer recv_len (rdbuf st) of
                 Inl e \<Rightarrow> (Inl e, sv, h, k)
               | Inr u \<Rightarrow> (Inr a, sv, h(a \<mapsto> st\<lparr>rdbuf := u\<rparr>), k)))))))"

section \<open>One datagram\<close>

definition udp_server_wf :: "udp_server \<Rightarrow> udp_heap \<Rightarrow> bool" where
  "udp_server_wf sv h \<longleftrightarrow> inj_on (clientStreams sv) (dom (clientStreams sv)) \<and>
     (\<forall>key a. clientStreams sv key = Some a \<longrightarrow> (\<exists>st. h a = Some st \<and> 4096 \<le> length (gbuffer (rdbuf st))))"

lemma add_received_data_ok:
  assumes "4096 \<le> length (gbuffer u)" and "n \<le> 4096" and "n \<le> length buf"
  shows "add_received_data buf n u =
    Inr (u\<lparr>gbuffer := blit 0 (take n buf) (gbuffer u), ugptr := 0, uegptr := n\<rparr>)"
  using assms by (simp add: add_received_data_def)

lemma udp_read_area:
  assumes "ugptr u = 0" and "uegptr u = length bs" and "take (length bs) (gbuffer u) = bs"
  shows "udp_xsgetn N (length bs) (u, k) = Inr (bs, u\<lparr>ugptr := length bs\<rparr>, k)"
proof -
  have "length bs \<le> length (gbuffer u)" using assms(3) length_take [of "length bs" "gbuffer u"] by simp
  then show ?thesis using assms by (simp add: udp_xsgetn_def udp_area_def)
qed

lemma clientStreams_other:
  "inj_on m (dom m) \<Longrightarrow> m x = Some a \<Longrightarrow> m y = Some a \<Longrightarrow> x = y"
  by (auto simp: inj_on_def dom_def)

text \<open>C15: a datagram of at most 4096 bytes goes to the stream of its sender, made on the first one and the
  same object ever after, where reading its length gives exactly its bytes without a call to the
  system; the streams of the other senders are untouched.\<close>

theorem udp_receive_read:
  assumes "udp_server_wf sv h" and "h new = None" and "length bs \<le> 4096"
    and "udp_recvfrom N (us_fd sv) 4096 (snd (apply_timeout N nonBlock timeout sv k)) = (Received bs, sender, k')"
  shows "\<exists>a sv' h' st u'. receiveOne N junk new nonBlock timeout sv h k = (Inr a, sv', h', k') \<and>
    udp_server_wf sv' h' \<and> clientStreams sv' = (clientStreams sv)(sender \<mapsto> a) \<and>
    (clientStreams sv sender \<noteq> None \<longrightarrow> clientStreams sv sender = Some a) \<and>
    (\<forall>key b. key \<noteq> sender \<longrightarrow> clientStreams sv key = Some b \<longrightarrow> h' b = h b) \<and>
    h' a = Some st \<and> udp_xsgetn N (length bs) (rdbuf st, k') = Inr (bs, u', k')"
proof -
  let ?buf = "bs @ replicate (4096 - length bs) 0"
  let ?put = "\<lambda>u. u\<lparr>gbuffer := blit 0 bs (gbuffer u), ugptr := 0, uegptr := length bs\<rparr>"
  obtain sv1 k1 where t: "apply_timeout N nonBlock timeout sv k = (sv1, k1)" by fastforce
  then have sv1: "us_fd sv1 = us_fd sv" "clientStreams sv1 = clientStreams sv"
    by (auto simp: apply_timeout_def split: if_splits)
  have rcv: "udp_recvfrom N (us_fd sv) 4096 k1 = (Received bs, sender, k')" using assms(4) t by simp
  have inj: "inj_on (clientStreams sv) (dom (clientStreams sv))"
    and heap: "\<And>key a. clientStreams sv key = Some a \<Longrightarrow> \<exists>st. h a = Some st \<and> 4096 \<le> length (gbuffer (rdbuf st))"
    using assms(1) by (auto simp: udp_server_wf_def)
  have add: "4096 \<le> length (gbuffer u) \<Longrightarrow> add_received_data ?buf (length bs) u = Inr (?put u)" for u
    using add_received_data_ok [of u "length bs" ?buf] assms(3) by simp
  have lb: "4096 \<le> length m \<Longrightarrow> 4096 \<le> length (blit 0 bs m)" for m :: "byte list"
    using assms(3) by (simp add: length_blit)
  have rd: "udp_xsgetn N (length bs) (?put u, k') = Inr (bs, (?put u)\<lparr>ugptr := length bs\<rparr>, k')"
    if "4096 \<le> length (gbuffer u)" for u
    by (rule udp_read_area) (use that assms(3) in \<open>simp_all add: blit_def\<close>)
  show ?thesis
  proof (cases "clientStreams sv sender")
    case None
    let ?u = "udp_streambuf_ctor (us_fd sv, sender)"
    let ?st = "(mk_stream ?u)\<lparr>rdbuf := ?put ?u\<rparr>"
    let ?h = "h(new \<mapsto> ?st)" and ?sv' = "sv1\<lparr>clientStreams := (clientStreams sv)(sender \<mapsto> new)\<rparr>"
    have l: "4096 \<le> length (gbuffer ?u)" by (simp add: udp_streambuf_ctor_def)
    have "receiveOne N junk new nonBlock timeout sv h k = (Inr new, ?sv', ?h, k')"
      using None rcv add [OF l] by (simp add: receiveOne_def t sv1 mk_stream_def)
    moreover have fresh: "clientStreams sv key \<noteq> Some new" for key using heap [of key new] assms(2) by auto
    then have "udp_server_wf ?sv' ?h"
      using inj heap l unfolding udp_server_wf_def
      by (auto simp: inj_on_def dom_def lb sv1 split: if_splits)
    ultimately show ?thesis using None rd [OF l] fresh by fastforce
  next
    case (Some a)
    obtain st where u: "h a = Some st" "4096 \<le> length (gbuffer (rdbuf st))" using heap [OF Some] by blast
    have upd: "(clientStreams sv)(sender \<mapsto> a) = clientStreams sv" using Some by auto
    have "receiveOne N junk new nonBlock timeout sv h k = (Inr a, sv1, h(a \<mapsto> st\<lparr>rdbuf := ?put (rdbuf st)\<rparr>), k')"
      using Some rcv u(1) add [OF u(2)] by (simp add: receiveOne_def t sv1)
    moreover have "udp_server_wf sv1 (h(a \<mapsto> st\<lparr>rdbuf := ?put (rdbuf st)\<rparr>))"
      using inj heap u(2) unfolding udp_server_wf_def by (auto simp: lb sv1)
    moreover have "\<forall>key b. key \<noteq> sender \<longrightarrow> clientStreams sv key = Some b \<longrightarrow> (h(a \<mapsto> st\<lparr>rdbuf := ?put (rdbuf st)\<rparr>)) b = h b"
      using clientStreams_other [OF inj Some] by auto
    ultimately show ?thesis using Some rd [OF u(2)] upd sv1 by fastforce
  qed
qed

text \<open>A system with a queue of datagrams.\<close>

definition mail_system :: "(byte list \<times> sockaddr) list udp_system" where
  "mail_system = \<lparr>udp_socket = (\<lambda>k. (4, k)), udp_bind = (\<lambda>sock p k. (0, k)), udp_pton = (\<lambda>h. Some 0),
     udp_timeout = (\<lambda>sock t k. k),
     udp_recvfrom = (\<lambda>sock n k. case k of [] \<Rightarrow> (Would_block, (0, 0), [])
       | (bs, a) # k \<Rightarrow> (Received (take n bs), a, k)),
     udp_sendto = (\<lambda>sock bs a k. (int (length bs), k @ [(bs, a)])), udp_closefd = (\<lambda>sock k. k)\<rparr>"

definition demo_udp_server :: udp_server where
  "demo_udp_server = \<lparr>us_port = 9, us_bitStream = False, us_fd = 4, us_timeout = 0, clientStreams = Map.empty\<rparr>"

theorem udp_receive_read_witness:
  "\<exists>a sv' h' st u'. receiveOne mail_system (0, 0) 7 False 10 demo_udp_server Map.empty [([1, 2, 3], 5, 6)] =
      (Inr a, sv', h', []) \<and> h' a = Some st \<and> udp_xsgetn mail_system 3 (rdbuf st, []) = Inr ([1, 2, 3], u', [])"
proof -
  have "udp_server_wf demo_udp_server Map.empty"
    by (simp add: udp_server_wf_def demo_udp_server_def)
  from udp_receive_read [OF this, where new = 7 and bs = "[1, 2, 3]" and N = mail_system and nonBlock = False
      and timeout = 10 and k = "[([1, 2, 3], 5, 6)]" and sender = "(5, 6)" and k' = "[]" and junk = "(0, 0)"]
  show ?thesis by (auto simp: mail_system_def apply_timeout_def numeral_3_eq_3)
qed

text \<open>
  A receive that fails or runs out of time does not give null: the result \<open>-1\<close>, converted, is the
  size of the data, and the vector throws; a stream for an address nobody wrote stays in the map.
\<close>

lemma udp_timeout_throws:
  assumes "udp_recvfrom N (us_fd sv) 4096 k = (Would_block, sender, k')" and "clientStreams sv junk = None"
  shows "\<exists>sv' h'. receiveOne N junk new False t sv h k =
      (Inl (Runtime_error ''vector::_M_default_append''), sv', h', k') \<and> clientStreams sv' junk = Some new"
  using assms by (simp add: receiveOne_def apply_timeout_def add_received_data_def udp_streambuf_ctor_def vector_max_def wrap64_def mk_stream_def)

text \<open>What is written goes out as one datagram for each byte.\<close>

lemma udp_write_splits:
  assumes "\<And>bs k. udp_sendto N (ufd u) bs (uaddr u) k = (int (length bs), k @ [(bs, uaddr u)])"
  shows "udp_xsputn N bs (u, k) = Inr (length bs, u, k @ map (\<lambda>c. ([c], uaddr u)) bs)"
  by (induction bs arbitrary: k) (simp_all add: udp_overflow_def assms)

text \<open>A second datagram drops what was not read of the first.\<close>

lemma udp_unread_dropped:
  assumes "4096 \<le> length (gbuffer u)" and "length bs \<le> 4096"
  shows "\<exists>u'. add_received_data bs (length bs) u = Inr u' \<and>
    slice (ugptr u') (uegptr u' - ugptr u') (gbuffer u') = bs"
  using add_received_data_ok [OF assms, of bs] by (simp add: blit_def)

end
