(* ===== verification/Multicast.thy ===== *)
theory Multicast
  imports Udp
begin

text \<open>
  \<open>udpmc_receiver\<close> and \<open>udpmc_sender\<close>: the streams of a multicast group over the datagram buffer of theory
  \<open>Udp\<close>.  What \<open>diagnose\<close> prints is left out; the results of the options it looks at change nothing.
\<close>

text \<open>The calls besides those of \<open>Udp\<close>; \<open>inet_addr\<close> gives some number for a string that is no address.\<close>

datatype socket_option = Reuse_addr | Multicast_loop | Add_membership nat | Multicast_if

record 'k mc_system =
  mc_udp :: "'k udp_system"
  mc_nonblocking :: "int \<Rightarrow> 'k \<Rightarrow> bool \<times> 'k"
  mc_setsockopt :: "int \<Rightarrow> socket_option \<Rightarrow> 'k \<Rightarrow> bool \<times> 'k"
  mc_inet_addr :: "string \<Rightarrow> nat"

definition udp_port :: "int \<Rightarrow> nat" where
  "udp_port port = nat (port mod 2 ^ 16)"

section \<open>The receiver\<close>

definition receiver_bind ::
  "'k mc_system \<Rightarrow> (string \<Rightarrow> string list) \<Rightarrow> string \<Rightarrow> int \<Rightarrow> 'k \<Rightarrow> (int \<times> sockaddr) cpp \<times> 'k" where
  "receiver_bind M queryA host port k = (case udp_socket (mc_udp M) k of (sock, k) \<Rightarrow>
     (case mc_nonblocking M sock k of (ok, k) \<Rightarrow>
       if \<not> ok then (Inl (Runtime_error ''SetNonBlocking failed''), k)
       else (case mc_setsockopt M sock Reuse_addr k of (_, k) \<Rightarrow>
         (case udp_bind (mc_udp M) sock (udp_port port) k of (_, k) \<Rightarrow>
         (case mc_setsockopt M sock Multicast_loop k of (_, k) \<Rightarrow>
         (case resolve_host_or_ip_to_ip queryA host of
            Inl e \<Rightarrow> (Inl e, k)
          | Inr ip \<Rightarrow> (case mc_setsockopt M sock (Add_membership (mc_inet_addr M ip)) k of (_, k) \<Rightarrow>
              (Inr (sock, 0, udp_port port), k))))))))"

text \<open>The constructor clears the address; \<open>readSize\<close> is never used.\<close>

definition udpmc_receiver ::
  "'k mc_system \<Rightarrow> (string \<Rightarrow> string list) \<Rightarrow> string \<Rightarrow> int \<Rightarrow> 'k \<Rightarrow> udp_streambuf cpp \<times> 'k" where
  "udpmc_receiver M queryA host port k = (case receiver_bind M queryA host port k of
     (Inl e, k) \<Rightarrow> (Inl e, k)
   | (Inr p, k) \<Rightarrow> (Inr ((udp_streambuf_ctor p)\<lparr>uaddr := (0, 0)\<rparr>), k))"

section \<open>The sender\<close>

definition populate_addr_from_ip :: "'k udp_system \<Rightarrow> sockaddr \<Rightarrow> string \<Rightarrow> sockaddr cpp" where
  "populate_addr_from_ip N addr ip = (case udp_pton N ip of
     None \<Rightarrow> Inl (Runtime_error ''Invalid address/Address not supported!'')
   | Some a \<Rightarrow> Inr (a, snd addr))"

definition sender_setup ::
  "'k mc_system \<Rightarrow> (string \<Rightarrow> string list) \<Rightarrow> string \<Rightarrow> int \<Rightarrow> 'k \<Rightarrow> (int \<times> sockaddr) cpp \<times> 'k" where
  "sender_setup M queryA host port k = (case udp_socket (mc_udp M) k of (sock, k) \<Rightarrow>
     if sock = -1 then (Inl (Runtime_error ''Socket creation failed''), k)
     else (case mc_setsockopt M sock Reuse_addr k of (_, k) \<Rightarrow>
       (case bindE (resolve_host_or_ip_to_ip queryA host) (populate_addr_from_ip (mc_udp M) (0, 0)) of
          Inl e \<Rightarrow> (Inl e, k)
        | Inr (a, _) \<Rightarrow> (case mc_setsockopt M sock Multicast_if k of (_, k) \<Rightarrow>
            (Inr (sock, a, udp_port port), k)))))"

text \<open>
  \<open>setup\<close> runs as the argument of the base class and stores the descriptor in \<open>server_fd\<close>, whose own
  initialiser, \<open>0\<close>, runs after it.
\<close>

record udpmc_sender =
  mcs_buf :: udp_streambuf
  mcs_server_fd :: int

definition udpmc_sender ::
  "'k mc_system \<Rightarrow> (string \<Rightarrow> string list) \<Rightarrow> string \<Rightarrow> int \<Rightarrow> 'k \<Rightarrow> udpmc_sender cpp \<times> 'k" where
  "udpmc_sender M queryA host port k = (case sender_setup M queryA host port k of
     (Inl e, k) \<Rightarrow> (Inl e, k)
   | (Inr p, k) \<Rightarrow> (Inr \<lparr>mcs_buf = udp_streambuf_ctor p, mcs_server_fd = 0\<rparr>, k))"

definition udpmc_sender_close :: "'k mc_system \<Rightarrow> udpmc_sender \<Rightarrow> 'k \<Rightarrow> 'k" where
  "udpmc_sender_close M s k = udp_closefd (mc_udp M) (mcs_server_fd s) k"

section \<open>What the constructors leave\<close>

text \<open>A descriptor that no object owns, when the group's name cannot be resolved.\<close>

lemma receiver_failure_leaks:
  assumes "udp_socket (mc_udp M) k = (sock, k1)" and "sock \<in> fds k1"
    and "\<And>k. fds (snd (mc_nonblocking M sock k)) = fds k" and "\<And>x k. fds (snd (mc_setsockopt M sock x k)) = fds k"
    and "\<And>p k. fds (snd (udp_bind (mc_udp M) sock p k)) = fds k"
    and "resolve_host_or_ip_to_ip queryA host = Inl e"
  shows "\<exists>e' k'. udpmc_receiver M queryA host port k = (Inl e', k') \<and> sock \<in> fds k'"
proof -
  obtain ok k2 where 2: "mc_nonblocking M sock k1 = (ok, k2)" by fastforce
  obtain a k3 where 3: "mc_setsockopt M sock Reuse_addr k2 = (a, k3)" by fastforce
  obtain b k4 where 4: "udp_bind (mc_udp M) sock (udp_port port) k3 = (b, k4)" by fastforce
  obtain c k5 where 5: "mc_setsockopt M sock Multicast_loop k4 = (c, k5)" by fastforce
  have "fds k2 = fds k1" "fds k3 = fds k2" "fds k4 = fds k3" "fds k5 = fds k4"
    using assms(3) [of k1] assms(4) [of Reuse_addr k2] assms(5) [of "udp_port port" k3]
      assms(4) [of Multicast_loop k4] 2 3 4 5 by simp_all
  then show ?thesis using assms(1,2,6) 2 3 4 5 by (simp add: udpmc_receiver_def receiver_bind_def)
qed

text \<open>The sender's own \<open>close\<close>, had it been called, would close descriptor zero.\<close>

lemma sender_close_closes_zero:
  assumes "udpmc_sender M queryA host port k = (Inr s, k')"
  shows "udpmc_sender_close M s k'' = udp_closefd (mc_udp M) 0 k''"
  using assms by (auto simp: udpmc_sender_def udpmc_sender_close_def split: sum.splits prod.splits)

text \<open>A sender sends every byte as a datagram of its own to the group, through its own descriptor.\<close>

lemma sender_sends_bytes:
  assumes "udpmc_sender M queryA host port k = (Inr s, k')" and "udp_socket (mc_udp M) k = (sock, k1)"
    and "resolve_host_or_ip_to_ip queryA host = Inr ip" and "udp_pton (mc_udp M) ip = Some a"
    and "\<And>bs k. udp_sendto (mc_udp M) sock bs (a, udp_port port) k = (int (length bs), k @ [(bs, a, udp_port port)])"
  shows "udp_xsputn (mc_udp M) bs (mcs_buf s, k') =
    Inr (length bs, mcs_buf s, k' @ map (\<lambda>c. ([c], a, udp_port port)) bs)"
proof -
  have "mcs_buf s = udp_streambuf_ctor (sock, a, udp_port port)"
    using assms(1-4) by (auto simp: udpmc_sender_def sender_setup_def populate_addr_from_ip_def
        split: if_splits prod.splits)
  then have "ufd (mcs_buf s) = sock" "uaddr (mcs_buf s) = (a, udp_port port)"
    by (simp_all add: udp_streambuf_ctor_def)
  then show ?thesis using udp_write_splits [of "mc_udp M" "mcs_buf s" bs k'] assms(5) by simp
qed

end
