(* ===== verification/P2p.thy ===== *)
theory P2p
  imports Complex_Main Http Multicast Serial
begin

text \<open>
  p2p.cpp: where this host is, asked from a web service, and the announcements of a multicast group.  The maps
  of parties and lobbies and the sender are declared there and never used.
\<close>

section \<open>Decimal and hexadecimal numbers\<close>

text \<open>
  \<open>std::stold\<close>.  The format of \<open>long double\<close> is the implementation's: \<open>ld_of\<close> gives the number next to a value
  with a sign, or nothing when it is out of range.
\<close>

record 'd long_double =
  ld_of :: "bool \<Rightarrow> rat \<Rightarrow> 'd option"
  ld_inf :: "bool \<Rightarrow> 'd"
  ld_nan :: "bool \<Rightarrow> 'd"

definition is_hex :: "char \<Rightarrow> bool" where
  "is_hex c \<longleftrightarrow> is_digit c \<or> 97 \<le> (of_char (tolower c) :: nat) \<and> (of_char (tolower c) :: nat) \<le> 102"

definition hex_val :: "char \<Rightarrow> nat" where
  "hex_val c = (if is_digit c then digit_val c else of_char (tolower c) - 87)"

text \<open>The digits before and after the point, and the rest; at least one digit is needed.\<close>

definition mantissa :: "(char \<Rightarrow> bool) \<Rightarrow> string \<Rightarrow> (string \<times> string \<times> string) option" where
  "mantissa dig s =
     (let ip = takeWhile dig s; r = dropWhile dig s;
          (fp, r) = (case r of c # t \<Rightarrow> if c = CHR ''.'' then (takeWhile dig t, dropWhile dig t) else ([], r) | [] \<Rightarrow> ([], r))
      in if ip = [] \<and> fp = [] then None else Some (ip, fp, r))"

text \<open>The exponent after a letter; without digits there is none.\<close>

definition exponent :: "char \<Rightarrow> string \<Rightarrow> int" where
  "exponent x s = (case s of
     [] \<Rightarrow> 0
   | c # t \<Rightarrow> if tolower c \<noteq> x then 0
     else (let neg = (t \<noteq> [] \<and> hd t = CHR ''-'');
               t = (if t \<noteq> [] \<and> (hd t = CHR ''-'' \<or> hd t = CHR ''+'') then tl t else t);
               v = int (dec_val (takeWhile is_digit t))
           in if neg then - v else v))"

definition scaled :: "nat \<Rightarrow> int \<Rightarrow> rat \<Rightarrow> rat" where
  "scaled b e v = (if 0 \<le> e then v * of_nat b ^ nat e else v / of_nat b ^ nat (- e))"

definition decimal :: "string \<Rightarrow> rat option" where
  "decimal s = map_option (\<lambda>(ip, fp, r).
     scaled 10 (exponent CHR ''e'' r) (of_nat (dec_val (ip @ fp)) / 10 ^ length fp)) (mantissa is_digit s)"

definition hexadecimal :: "string \<Rightarrow> rat option" where
  "hexadecimal s = map_option (\<lambda>(ip, fp, r).
     scaled 2 (exponent CHR ''p'' r) (of_nat (fold (\<lambda>c v. 16 * v + hex_val c) (ip @ fp) 0) / 16 ^ length fp))
     (mantissa is_hex s)"

definition stold :: "'d long_double \<Rightarrow> string \<Rightarrow> 'd cpp" where
  "stold F s =
     (let s = dropWhile is_space s;
          neg = (s \<noteq> [] \<and> hd s = CHR ''-'');
          s = (if s \<noteq> [] \<and> (hd s = CHR ''-'' \<or> hd s = CHR ''+'') then tl s else s);
          low = map tolower s
      in if take 3 low = ''inf'' then Inr (ld_inf F neg)
         else if take 3 low = ''nan'' then Inr (ld_nan F neg)
         else (case (if take 2 low = ''0x'' \<and> hexadecimal (drop 2 s) \<noteq> None then hexadecimal (drop 2 s) else decimal s) of
           None \<Rightarrow> Inl (Invalid_argument ''stold'')
         | Some v \<Rightarrow> (case ld_of F neg v of
             None \<Rightarrow> Inl (Out_of_range ''stold'')
           | Some x \<Rightarrow> Inr x)))"

section \<open>Where the host is\<close>

record 'd host_info =
  latitude :: 'd
  longitude :: 'd

text \<open>\<open>restSync\<close> is an argument, as the function is called; \<open>junk\<close> is what the members hold before they are set.\<close>

definition body_string :: "body \<Rightarrow> string cpp" where
  "body_string b = (case b of
     (n, None) \<Rightarrow> if n = 0 then Inr [] else Inl Null_deref
   | (n, Some m) \<Rightarrow> if length m < n then Inl Out_of_bounds else Inr (bytes_string (take n m)))"

definition locate :: "'d long_double \<Rightarrow> 'd host_info \<Rightarrow> string \<Rightarrow> 'd host_info cpp" where
  "locate F junk latlng =
     (let latlng = (if latlng \<noteq> [] \<and> last latlng = CHR ''\<newline>'' then butlast latlng else latlng)
      in case find_char CHR '','' latlng 0 of
           None \<Rightarrow> Inr junk
         | Some comma \<Rightarrow>
             bindE (substr latlng 0 comma) (\<lambda>lat.
             bindE (substr latlng (comma + 1) (length latlng - 1)) (\<lambda>lng.
             bindE (stold F lat) (\<lambda>x. bindE (stold F lng) (\<lambda>y.
               Inr (junk\<lparr>latitude := x, longitude := y\<rparr>))))))"

definition host_info_create ::
  "'d long_double \<Rightarrow> (string \<Rightarrow> string \<Rightarrow> http_response cpp) \<Rightarrow> 'd host_info \<Rightarrow> 'd host_info cpp" where
  "host_info_create F rest junk =
     bindE (rest ''GET'' ''https://ipinfo.io/loc'') (\<lambda>r. bindE (body_string (body r)) (locate F junk))"

section \<open>Announcements\<close>

record 'd p2p =
  hostInfo :: "'d host_info"
  announceIP :: string
  announceReceiver :: "udp_streambuf stream option"

definition doingAnnounce :: "'d p2p \<Rightarrow> bool" where
  "doingAnnounce p \<longleftrightarrow> announceReceiver p \<noteq> None"

text \<open>\<open>reset\<close>, or an assignment, destroys the receiver: nobody else points to it.\<close>

definition drop_receiver :: "'k mc_system \<Rightarrow> 'd p2p \<Rightarrow> 'k \<Rightarrow> 'k" where
  "drop_receiver M p k = (case announceReceiver p of
     None \<Rightarrow> k
   | Some st \<Rightarrow> udp_destroy (mc_udp M) (rdbuf st, k))"

definition closeAnnounce :: "'k mc_system \<Rightarrow> 'd p2p \<Rightarrow> 'k \<Rightarrow> 'd p2p \<times> 'k" where
  "closeAnnounce M p k =
     (if doingAnnounce p then (p\<lparr>announceReceiver := None\<rparr>, drop_receiver M p k) else (p, k))"

text \<open>\<open>serial >> _char\<close> on an object made over the receiver, at the only address of a world of its own.\<close>

definition udp_platform :: "'k udp_system \<Rightarrow> (udp_streambuf \<times> 'k, unit) platform" where
  "udp_platform N = \<lparr>vt = udp_vtable N, pt_write = apassthrough_write, pt_read = apassthrough_read\<rparr>"

definition receiver_world :: "udp_streambuf stream \<Rightarrow> 'k \<Rightarrow> (udp_streambuf \<times> 'k, unit) world" where
  "receiver_world st k = \<lparr>streams = (\<lambda>_. \<lparr>rdbuf = (rdbuf st, k), eofbit = eofbit st, failbit = failbit st,
     badbit = badbit st, gcount = gcount st\<rparr>), regions = (\<lambda>_. []), passthroughs = (\<lambda>_. ()), other = serial_default\<rparr>"

definition read_char :: "'k udp_system \<Rightarrow> udp_streambuf stream \<Rightarrow> 'k \<Rightarrow> (byte \<times> udp_streambuf stream \<times> 'k) cpp" where
  "read_char N st k =
     bindE (get_value (udp_platform N) 0 [0] (serial_streams (Some 0) (Some 0) False) (receiver_world st k))
       (\<lambda>(bs, s, w). let st = streams w 0 in
          Inr (hd bs, \<lparr>rdbuf = fst (rdbuf st), eofbit = eofbit st, failbit = failbit st, badbit = badbit st,
            gcount = gcount st\<rparr>, snd (rdbuf st)))"

text \<open>The result of \<open>startAnnounce\<close> stands for the character it prints.\<close>

definition startAnnounce ::
  "'k mc_system \<Rightarrow> (string \<Rightarrow> string list) \<Rightarrow> 'd p2p \<Rightarrow> 'k \<Rightarrow> byte cpp \<times> 'd p2p \<times> 'k" where
  "startAnnounce M queryA p k = (case udpmc_receiver M queryA (announceIP p) 8427 k of
     (Inl e, k) \<Rightarrow> (Inl e, p, k)
   | (Inr u, k) \<Rightarrow>
       (let k = drop_receiver M p k; p = p\<lparr>announceReceiver := Some (mk_stream u)\<rparr>
        in case read_char (mc_udp M) (mk_stream u) k of
             Inl e \<Rightarrow> (Inl e, p, k)
           | Inr (c, st, k) \<Rightarrow> (Inr c, p\<lparr>announceReceiver := Some st\<rparr>, k)))"

text \<open>The constructor; after an exception the members made so far are destroyed.\<close>

definition p2p_ctor ::
  "'d long_double \<Rightarrow> (string \<Rightarrow> string \<Rightarrow> http_response cpp) \<Rightarrow> 'd host_info \<Rightarrow> 'k mc_system \<Rightarrow> (string \<Rightarrow> string list) \<Rightarrow>
   string \<Rightarrow> 'k \<Rightarrow> 'd p2p cpp \<times> 'k" where
  "p2p_ctor F rest junk M queryA ip k = (case host_info_create F rest junk of
     Inl e \<Rightarrow> (Inl e, k)
   | Inr info \<Rightarrow> (case startAnnounce M queryA \<lparr>hostInfo = info, announceIP = ip, announceReceiver = None\<rparr> k of
       (Inl e, p, k) \<Rightarrow> (Inl e, drop_receiver M p k)
     | (Inr c, p, k) \<Rightarrow> (Inr p, k)))"

section \<open>What is located\<close>

text \<open>The text of a number with a point, as the service writes it.\<close>

definition point_text :: "bool \<Rightarrow> string \<Rightarrow> string \<Rightarrow> string" where
  "point_text neg ip fp = (if neg then ''-'' else []) @ ip @ ''.'' @ fp"

definition point_value :: "string \<Rightarrow> string \<Rightarrow> rat" where
  "point_value ip fp = of_nat (dec_val (ip @ fp)) / 10 ^ length fp"

lemma digit_char: "is_digit c \<Longrightarrow> c \<noteq> CHR ''-'' \<and> c \<noteq> CHR ''+'' \<and> c \<noteq> CHR '','' \<and> \<not> is_space c \<and> tolower c = c"
  by (auto simp: is_digit_def is_space_def tolower_def)

lemma not_digit [simp]: "\<not> is_digit CHR ''.''" "\<not> is_digit CHR ''i''" "\<not> is_digit CHR ''n''" "\<not> is_digit CHR ''x''"
  by (simp_all add: is_digit_def)

lemma mantissa_point:
  assumes "ip \<noteq> []" and "\<forall>c \<in> set ip. is_digit c" and "\<forall>c \<in> set fp. is_digit c"
  shows "mantissa is_digit (ip @ CHR ''.'' # fp) = Some (ip, fp, [])"
  using assms by (simp add: mantissa_def takeWhile_append2 dropWhile_append2 takeWhile_eq_all_conv[THEN iffD2])

lemma decimal_point:
  assumes "ip \<noteq> []" and "\<forall>c \<in> set ip. is_digit c" and "\<forall>c \<in> set fp. is_digit c"
  shows "decimal (ip @ CHR ''.'' # fp) = Some (point_value ip fp)"
  using assms by (simp add: decimal_def mantissa_point exponent_def scaled_def point_value_def)

lemma stold_point:
  assumes "ip \<noteq> []" and "\<forall>c \<in> set ip. is_digit c" and "\<forall>c \<in> set fp. is_digit c"
    and "ld_of F neg (point_value ip fp) = Some x"
  shows "stold F (point_text neg ip fp) = Inr x"
proof -
  obtain d ds where ip: "ip = d # ds" using assms(1) by (cases ip) auto
  have d: "is_digit d" "\<not> is_space d" "d \<noteq> CHR ''-''" "d \<noteq> CHR ''+''" "tolower d = d"
    using assms(2) digit_char [of d] by (auto simp: ip)
  have s1: "dropWhile is_space (point_text neg ip fp) = point_text neg ip fp"
  proof -
    have "\<not> is_space CHR ''-''" by (simp add: is_space_def)
    then show ?thesis using d(2) by (simp add: point_text_def ip)
  qed
  have hd: "d \<noteq> CHR ''i''" "d \<noteq> CHR ''n''" using d(1) by auto
  have x: "take 2 (map tolower (ip @ CHR ''.'' # fp)) \<noteq> ''0x''"
  proof (cases ds)
    case Nil
    then show ?thesis by (simp add: ip tolower_def)
  next
    case (Cons e es)
    then have "is_digit e" using assms(2) by (simp add: ip)
    then have "tolower e \<noteq> CHR ''x''" using digit_char [of e] by auto
    then show ?thesis by (simp add: ip Cons)
  qed
  define t where "t = ip @ CHR ''.'' # fp"
  have t: "take 3 (map tolower t) \<noteq> ''inf''" "take 3 (map tolower t) \<noteq> ''nan''" "take 2 (map tolower t) \<noteq> ''0x''"
    using hd d(5) x by (simp_all add: ip t_def)
  have h: "t \<noteq> []" "hd t \<noteq> CHR ''-''" "hd t \<noteq> CHR ''+''" using d by (simp_all add: t_def ip)
  have p: "point_text neg ip fp = (if neg then CHR ''-'' # t else t)" by (simp add: point_text_def t_def)
  have v: "decimal t = Some (point_value ip fp)" unfolding t_def by (rule decimal_point [OF assms(1-3)])
  show ?thesis using t h v assms(4) s1 unfolding stold_def p by (cases neg) (simp_all add: Let_def)
qed

lemma point_no_comma:
  assumes "\<forall>c \<in> set ip. is_digit c" and "\<forall>c \<in> set fp. is_digit c"
  shows "CHR '','' \<notin> set (point_text neg ip fp)"
  using assms digit_char by (auto simp: point_text_def)

lemma locate_point:
  assumes "i1 \<noteq> []" "\<forall>c \<in> set i1. is_digit c" "\<forall>c \<in> set f1. is_digit c" "ld_of F n1 (point_value i1 f1) = Some x"
    and "i2 \<noteq> []" "\<forall>c \<in> set i2. is_digit c" "\<forall>c \<in> set f2. is_digit c" "ld_of F n2 (point_value i2 f2) = Some y"
    and "nl = [] \<or> nl = [CHR ''\<newline>'']"
  shows "locate F junk (point_text n1 i1 f1 @ CHR '','' # point_text n2 i2 f2 @ nl) = Inr (junk\<lparr>latitude := x, longitude := y\<rparr>)"
proof -
  let ?a = "point_text n1 i1 f1" and ?b = "point_text n2 i2 f2"
  have "last (?a @ CHR '','' # ?b) \<noteq> CHR ''\<newline>''"
    using assms(7) by (cases "f2 = []") (auto simp: point_text_def is_digit_def dest!: last_in_set)
  then have cut: "(let s = ?a @ CHR '','' # ?b @ nl in if s \<noteq> [] \<and> last s = CHR ''\<newline>'' then butlast s else s) =
      ?a @ CHR '','' # ?b"
    using assms(9) by (auto simp: butlast_append)
  have f: "find_char CHR '','' (?a @ CHR '','' # ?b) 0 = Some (length ?a)"
    using point_no_comma [OF assms(2,3)] by (simp add: find_char_def index_of_append)
  have "substr (?a @ CHR '','' # ?b) 0 (length ?a) = Inr ?a"
    "substr (?a @ CHR '','' # ?b) (length ?a + 1) (length (?a @ CHR '','' # ?b) - 1) = Inr ?b"
    by (simp_all add: substr_def slice_def)
  then show ?thesis
    unfolding locate_def Let_def cut [unfolded Let_def] f option.case
    by (simp add: stold_point [OF assms(1-4)] stold_point [OF assms(5-8)])
qed

text \<open>An answer without a comma leaves both members as they were, which is whatever the memory held.\<close>

lemma locate_no_comma:
  assumes "CHR '','' \<notin> set s"
  shows "locate F junk s = Inr junk"
proof -
  have "CHR '','' \<notin> set (butlast s)" using assms in_set_butlastD by fastforce
  then have "index_of CHR '','' (butlast s) = None" "index_of CHR '','' s = None" using assms by simp_all
  then show ?thesis by (simp add: locate_def find_char_def Let_def del: index_of_None)
qed

text \<open>C27: when the service answers with two numbers, a comma between them and perhaps a line break after them, the
  host's latitude is the number next to the first and its longitude the number next to the second.\<close>

theorem host_info_located:
  assumes "rest ''GET'' ''https://ipinfo.io/loc'' = Inr r" and "body r = (length bs, Some (bs @ [0]))"
    and "bs = string_bytes (point_text n1 i1 f1 @ CHR '','' # point_text n2 i2 f2 @ nl)"
    and "i1 \<noteq> []" "\<forall>c \<in> set i1. is_digit c" "\<forall>c \<in> set f1. is_digit c" "ld_of F n1 (point_value i1 f1) = Some x"
    and "i2 \<noteq> []" "\<forall>c \<in> set i2. is_digit c" "\<forall>c \<in> set f2. is_digit c" "ld_of F n2 (point_value i2 f2) = Some y"
    and "nl = [] \<or> nl = [CHR ''\<newline>'']"
  shows "host_info_create F rest junk = Inr (junk\<lparr>latitude := x, longitude := y\<rparr>)"
proof -
  have "body_string (body r) = Inr (point_text n1 i1 f1 @ CHR '','' # point_text n2 i2 f2 @ nl)"
    by (simp add: body_string_def assms(2), simp only: assms(3) bytes_string_bytes)
  then show ?thesis using locate_point [OF assms(4-12)] by (simp add: host_info_create_def assms(1))
qed

text \<open>The numbers themselves, in a format that holds every one.\<close>

definition exact_format :: "rat long_double" where
  "exact_format = \<lparr>ld_of = \<lambda>neg v. Some (if neg then - v else v), ld_inf = \<lambda>_. 0, ld_nan = \<lambda>_. 0\<rparr>"

definition demo_rest :: "string \<Rightarrow> string \<Rightarrow> http_response cpp" where
  "demo_rest verb uri = (let bs = string_bytes (point_text False ''37'' ''5'' @ CHR '','' #
     point_text True ''122'' ''25'' @ [CHR ''\<newline>'']) in Inr (empty_response\<lparr>body := (length bs, Some (bs @ [0]))\<rparr>))"

theorem host_info_located_witness:
  "host_info_create exact_format demo_rest \<lparr>latitude = 0, longitude = 0\<rparr> =
     Inr \<lparr>latitude = 75 / 2, longitude = - (489 / 4)\<rparr>"
proof -
  let ?bs = "string_bytes (point_text False ''37'' ''5'' @ CHR '','' # point_text True ''122'' ''25'' @ [CHR ''\<newline>''])"
  have "dec_val ''375'' = 375" "dec_val ''12225'' = 12225" by (simp_all add: dec_val_def digit_val_def)
  then have v: "ld_of exact_format False (point_value ''37'' ''5'') = Some (75 / 2)"
      "ld_of exact_format True (point_value ''122'' ''25'') = Some (- (489 / 4))"
    by (simp_all add: exact_format_def point_value_def)
  have "host_info_create exact_format demo_rest \<lparr>latitude = 0, longitude = 0\<rparr> =
      Inr (\<lparr>latitude = 0, longitude = 0\<rparr>\<lparr>latitude := 75 / 2, longitude := - (489 / 4)\<rparr>)"
    by (rule host_info_located [where bs = ?bs and r = "empty_response\<lparr>body := (length ?bs, Some (?bs @ [0]))\<rparr>"
        and ?i1.0 = "''37''" and ?f1.0 = "''5''" and ?i2.0 = "''122''" and ?f2.0 = "''25''"
        and ?n1.0 = False and ?n2.0 = True and nl = "[CHR ''\<newline>'']", OF _ _ refl _ _ _ v(1) _ _ _ v(2)])
      (simp_all add: demo_rest_def is_digit_def)
  then show ?thesis by simp
qed

section \<open>What is announced\<close>

text \<open>
  The receiver does not wait: when no datagram is there yet, the character is the null character it was set to,
  and the stream has failed, so that nothing can be read from it later.
\<close>

lemma read_char_nothing:
  assumes "udp_recvfrom N (ufd u) 4096 k = (Would_block, sender, k')" and "ugptr u = 0" "uegptr u = 0" and "length (gbuffer u) = 4096"
  shows "\<exists>st. read_char N (mk_stream u) k = Inr (0, st, k') \<and> rdbuf st = u \<and> \<not> good st"
proof -
  have x: "udp_xsgetn N 1 (u, k) = Inr ([], u, k')"
    using assms by (simp add: udp_xsgetn_def udp_area_def udp_uflow_def udp_underflow_def)
  show ?thesis
    using x by (simp add: good_def set_stream_def pushReadBytes_def Let_def read_char_def get_value_def serial_streams_def serial_default_def readBytes_def
        readBytes_body_def read_stream_def istream_read_def receiver_world_def udp_platform_def udp_vtable_def
        mk_stream_def)
qed

text \<open>Closing gives back the receiver's descriptor and no other; a second time it does nothing.\<close>

lemma closeAnnounce_descriptor:
  assumes "announceReceiver p = Some st" and "0 \<le> ufd (rdbuf st)"
  shows "closeAnnounce M p k = (p\<lparr>announceReceiver := None\<rparr>, udp_closefd (mc_udp M) (ufd (rdbuf st)) k) \<and>
    closeAnnounce M (p\<lparr>announceReceiver := None\<rparr>) k' = (p\<lparr>announceReceiver := None\<rparr>, k')"
  using assms by (simp add: closeAnnounce_def doingAnnounce_def drop_receiver_def udp_destroy_def udp_sync_def
      udp_overflow_def udp_close_def)

lemma startAnnounce_doing:
  assumes "startAnnounce M queryA p k = (Inr c, p', k')"
  shows "doingAnnounce p' \<and> announceIP p' = announceIP p \<and> hostInfo p' = hostInfo p"
  using assms by (auto simp: startAnnounce_def doingAnnounce_def Let_def split: prod.splits sum.splits)

end
