(* ===== verification/C_Common.thy ===== *)
theory C_Common
  imports Serial Cpp_String
begin

text \<open>
  What the functions of c_api.cpp share: result codes, exceptions caught at the border, C strings in
  allocated blocks, and handles: allocated structures that point to the library's objects.
\<close>

section \<open>Results and exceptions\<close>

definition IO_SUCCESS :: int where "IO_SUCCESS = 0"
definition IO_ERROR :: int where "IO_ERROR = -1"
definition IO_ERROR_SSL :: int where "IO_ERROR_SSL = -6"
definition IO_ERROR_ARCHIVE :: int where "IO_ERROR_ARCHIVE = -7"

lemmas io_codes = IO_SUCCESS_def IO_ERROR_def IO_ERROR_SSL_def IO_ERROR_ARCHIVE_def

text \<open>
  The text of an exception, \<open>what()\<close>.  The other errors of the model are not exceptions: nothing
  catches them.
\<close>

fun exception_text :: "cpp_error \<Rightarrow> string option" where
  "exception_text (Runtime_error t) = Some t"
| "exception_text (Invalid_argument t) = Some t"
| "exception_text (Out_of_range t) = Some t"
| "exception_text Bad_alloc = Some ''std::bad_alloc''"
| "exception_text _ = None"

text \<open>\<open>try { m } catch (...) { return h; }\<close>, where the handler may use the text.\<close>

definition catching :: "'a cpp \<Rightarrow> (string \<Rightarrow> 'a cpp) \<Rightarrow> 'a cpp" where
  "catching m h = (case m of
     Inr x \<Rightarrow> Inr x
   | Inl e \<Rightarrow> (case exception_text e of Some t \<Rightarrow> h t | None \<Rightarrow> Inl e))"

lemma catching_Inr [simp]: "catching (Inr x) h = Inr x"
  by (simp add: catching_def)

section \<open>C strings\<close>

text \<open>
  Blocks allocated by \<open>malloc\<close>; a call gets the size and the blocks in use and may give null.  A fresh
  allocator never gives a block in use.
\<close>

type_synonym blocks = "nat \<Rightarrow> byte list option"
type_synonym malloc = "nat \<Rightarrow> blocks \<Rightarrow> nat option"

definition fresh_malloc :: "malloc \<Rightarrow> bool" where
  "fresh_malloc al \<longleftrightarrow> (\<forall>n h a. al n h = Some a \<longrightarrow> h a = None)"

definition copy_c_string :: "malloc \<Rightarrow> string \<Rightarrow> blocks \<Rightarrow> (nat \<times> blocks) cpp" where
  "copy_c_string al s h =
     (if s = [] then
        (case al 1 h of None \<Rightarrow> Inl Null_deref | Some a \<Rightarrow> Inr (a, h(a \<mapsto> [0])))
      else (case al (length s + 1) h of
        None \<Rightarrow> Inl Null_deref
      | Some a \<Rightarrow> Inr (a, h(a \<mapsto> string_bytes s @ [0]))))"

definition c_free :: "nat option \<Rightarrow> blocks \<Rightarrow> blocks cpp" where
  "c_free p h = (case p of
     None \<Rightarrow> Inr h
   | Some a \<Rightarrow> if h a = None then Inl Dangling else Inr (h(a := None)))"

text \<open>The string a C program reads at a pointer.\<close>

definition c_string_at :: "blocks \<Rightarrow> nat \<Rightarrow> string option" where
  "c_string_at h a = map_option (\<lambda>m. bytes_string (takeWhile (\<lambda>b. b \<noteq> 0) m)) (h a)"

definition io_string_free :: "nat option \<Rightarrow> blocks \<Rightarrow> blocks cpp" where
  "io_string_free p h = c_free p h"

lemma copy_c_string_ok:
  assumes "fresh_malloc al" and "copy_c_string al s h = Inr (a, h')"
  shows "h a = None \<and> h' = h(a \<mapsto> string_bytes s @ [0])"
  using assms by (auto simp: copy_c_string_def fresh_malloc_def string_bytes_def split: if_splits option.splits)

lemma copy_c_string_total:
  assumes "\<And>n h. al n h \<noteq> None"
  shows "\<exists>a h'. copy_c_string al s h = Inr (a, h')"
  using assms [of 1 h] assms [of "length s + 1" h] by (auto simp: copy_c_string_def)

lemma string_bytes_string [simp]: "string_bytes (bytes_string bs) = bs"
proof -
  have "of_char (char_of (unat b)) = b" for b :: byte
  proof -
    have "(of_char (char_of (unat b)) :: byte) = of_nat (of_char (char_of (unat b)))" by (simp only: of_nat_of_char)
    moreover have "unat b < 256" using unsigned_less [of b, where 'a = nat] by simp
    ultimately have "(of_char (char_of (unat b)) :: byte) = of_nat (unat b)" by simp
    then show ?thesis by simp
  qed
  then show ?thesis by (induction bs) (simp_all add: string_bytes_def bytes_string_def)
qed

text \<open>An allocator that does not fail while finitely many blocks are in use.\<close>

definition reliable_malloc :: "malloc \<Rightarrow> bool" where
  "reliable_malloc al \<longleftrightarrow> (\<forall>n h. finite (dom h) \<longrightarrow> (\<exists>a. al n h = Some a \<and> h a = None))"

lemma copy_c_string_fresh:
  assumes "reliable_malloc al" and "finite (dom h)"
  shows "\<exists>a. copy_c_string al s h = Inr (a, h(a \<mapsto> string_bytes s @ [0])) \<and> h a = None"
proof -
  obtain a b where "al 1 h = Some a" "h a = None" "al (length s + 1) h = Some b" "h b = None"
    using assms unfolding reliable_malloc_def by blast
  then show ?thesis by (simp add: copy_c_string_def string_bytes_def)
qed

lemma c_string_at_copy:
  assumes "CHR 0x00 \<notin> set s"
  shows "bytes_string (takeWhile (\<lambda>b. b \<noteq> 0) (string_bytes s @ [0])) = s"
proof -
  have z: "(of_char CHR 0x00 :: byte) = 0" by simp
  have "\<forall>b \<in> set (string_bytes s). b \<noteq> 0"
  proof
    fix b assume "b \<in> set (string_bytes s)"
    then obtain c where "c \<in> set s" "b = of_char c" unfolding string_bytes_def set_map by blast
    then show "b \<noteq> 0" using assms of_char_byte_eq [of c "CHR 0x00"] z by metis
  qed
  then have "takeWhile (\<lambda>b. b \<noteq> 0) (string_bytes s @ [0]) = string_bytes s @ takeWhile (\<lambda>b. b \<noteq> 0) [0]"
    by (intro takeWhile_append2) blast
  then show ?thesis by simp
qed

section \<open>Handles\<close>

text \<open>
  A table of handles and of the objects they point to.  A handle's pointer is null when the object could
  not be allocated.  \<open>pick\<close> is what the two calls of \<open>new (std::nothrow)\<close> give; an allocator that
  does not fail gives fresh addresses while finitely many are in use.
\<close>

record 'o table =
  handles :: "nat \<Rightarrow> nat option option"
  objects :: "nat \<Rightarrow> 'o option"

type_synonym 'o new = "'o table \<Rightarrow> nat option \<times> nat option"

definition fresh_new :: "'o new \<Rightarrow> bool" where
  "fresh_new pick \<longleftrightarrow> (\<forall>T. finite (dom (objects T)) \<longrightarrow> finite (dom (handles T)) \<longrightarrow>
     (\<exists>p q. pick T = (Some p, Some q) \<and> objects T p = None \<and> handles T q = None))"

definition c_create :: "'o new \<Rightarrow> 'o \<Rightarrow> 'o table \<Rightarrow> nat option \<times> 'o table" where
  "c_create pick x T = (case pick T of (p, q) \<Rightarrow>
     let T = (case p of Some a \<Rightarrow> T\<lparr>objects := (objects T)(a \<mapsto> x)\<rparr> | None \<Rightarrow> T)
     in (case q of Some b \<Rightarrow> (q, T\<lparr>handles := (handles T)(b \<mapsto> p)\<rparr>) | None \<Rightarrow> (None, T)))"

text \<open>
  The same for an object whose constructor acts on the world and may throw: it runs only when the object
  could be allocated, and after an exception the function answers null.
\<close>

definition c_new :: "'o new \<Rightarrow> ('w \<Rightarrow> 'o cpp \<times> 'w) \<Rightarrow> 'o table \<Rightarrow> 'w \<Rightarrow> (nat option \<times> 'o table \<times> 'w) cpp" where
  "c_new pick mk T w = (case pick T of (p, q) \<Rightarrow>
     (case (case p of
         None \<Rightarrow> (Inr T, w)
       | Some a \<Rightarrow> (case mk w of
           (Inl e, w) \<Rightarrow> (Inl e, w)
         | (Inr x, w) \<Rightarrow> (Inr (T\<lparr>objects := (objects T)(a \<mapsto> x)\<rparr>), w))) of
        (Inl e, w) \<Rightarrow> catching (Inl e) (\<lambda>_. Inr (None, T, w))
      | (Inr T, w) \<Rightarrow> (case q of
          Some b \<Rightarrow> Inr (q, T\<lparr>handles := (handles T)(b \<mapsto> p)\<rparr>, w)
        | None \<Rightarrow> Inr (None, T, w))))"

text \<open>\<open>!handle || !handle->ptr\<close>, and the object otherwise.\<close>

definition c_deref :: "nat option \<Rightarrow> 'o table \<Rightarrow> (nat \<times> 'o) option cpp" where
  "c_deref p T = (case p of
     None \<Rightarrow> Inr None
   | Some b \<Rightarrow> (case handles T b of
       None \<Rightarrow> Inl Dangling
     | Some None \<Rightarrow> Inr None
     | Some (Some a) \<Rightarrow> (case objects T a of None \<Rightarrow> Inl Dangling | Some x \<Rightarrow> Inr (Some (a, x)))))"

text \<open>A call on the object of a handle, with the result for a null one.\<close>

definition with_object ::
  "nat option \<Rightarrow> 'r \<Rightarrow> ('o \<Rightarrow> 'w \<Rightarrow> ('r \<times> 'o \<times> 'w) cpp) \<Rightarrow> 'o table \<Rightarrow> 'w \<Rightarrow> ('r \<times> 'o table \<times> 'w) cpp" where
  "with_object p dflt f T w =
     bindE (c_deref p T) (\<lambda>r. case r of
       None \<Rightarrow> Inr (dflt, T, w)
     | Some (a, x) \<Rightarrow> bindE (f x w) (\<lambda>(r, x, w).
         Inr (r, T\<lparr>objects := (objects T)(a \<mapsto> x)\<rparr>, w)))"

text \<open>\<open>delete handle->ptr; delete handle;\<close> for a handle that is not null, given the object's destructor.\<close>

definition c_destroy ::
  "('o \<Rightarrow> 'w \<Rightarrow> 'w cpp) \<Rightarrow> nat option \<Rightarrow> 'o table \<Rightarrow> 'w \<Rightarrow> ('o table \<times> 'w) cpp" where
  "c_destroy dtor p T w = (case p of
     None \<Rightarrow> Inr (T, w)
   | Some b \<Rightarrow> (case handles T b of
       None \<Rightarrow> Inl Dangling
     | Some q \<Rightarrow>
         bindE (case q of
             None \<Rightarrow> Inr (T, w)
           | Some a \<Rightarrow> (case objects T a of
               None \<Rightarrow> Inl Dangling
             | Some x \<Rightarrow> bindE (dtor x w) (\<lambda>w. Inr (T\<lparr>objects := (objects T)(a := None)\<rparr>, w))))
         (\<lambda>(T, w). Inr (T\<lparr>handles := (handles T)(b := None)\<rparr>, w))))"

text \<open>A handle that is alive, and its object.\<close>

definition alive :: "nat \<Rightarrow> nat \<Rightarrow> 'o \<Rightarrow> 'o table \<Rightarrow> bool" where
  "alive b a x T \<longleftrightarrow> handles T b = Some (Some a) \<and> objects T a = Some x"

lemma c_create_alive:
  assumes "fresh_new pick" and "finite (dom (objects T))" and "finite (dom (handles T))"
  shows "\<exists>b a T'. c_create pick x T = (Some b, T') \<and> alive b a x T' \<and> handles T b = None \<and> objects T a = None \<and>
    T' = T\<lparr>objects := (objects T)(a \<mapsto> x), handles := (handles T)(b \<mapsto> Some a)\<rparr>"
proof -
  obtain p q where "pick T = (Some p, Some q)" "objects T p = None" "handles T q = None"
    using assms unfolding fresh_new_def by blast
  then show ?thesis by (simp add: c_create_def alive_def)
qed

text \<open>A table with one more object and its handle.\<close>

definition with_handle :: "nat \<Rightarrow> nat \<Rightarrow> 'o \<Rightarrow> 'o table \<Rightarrow> 'o table" where
  "with_handle b a x T = T\<lparr>objects := (objects T)(a \<mapsto> x), handles := (handles T)(b \<mapsto> Some a)\<rparr>"

definition unused :: "nat \<Rightarrow> nat \<Rightarrow> 'o table \<Rightarrow> bool" where
  "unused b a T \<longleftrightarrow> handles T b = None \<and> objects T a = None"

lemma c_new_alive:
  assumes "fresh_new pick" and "finite (dom (objects T))" and "finite (dom (handles T))"
    and "mk w = (Inr x, w')"
  shows "\<exists>b a. c_new pick mk T w = Inr (Some b, with_handle b a x T, w') \<and> unused b a T"
proof -
  obtain p q where "pick T = (Some p, Some q)" "objects T p = None" "handles T q = None"
    using assms(1-3) unfolding fresh_new_def by blast
  then have "c_new pick mk T w = Inr (Some q, with_handle q p x T, w') \<and> unused q p T"
    using assms(4) by (simp add: c_new_def with_handle_def unused_def)
  then show ?thesis by blast
qed

lemma with_handle_alive [simp]: "alive b a x (with_handle b a x T)"
  by (simp add: alive_def with_handle_def)

lemma with_handle_eq [simp]: "with_handle b a x T = with_handle b a y T \<longleftrightarrow> x = y"
  by (auto simp: with_handle_def dest!: arg_cong [where f = objects] fun_cong [where x = a])

lemma with_handle_update:
  "with_handle b a x T\<lparr>objects := (objects (with_handle b a x T))(a \<mapsto> y)\<rparr> = with_handle b a y T"
  by (simp add: with_handle_def)

text \<open>A call on the object of the handle and, at the end, its destruction, which restores the table.\<close>

lemma with_object_handle:
  assumes "f x w = Inr (r, y, w')"
  shows "with_object (Some b) dflt f (with_handle b a x T) w = Inr (r, with_handle b a y T, w')"
  using assms by (simp add: with_object_def c_deref_def with_handle_def)

lemma c_destroy_handle:
  assumes "unused b a T" and "dtor x w = Inr w'"
  shows "c_destroy dtor (Some b) (with_handle b a x T) w = Inr (T, w')"
  using assms by (cases T) (simp add: c_destroy_def with_handle_def unused_def fun_upd_idem)

lemma c_deref_alive: "alive b a x T \<Longrightarrow> c_deref (Some b) T = Inr (Some (a, x))"
  by (simp add: alive_def c_deref_def)

lemma c_deref_None [simp]: "c_deref None T = Inr None"
  by (simp add: c_deref_def)

lemma with_object_None [simp]: "with_object None dflt f T w = Inr (dflt, T, w)"
  by (simp add: with_object_def)

lemma with_object_alive:
  assumes "alive b a x T" and "f x w = Inr (r, x', w')"
  shows "with_object (Some b) dflt f T w = Inr (r, T\<lparr>objects := (objects T)(a \<mapsto> x')\<rparr>, w')"
  using assms by (simp add: with_object_def c_deref_alive)

lemma alive_update: "alive b a x T \<Longrightarrow> alive b a y (T\<lparr>objects := (objects T)(a \<mapsto> y)\<rparr>)"
  by (simp add: alive_def)

text \<open>Destroying a handle gives both allocations back; the handle dangles from then on.\<close>

lemma c_destroy_alive:
  assumes "alive b a x T" and "dtor x w = Inr w'"
  shows "c_destroy dtor (Some b) T w =
      Inr (T\<lparr>objects := (objects T)(a := None), handles := (handles T)(b := None)\<rparr>, w')"
  using assms by (simp add: c_destroy_def alive_def)

lemma c_deref_destroyed: "c_deref (Some b) (T\<lparr>handles := (handles T)(b := None)\<rparr>) = Inl Dangling"
  by (simp add: c_deref_def)

section \<open>Streams\<close>

text \<open>A stream's own state apart from the system it acts on, and the block operations the C functions use.\<close>

definition stream_with :: "'b stream \<Rightarrow> 'k \<Rightarrow> ('b \<times> 'k) stream" where
  "stream_with st k = \<lparr>rdbuf = (rdbuf st, k), eofbit = eofbit st, failbit = failbit st, badbit = badbit st,
     gcount = gcount st\<rparr>"

definition stream_state :: "('b \<times> 'k) stream \<Rightarrow> 'b stream \<times> 'k" where
  "stream_state s = (\<lparr>rdbuf = fst (rdbuf s), eofbit = eofbit s, failbit = failbit s, badbit = badbit s,
     gcount = gcount s\<rparr>, snd (rdbuf s))"

text \<open>The size given back is the caller's, whether or not the stream took the bytes.\<close>

definition put_bytes :: "('b \<times> 'k) vtable \<Rightarrow> byte list \<Rightarrow> 'b stream \<Rightarrow> 'k \<Rightarrow> (int \<times> 'b stream \<times> 'k) cpp" where
  "put_bytes V bs st k = bindE (ostream_write V bs (stream_with st k)) (\<lambda>s.
     case stream_state s of (st, k) \<Rightarrow> Inr (i64 (int (length bs)), st, k))"

text \<open>The caller's buffer and the buffer after the call.\<close>

definition get_bytes ::
  "('b \<times> 'k) vtable \<Rightarrow> byte list \<Rightarrow> 'b stream \<Rightarrow> 'k \<Rightarrow> ((int \<times> byte list) \<times> 'b stream \<times> 'k) cpp" where
  "get_bytes V m st k = bindE (istream_read V (length m) (stream_with st k)) (\<lambda>(bs, s).
     case stream_state s of (st, k) \<Rightarrow> Inr ((i64 (int (gcount s)), blit 0 bs m), st, k))"

definition success :: "bool \<Rightarrow> int" where
  "success x = (if x then IO_SUCCESS else IO_ERROR)"

lemma stream_with_simps [simp]: "rdbuf (stream_with st k) = (rdbuf st, k)" "good (stream_with st k) = good st"
  "gcount (stream_with st k) = gcount st"
  by (simp_all add: stream_with_def good_def)

lemma stream_state_with [simp]: "stream_state (stream_with st k) = (st, k)"
    "stream_state ((stream_with st k)\<lparr>gcount := g, failbit := x\<rparr>) = (st\<lparr>gcount := g, failbit := x\<rparr>, k)"
  by (simp_all add: stream_state_def stream_with_def)

section \<open>An allocator\<close>

text \<open>Allocators that give the first address not in use, and a table with nothing in it.\<close>

definition first_new :: "'o new" where
  "first_new T = (Some (LEAST a. objects T a = None), Some (LEAST b. handles T b = None))"

lemma first_free:
  fixes f :: "nat \<Rightarrow> 'x option"
  assumes "finite (dom f)"
  shows "f (LEAST a. f a = None) = None"
proof -
  have "\<exists>a. a \<notin> dom f" using assms ex_new_if_finite infinite_UNIV_nat by blast
  then have "\<exists>a. f a = None" by auto
  then show ?thesis by (rule LeastI_ex)
qed

lemma first_new_fresh: "fresh_new first_new"
  by (simp add: fresh_new_def first_new_def first_free)

definition first_malloc :: malloc where
  "first_malloc n h = Some (LEAST a. h a = None)"

lemma first_malloc_reliable: "reliable_malloc first_malloc"
  by (simp add: reliable_malloc_def first_malloc_def first_free)

definition empty_table :: "'o table" where
  "empty_table = \<lparr>handles = Map.empty, objects = Map.empty\<rparr>"

lemma empty_table_finite: "finite (dom (objects empty_table))" "finite (dom (handles empty_table))"
  by (simp_all add: empty_table_def)

end
