(* ===== verification/C_Serial.thy ===== *)
theory C_Serial
  imports C_Common Serial_Codec
begin

text \<open>
  The \<open>io_serial_\<close> functions of c_api.cpp over the model of \<open>Serial\<close>.  The table holds the
  \<open>io_serial\<close> structures and their objects; data the caller passes is given by the bytes it points
  to, and a null pointer by \<open>None\<close>.
\<close>

type_synonym serials = "serial table"

section \<open>Making and destroying\<close>

text \<open>\<open>owns_stream\<close> is false in every handle and never read.\<close>

definition io_serial_create :: "serial new \<Rightarrow> serials \<Rightarrow> nat option \<times> serials" where
  "io_serial_create pick T = c_create pick serial_default T"

definition io_serial_create_buffer :: "serial new \<Rightarrow> int \<Rightarrow> nat option \<Rightarrow> serials \<Rightarrow> nat option \<times> serials" where
  "io_serial_create_buffer pick size' buffer T = c_create pick (serial_buffer size' buffer False) T"

definition io_serial_create_count :: "serial new \<Rightarrow> int \<Rightarrow> serials \<Rightarrow> nat option \<times> serials" where
  "io_serial_create_count pick count T = c_create pick (serial_count (count \<noteq> 0)) T"

text \<open>Over the stream of a connection, named by its place in the world; null for a null handle or pointer.\<close>

definition io_serial_create_tcp :: "serial new \<Rightarrow> nat option \<Rightarrow> int \<Rightarrow> serials \<Rightarrow> nat option \<times> serials" where
  "io_serial_create_tcp pick stream bit_stream T = (case stream of
     None \<Rightarrow> (None, T)
   | Some a \<Rightarrow> c_create pick (serial_streams (Some a) (Some a) (bit_stream \<noteq> 0)) T)"

definition io_serial_create_tcp_client :: "serial new \<Rightarrow> nat option \<Rightarrow> int \<Rightarrow> serials \<Rightarrow> nat option \<times> serials" where
  "io_serial_create_tcp_client pick client bit_stream T = (case client of
     None \<Rightarrow> (None, T)
   | Some a \<Rightarrow> c_create pick (serial_streams (Some a) (Some a) (bit_stream \<noteq> 0)) T)"

definition io_serial_destroy :: "nat option \<Rightarrow> serials \<Rightarrow> serials cpp" where
  "io_serial_destroy p T = bindE (c_destroy (\<lambda>x w. Inr w) p T ()) (\<lambda>(T, _). Inr T)"

section \<open>Bytes\<close>

definition io_serial_write_bytes ::
  "('b, 'p) platform \<Rightarrow> nat \<Rightarrow> nat option \<Rightarrow> byte list option \<Rightarrow> serials \<Rightarrow> ('b, 'p) world \<Rightarrow>
   (int \<times> serials \<times> ('b, 'p) world) cpp" where
  "io_serial_write_bytes P d p src T w = (case src of
     None \<Rightarrow> bindE (c_deref p T) (\<lambda>_. Inr (IO_ERROR, T, w))
   | Some bs \<Rightarrow> catching
       (with_object p IO_ERROR (\<lambda>s w. writeBytes P d bs s w) T w)
       (\<lambda>_. Inr (IO_ERROR, T, w)))"

text \<open>The second result is the destination after the call.\<close>

definition io_serial_read_bytes ::
  "('b, 'p) platform \<Rightarrow> nat \<Rightarrow> nat option \<Rightarrow> byte list option \<Rightarrow> serials \<Rightarrow> ('b, 'p) world \<Rightarrow>
   ((int \<times> byte list option) \<times> serials \<times> ('b, 'p) world) cpp" where
  "io_serial_read_bytes P d p dest T w = (case dest of
     None \<Rightarrow> bindE (c_deref p T) (\<lambda>_. Inr ((IO_ERROR, None), T, w))
   | Some bs \<Rightarrow> catching
       (with_object p (IO_ERROR, dest) (\<lambda>s w. bindE (readBytes P d bs s w) (\<lambda>(r, bs, s, w).
          Inr ((r, Some bs), s, w))) T w)
       (\<lambda>_. Inr ((IO_ERROR, dest), T, w)))"

definition io_serial_write_byte ::
  "('b, 'p) platform \<Rightarrow> nat \<Rightarrow> nat option \<Rightarrow> byte \<Rightarrow> serials \<Rightarrow> ('b, 'p) world \<Rightarrow>
   (unit \<times> serials \<times> ('b, 'p) world) cpp" where
  "io_serial_write_byte P d p b T w =
     with_object p () (\<lambda>s w. bindE (writeByte P d b s w) (\<lambda>(s, w). Inr ((), s, w))) T w"

definition io_serial_read_byte ::
  "('b, 'p) platform \<Rightarrow> nat \<Rightarrow> nat option \<Rightarrow> serials \<Rightarrow> ('b, 'p) world \<Rightarrow>
   (byte \<times> serials \<times> ('b, 'p) world) cpp" where
  "io_serial_read_byte P d p T w = with_object p 0 (readByte P d) T w"

section \<open>Bits\<close>

definition io_serial_write_bit ::
  "('b, 'p) platform \<Rightarrow> nat \<Rightarrow> nat option \<Rightarrow> int \<Rightarrow> serials \<Rightarrow> ('b, 'p) world \<Rightarrow>
   (unit \<times> serials \<times> ('b, 'p) world) cpp" where
  "io_serial_write_bit P d p x T w =
     with_object p () (\<lambda>s w. bindE (writeBit P d (x \<noteq> 0) s w) (\<lambda>(s, w). Inr ((), s, w))) T w"

definition io_serial_read_bit ::
  "('b, 'p) platform \<Rightarrow> nat \<Rightarrow> nat option \<Rightarrow> serials \<Rightarrow> ('b, 'p) world \<Rightarrow>
   (int \<times> serials \<times> ('b, 'p) world) cpp" where
  "io_serial_read_bit P d p T w =
     with_object p 0 (\<lambda>s w. bindE (readBit P d s w) (\<lambda>(x, s, w). Inr (of_bool x, s, w))) T w"

text \<open>
  The wrappers of the caller's array: a bit is the lowest bit of its byte, and reading stores 0 or 1 in
  the bytes from \<open>index\<close> on.  The range is not checked, so the caller's array is as long as it is.
\<close>

definition low_bits :: "byte list \<Rightarrow> bool list" where
  "low_bits bits = map (\<lambda>b. bit b 0) bits"

definition io_serial_write_bits ::
  "('b, 'p) platform \<Rightarrow> nat \<Rightarrow> nat option \<Rightarrow> byte list option \<Rightarrow> nat \<Rightarrow> nat \<Rightarrow> serials \<Rightarrow> ('b, 'p) world \<Rightarrow>
   (unit \<times> serials \<times> ('b, 'p) world) cpp" where
  "io_serial_write_bits P d p bits index count T w = (case bits of
     None \<Rightarrow> bindE (c_deref p T) (\<lambda>_. Inr ((), T, w))
   | Some bs \<Rightarrow> with_object p () (\<lambda>s w. bindE (writeBits P d (low_bits bs) index count s w) (\<lambda>(s, w).
       Inr ((), s, w))) T w)"

definition store_bits :: "nat \<Rightarrow> nat \<Rightarrow> bool list \<Rightarrow> byte list \<Rightarrow> byte list" where
  "store_bits index count c bits =
     map (\<lambda>i. if index \<le> i \<and> i < index + count then of_bool (c ! i) else bits ! i) [0..<length bits]"

definition io_serial_read_bits ::
  "('b, 'p) platform \<Rightarrow> nat \<Rightarrow> nat option \<Rightarrow> byte list option \<Rightarrow> nat \<Rightarrow> nat \<Rightarrow> serials \<Rightarrow> ('b, 'p) world \<Rightarrow>
   (byte list option \<times> serials \<times> ('b, 'p) world) cpp" where
  "io_serial_read_bits P d p bits index count T w = (case bits of
     None \<Rightarrow> bindE (c_deref p T) (\<lambda>_. Inr (None, T, w))
   | Some bs \<Rightarrow> with_object p (Some bs) (\<lambda>s w.
       bindE (readBits P d (low_bits bs) index count s w) (\<lambda>(c, s, w).
         Inr (Some (store_bits index count c bs), s, w))) T w)"

section \<open>Positions and state\<close>

definition io_serial_get_write_position ::
  "('b, 'p) platform \<Rightarrow> nat option \<Rightarrow> serials \<Rightarrow> ('b, 'p) world \<Rightarrow> (int \<times> serials \<times> ('b, 'p) world) cpp" where
  "io_serial_get_write_position P p T w =
     with_object p IO_ERROR (\<lambda>s w. bindE (getWritePosition P s w) (\<lambda>(x, w). Inr (x, s, w))) T w"

definition io_serial_get_read_position ::
  "('b, 'p) platform \<Rightarrow> nat option \<Rightarrow> serials \<Rightarrow> ('b, 'p) world \<Rightarrow> (int \<times> serials \<times> ('b, 'p) world) cpp" where
  "io_serial_get_read_position P p T w =
     with_object p IO_ERROR (\<lambda>s w. bindE (getReadPosition P s w) (\<lambda>(x, w). Inr (x, s, w))) T w"

definition io_serial_set_write_position ::
  "('b, 'p) platform \<Rightarrow> nat option \<Rightarrow> nat \<Rightarrow> serials \<Rightarrow> ('b, 'p) world \<Rightarrow> (unit \<times> serials \<times> ('b, 'p) world) cpp" where
  "io_serial_set_write_position P p index T w =
     with_object p () (\<lambda>s w. bindE (setWritePosition P index s w) (\<lambda>(s, w). Inr ((), s, w))) T w"

definition io_serial_set_read_position ::
  "('b, 'p) platform \<Rightarrow> nat option \<Rightarrow> nat \<Rightarrow> serials \<Rightarrow> ('b, 'p) world \<Rightarrow> (unit \<times> serials \<times> ('b, 'p) world) cpp" where
  "io_serial_set_read_position P p index T w =
     with_object p () (\<lambda>s w. bindE (setReadPosition P index s w) (\<lambda>(s, w). Inr ((), s, w))) T w"

definition io_serial_get_write_length ::
  "('b, 'p) platform \<Rightarrow> nat option \<Rightarrow> serials \<Rightarrow> ('b, 'p) world \<Rightarrow> (int \<times> serials \<times> ('b, 'p) world) cpp" where
  "io_serial_get_write_length P p T w =
     with_object p IO_ERROR (\<lambda>s w. bindE (getWriteLength P s w) (\<lambda>(x, w). Inr (x, s, w))) T w"

definition io_serial_get_read_length ::
  "('b, 'p) platform \<Rightarrow> nat option \<Rightarrow> serials \<Rightarrow> ('b, 'p) world \<Rightarrow> (int \<times> serials \<times> ('b, 'p) world) cpp" where
  "io_serial_get_read_length P p T w =
     with_object p IO_ERROR (\<lambda>s w. bindE (getReadLength P s w) (\<lambda>(x, w). Inr (x, s, w))) T w"

definition io_serial_synchronize ::
  "('b, 'p) platform \<Rightarrow> nat \<Rightarrow> nat option \<Rightarrow> serials \<Rightarrow> ('b, 'p) world \<Rightarrow> (unit \<times> serials \<times> ('b, 'p) world) cpp" where
  "io_serial_synchronize P d p T w =
     with_object p () (\<lambda>s w. bindE (synchronize P d s w) (\<lambda>(s, w). Inr ((), s, w))) T w"

definition io_serial_is_read_eof :: "nat option \<Rightarrow> serials \<Rightarrow> (int \<times> serials) cpp" where
  "io_serial_is_read_eof p T = bindE (with_object p 0 (\<lambda>s w. Inr (of_bool (is_read_eof s), s, w)) T ())
     (\<lambda>(x, T, _). Inr (x, T))"

definition io_serial_is_read_empty :: "nat option \<Rightarrow> serials \<Rightarrow> (int \<times> serials) cpp" where
  "io_serial_is_read_empty p T = bindE (with_object p 0 (\<lambda>s w. Inr (of_bool (is_read_empty s), s, w)) T ())
     (\<lambda>(x, T, _). Inr (x, T))"

definition io_serial_did_not_read_whole_size :: "nat option \<Rightarrow> serials \<Rightarrow> (int \<times> serials) cpp" where
  "io_serial_did_not_read_whole_size p T =
     bindE (with_object p 0 (\<lambda>s w. case did_not_read_whole_size s of (x, s) \<Rightarrow> Inr (of_bool x, s, w)) T ())
     (\<lambda>(x, T, _). Inr (x, T))"

definition io_serial_get_last_bytes_read :: "nat option \<Rightarrow> serials \<Rightarrow> (nat \<times> serials) cpp" where
  "io_serial_get_last_bytes_read p T =
     bindE (with_object p 0 (\<lambda>s w. Inr (get_last_bytes_read s, s, w)) T ()) (\<lambda>(x, T, _). Inr (x, T))"

definition io_serial_clear_read ::
  "nat option \<Rightarrow> serials \<Rightarrow> ('b, 'p) world \<Rightarrow> (unit \<times> serials \<times> ('b, 'p) world) cpp" where
  "io_serial_clear_read p T w =
     with_object p () (\<lambda>s w. case clearRead s w of (s, w) \<Rightarrow> Inr ((), s, w)) T w"

section \<open>Writing and reading through handles\<close>

lemma serial_buffer_plain:
  "length (regions w a) < 2 ^ 63 \<Longrightarrow> mem_plain (serial_buffer (int (length (regions w a))) (Some a) False) w"
  by (simp add: mem_plain_def mem_ok_def region_of_def serial_buffer_def serial_default_def)

text \<open>Several writes, and several reads into cleared buffers of the given sizes.\<close>

fun c_writes ::
  "('b, 'p) platform \<Rightarrow> nat \<Rightarrow> nat option \<Rightarrow> byte list list \<Rightarrow> serials \<Rightarrow> ('b, 'p) world \<Rightarrow>
   (int list \<times> serials \<times> ('b, 'p) world) cpp" where
  "c_writes P d p [] T w = Inr ([], T, w)"
| "c_writes P d p (bs # bss) T w = bindE (io_serial_write_bytes P d p (Some bs) T w) (\<lambda>(r, T, w).
     bindE (c_writes P d p bss T w) (\<lambda>(rs, T, w). Inr (r # rs, T, w)))"

fun c_reads ::
  "('b, 'p) platform \<Rightarrow> nat \<Rightarrow> nat option \<Rightarrow> nat list \<Rightarrow> serials \<Rightarrow> ('b, 'p) world \<Rightarrow>
   (byte list list \<times> serials \<times> ('b, 'p) world) cpp" where
  "c_reads P d p [] T w = Inr ([], T, w)"
| "c_reads P d p (n # ns) T w = bindE (io_serial_read_bytes P d p (Some (replicate n 0)) T w) (\<lambda>((r, bs), T, w).
     bindE (c_reads P d p ns T w) (\<lambda>(bss, T, w). Inr (the bs # bss, T, w)))"

lemma alive_same: "alive b a s T \<Longrightarrow> (objects T)(a \<mapsto> s) = objects T"
  by (auto simp: alive_def)

lemma c_writes_ok:
  assumes "alive b a s T" and "mem_ok s w"
    and "buffer_write_index s + int (length (concat bss)) \<le> buffer_size s"
  shows "\<exists>s' w'. c_writes P d (Some b) bss T w =
      Inr (map (\<lambda>bs. int (length bs)) bss, T\<lparr>objects := (objects T)(a \<mapsto> s')\<rparr>, w') \<and>
    regions w' = (regions w)
      (the (buffer_pointer s) := blit (nat (buffer_write_index s)) (concat bss) (region_of s w))"
  using assms
proof (induction bss arbitrary: s T w)
  case Nil
  have "regions w = (regions w)(the (buffer_pointer s) := region_of s w)"
    using Nil.prems(2) by (auto simp: mem_ok_def region_of_def)
  then show ?case using alive_same [OF Nil.prems(1)] by (intro exI [of _ s] exI [of _ w]) (simp del: fun_upd_apply)
next
  case (Cons bs bss)
  let ?i = "nat (buffer_write_index s)"
  let ?s = "s\<lparr>buffer_write_index := buffer_write_index s + int (length bs)\<rparr>"
  let ?w = "mem_store s bs w" and ?T = "T\<lparr>objects := (objects T)(a \<mapsto> ?s)\<rparr>"
  have le: "buffer_write_index s + int (length bs) \<le> buffer_size s" using Cons.prems(3) by simp
  have ok: "0 \<le> buffer_write_index s" "buffer_size s = int (length (region_of s w))" "buffer_size s < 2 ^ 63"
    using Cons.prems(2) by (simp_all add: mem_ok_def)
  have lt: "length bs < 2 ^ 63" using le ok by simp
  have "writeBytes P d bs s w = Inr (int (length bs), ?s, ?w)"
    using le by (simp add: writeBytes_def mem_write [OF Cons.prems(2) lt])
  then have w: "io_serial_write_bytes P d (Some b) (Some bs) T w = Inr (int (length bs), ?T, ?w)"
    using with_object_alive [OF Cons.prems(1), of "\<lambda>s w. writeBytes P d bs s w"]
    by (simp add: io_serial_write_bytes_def)
  have m: "mem_ok ?s ?w" using mem_ok_write [OF Cons.prems(2) le] .
  have al: "alive b a ?s ?T" using alive_update [OF Cons.prems(1)] .
  have r: "region_of ?s ?w = blit ?i bs (region_of s w)"
    by (rule region_of_mem_store [OF Cons.prems(2)]) simp
  have p: "buffer_write_index ?s + int (length (concat bss)) \<le> buffer_size ?s" using Cons.prems(3) by simp
  obtain s' w' where IH: "c_writes P d (Some b) bss ?T ?w =
      Inr (map (\<lambda>bs. int (length bs)) bss, ?T\<lparr>objects := (objects ?T)(a \<mapsto> s')\<rparr>, w')"
      "regions w' = (regions ?w)
        (the (buffer_pointer ?s) := blit (nat (buffer_write_index ?s)) (concat bss) (region_of ?s ?w))"
    using Cons.IH [OF al m p] by blast
  have "nat (buffer_write_index ?s) = ?i + length bs" using ok(1) by simp
  then have bl: "blit (nat (buffer_write_index ?s)) (concat bss) (region_of ?s ?w) =
      blit ?i (concat (bs # bss)) (region_of s w)"
    using blit_blit_append [of ?i bs "region_of s w" "concat bss"] le ok(1,2) unfolding r by simp
  have "c_writes P d (Some b) (bs # bss) T w =
      Inr (map (\<lambda>bs. int (length bs)) (bs # bss), T\<lparr>objects := (objects T)(a \<mapsto> s')\<rparr>, w')"
    unfolding c_writes.simps w bindE_Inr prod.case IH(1) by simp
  moreover have "regions w' = (regions w)(the (buffer_pointer s) := blit ?i (concat (bs # bss)) (region_of s w))"
    unfolding IH(2) bl by (simp add: mem_store_def)
  ultimately show ?case by blast
qed

lemma c_reads_ok:
  assumes "alive b a s T" and "mem_ok s w" and "buffer_read_index s + int (sum_list ns) \<le> buffer_size s"
  shows "\<exists>bss s'. c_reads P d (Some b) ns T w = Inr (bss, T\<lparr>objects := (objects T)(a \<mapsto> s')\<rparr>, w) \<and>
    map length bss = ns \<and> concat bss = slice (nat (buffer_read_index s)) (sum_list ns) (region_of s w)"
  using assms
proof (induction ns arbitrary: s T)
  case Nil
  then show ?case using alive_same [OF Nil.prems(1)] by (intro exI [of _ "[]"] exI [of _ s]) (simp del: fun_upd_apply)
next
  case (Cons n ns)
  let ?i = "nat (buffer_read_index s)"
  let ?s = "s\<lparr>buffer_read_index := buffer_read_index s + int n\<rparr>"
  let ?T = "T\<lparr>objects := (objects T)(a \<mapsto> ?s)\<rparr>" and ?bs = "slice ?i n (region_of s w)"
  have le: "buffer_read_index s + int n \<le> buffer_size s" using Cons.prems(3) by simp
  have ok: "0 \<le> buffer_read_index s" "buffer_size s = int (length (region_of s w))" "buffer_size s < 2 ^ 63"
    using Cons.prems(2) by (simp_all add: mem_ok_def)
  have lt: "length (replicate n (0 :: byte)) < 2 ^ 63" using le ok by simp
  have "readBytes P d (replicate n 0) s w = Inr (int n, ?bs, ?s, w)"
    using le mem_read [OF Cons.prems(2) lt] by (simp add: readBytes_def)
  then have rd: "io_serial_read_bytes P d (Some b) (Some (replicate n 0)) T w = Inr ((int n, Some ?bs), ?T, w)"
    using with_object_alive [OF Cons.prems(1), of "\<lambda>s w. bindE (readBytes P d (replicate n 0) s w)
        (\<lambda>(r, bs, s, w). Inr ((r, Some bs), s, w))"]
    by (simp add: io_serial_read_bytes_def)
  have m: "mem_ok ?s w" using mem_ok_read [OF Cons.prems(2) le] .
  have al: "alive b a ?s ?T" using alive_update [OF Cons.prems(1)] .
  have r: "region_of ?s w = region_of s w" by (simp add: region_of_def)
  have p: "buffer_read_index ?s + int (sum_list ns) \<le> buffer_size ?s" using Cons.prems(3) by simp
  obtain bss s' where IH: "c_reads P d (Some b) ns ?T w = Inr (bss, ?T\<lparr>objects := (objects ?T)(a \<mapsto> s')\<rparr>, w)"
      "map length bss = ns" "concat bss = slice (nat (buffer_read_index ?s)) (sum_list ns) (region_of s w)"
    using Cons.IH [OF al m p] unfolding r by blast
  have "nat (buffer_read_index ?s) = ?i + n" using ok(1) by simp
  then have "?bs @ concat bss = slice ?i (n + sum_list ns) (region_of s w)"
    using IH(3) slice_append_slice [of ?i n "region_of s w" "sum_list ns"] by simp
  moreover have "length ?bs = n" using le ok(1,2) by simp
  moreover have "c_reads P d (Some b) (n # ns) T w =
      Inr (?bs # bss, T\<lparr>objects := (objects T)(a \<mapsto> s')\<rparr>, w)"
    unfolding c_reads.simps rd bindE_Inr prod.case IH(1) by simp
  ultimately show ?case using IH(2) by (intro exI [of _ "?bs # bss"] exI [of _ s']) (simp del: c_reads.simps length_slice fun_upd_apply)
qed

text \<open>C19: chunks written through a handle over a buffer that is large enough are read back, in pieces of
  any other sizes, through a second handle over the same buffer; every write reports its size, and
  destroying both handles gives back every allocation.\<close>

theorem c_serial_roundtrip:
  fixes P :: "('b, 'p) platform" and w :: "('b, 'p) world"
  assumes "fresh_new pick" and "finite (dom (objects T))" and "finite (dom (handles T))"
    and "length (regions w a) = n" and "n < 2 ^ 63"
    and "length (concat bss) \<le> n" and "sum_list ns = length (concat bss)"
  shows "\<exists>b1 T1 b2 T2 T3 T4 T5 T6 w1 out.
    io_serial_create_buffer pick (int n) (Some a) T = (Some b1, T1) \<and>
    io_serial_create_buffer pick (int n) (Some a) T1 = (Some b2, T2) \<and>
    c_writes P d (Some b1) bss T2 w = Inr (map (\<lambda>bs. int (length bs)) bss, T3, w1) \<and>
    c_reads P d (Some b2) ns T3 w1 = Inr (out, T4, w1) \<and> concat out = concat bss \<and> map length out = ns \<and>
    io_serial_destroy (Some b1) T4 = Inr T5 \<and> io_serial_destroy (Some b2) T5 = Inr T6 \<and>
    handles T6 = handles T \<and> objects T6 = objects T"
proof -
  let ?s = "serial_buffer (int n) (Some a) False"
  obtain b1 a1 T1 where c1: "io_serial_create_buffer pick (int n) (Some a) T = (Some b1, T1)"
      "alive b1 a1 ?s T1" "handles T b1 = None" "objects T a1 = None"
      "T1 = T\<lparr>objects := (objects T)(a1 \<mapsto> ?s), handles := (handles T)(b1 \<mapsto> Some a1)\<rparr>"
    using c_create_alive [OF assms(1,2,3), of ?s] by (auto simp: io_serial_create_buffer_def)
  have fin: "finite (dom (objects T1))" "finite (dom (handles T1))" using assms(2,3) c1(5) by simp_all
  obtain b2 a2 T2 where c2: "io_serial_create_buffer pick (int n) (Some a) T1 = (Some b2, T2)"
      "alive b2 a2 ?s T2" "handles T1 b2 = None" "objects T1 a2 = None"
      "T2 = T1\<lparr>objects := (objects T1)(a2 \<mapsto> ?s), handles := (handles T1)(b2 \<mapsto> Some a2)\<rparr>"
    using c_create_alive [OF assms(1) fin, of ?s] by (auto simp: io_serial_create_buffer_def)
  have ne: "a1 \<noteq> a2" "b1 \<noteq> b2" using c1(2) c2(3,4) by (auto simp: alive_def)
  have al1: "alive b1 a1 ?s T2" using c1(2) c2(5) ne by (simp add: alive_def)
  have buf: "buffer_pointer ?s = Some a" "buffer_write_index ?s = 0" "buffer_read_index ?s = 0"
      "buffer_size ?s = int n" "region_of ?s v = regions v a" for v :: "('b, 'p) world"
    by (simp_all add: serial_buffer_def serial_default_def region_of_def)
  have m: "mem_ok ?s v" if "length (regions v a) = n" for v :: "('b, 'p) world"
    using that assms(5) by (simp add: mem_ok_def region_of_def serial_buffer_def serial_default_def)
  obtain s1 w1 where w1: "c_writes P d (Some b1) bss T2 w =
      Inr (map (\<lambda>bs. int (length bs)) bss, T2\<lparr>objects := (objects T2)(a1 \<mapsto> s1)\<rparr>, w1)"
      "regions w1 a = blit 0 (concat bss) (regions w a)"
    using c_writes_ok [OF al1 m [OF assms(4)], of bss P d] assms(6) by (auto simp: buf)
  let ?T3 = "T2\<lparr>objects := (objects T2)(a1 \<mapsto> s1)\<rparr>"
  have l: "length (regions w1 a) = n" using w1(2) assms(4,6) by (simp add: length_blit)
  have al2: "alive b2 a2 ?s ?T3" using c2(2) ne by (simp add: alive_def)
  obtain out s2 where r: "c_reads P d (Some b2) ns ?T3 w1 = Inr (out, ?T3\<lparr>objects := (objects ?T3)(a2 \<mapsto> s2)\<rparr>, w1)"
      "map length out = ns" "concat out = slice 0 (sum_list ns) (regions w1 a)"
    using c_reads_ok [OF al2 m [OF l], of ns P d] assms(6,7) by (auto simp: buf)
  have "concat out = concat bss"
    using r(3) w1(2) assms(7) by (simp add: blit_def)
  let ?T4 = "?T3\<lparr>objects := (objects ?T3)(a2 \<mapsto> s2)\<rparr>"
  have d1: "alive b1 a1 s1 ?T4" using al1 ne by (simp add: alive_def)
  let ?T5 = "?T4\<lparr>objects := (objects ?T4)(a1 := None), handles := (handles ?T4)(b1 := None)\<rparr>"
  have f1: "io_serial_destroy (Some b1) ?T4 = Inr ?T5"
    using c_destroy_alive [OF d1, of "\<lambda>x w. Inr w" "()"] by (simp add: io_serial_destroy_def)
  have d2: "alive b2 a2 s2 ?T5" using al2 ne by (simp add: alive_def)
  let ?T6 = "?T5\<lparr>objects := (objects ?T5)(a2 := None), handles := (handles ?T5)(b2 := None)\<rparr>"
  have f2: "io_serial_destroy (Some b2) ?T5 = Inr ?T6"
    using c_destroy_alive [OF d2, of "\<lambda>x w. Inr w" "()"] by (simp add: io_serial_destroy_def)
  have given: "handles ?T6 = handles T" "objects ?T6 = objects T"
    using c1(3-5) c2(3-5) ne by (auto simp: fun_eq_iff)
  show ?thesis
    using c1(1) c2(1) w1(1) r(1,2) \<open>concat out = concat bss\<close> f1 f2 given by blast
qed

theorem c_serial_roundtrip_witness:
  "\<exists>b1 T1 b2 T2 T3 T4 w1 out.
    io_serial_create_buffer first_new 64 (Some 0) empty_table = (Some b1, T1) \<and>
    io_serial_create_buffer first_new 64 (Some 0) T1 = (Some b2, T2) \<and>
    c_writes demo_platform 0 (Some b1) [[1, 2], [3]] T2 big_world = Inr ([2, 1], T3, w1) \<and>
    c_reads demo_platform 0 (Some b2) [1, 2] T3 w1 = Inr (out, T4, w1) \<and> concat out = [1, 2, 3]"
proof -
  have fin: "finite (dom (objects empty_table))" "finite (dom (handles empty_table))"
    by (simp_all add: empty_table_def)
  have r: "length (regions big_world 0) = 64" by (simp add: big_world_def)
  from c_serial_roundtrip [OF first_new_fresh fin r, of "[[1, 2], [3]]" "[1, 2]" demo_platform 0]
  show ?thesis by (simp del: c_writes.simps c_reads.simps) blast
qed

section \<open>Bits through the C functions\<close>

text \<open>
  No function makes a handle over a buffer, or one that counts, with a bit stream, and on a handle
  without one \<open>io_serial_write_bits\<close> throws, which it does not catch.
\<close>

lemma c_objects_no_bits:
  "\<not> bitStream serial_default" "\<not> bitStream (serial_buffer n p False)" "\<not> bitStream (serial_count c)"
  by (simp_all add: serial_default_def serial_buffer_def serial_count_def)

lemma c_write_bits_throws:
  assumes "alive b a s T" and "\<not> bitStream s"
  shows "io_serial_write_bits P d (Some b) (Some bits) index count T w =
    Inl (Runtime_error ''writeBits called and Serial is not a bitStream'')"
  using assms by (simp add: io_serial_write_bits_def with_object_def c_deref_alive writeBits_def)

end
