(* ===== verification/C_Http.thy ===== *)
theory C_Http
  imports C_Common Http_Client
begin

text \<open>
  The \<open>io_http_\<close> functions of c_api.cpp, the addresses and the version: exceptions become responses, and
  every string of a response is a block the caller gives back.
\<close>

section \<open>Responses\<close>

text \<open>The fields of \<open>io_http_response_t\<close>: pointers to blocks, and the size of the body.\<close>

record io_http_response =
  r_protocol :: nat
  r_version :: nat
  r_status_code :: nat
  r_status_text :: nat
  r_headers_json :: nat
  r_body :: nat
  r_body_size :: nat

text \<open>The header fields in the order the map is gone through; nothing is escaped.\<close>

fun json_fields :: "bool \<Rightarrow> (string \<times> string) list \<Rightarrow> string" where
  "json_fields first [] = []"
| "json_fields first ((k, v) # hs) =
     (if first then [] else '','') @ [CHR 0x22] @ k @ [CHR 0x22] @ '':'' @ [CHR 0x22] @ v @ [CHR 0x22] @
     json_fields False hs"

definition headers_to_json :: "(string \<times> string) list \<Rightarrow> string" where
  "headers_to_json hs = ''{'' @ json_fields True hs @ ''}''"

definition copy_body :: "malloc \<Rightarrow> body \<Rightarrow> blocks \<Rightarrow> (nat \<times> nat \<times> blocks) cpp" where
  "copy_body al b h = (case b of
     (n, Some m) \<Rightarrow> if n > 0 then
         (if length m < n then Inl Out_of_bounds
          else case al (wrap64 (int n + 1)) h of
            None \<Rightarrow> Inl Null_deref
          | Some a \<Rightarrow> Inr (a, n, h(a \<mapsto> take n m @ [0])))
       else bindE (copy_c_string al [] h) (\<lambda>(a, h). Inr (a, 0, h))
   | (n, None) \<Rightarrow> bindE (copy_c_string al [] h) (\<lambda>(a, h). Inr (a, 0, h)))"

text \<open>
  \<open>order\<close> is the order in which the header map is iterated.  A response's maps are functions, so the
  list of its fields is an argument too.
\<close>

definition make_http_response ::
  "malloc \<Rightarrow> (http_response \<Rightarrow> (string \<times> string) list) \<Rightarrow> http_response \<Rightarrow> blocks \<Rightarrow>
   (io_http_response \<times> blocks) cpp" where
  "make_http_response al order r h =
     bindE (copy_c_string al (protocol r) h) (\<lambda>(p, h).
     bindE (copy_c_string al (version r) h) (\<lambda>(v, h).
     bindE (copy_c_string al (statusCode r) h) (\<lambda>(c, h).
     bindE (copy_c_string al (statusText r) h) (\<lambda>(t, h).
     bindE (copy_c_string al (headers_to_json (order r)) h) (\<lambda>(j, h).
     bindE (copy_body al (body r) h) (\<lambda>(b, n, h).
       Inr (\<lparr>r_protocol = p, r_version = v, r_status_code = c, r_status_text = t,
              r_headers_json = j, r_body = b, r_body_size = n\<rparr>, h)))))))"

definition make_http_error_response :: "malloc \<Rightarrow> string option \<Rightarrow> blocks \<Rightarrow> (io_http_response \<times> blocks) cpp" where
  "make_http_error_response al msg h =
     bindE (copy_c_string al ''error'' h) (\<lambda>(p, h).
     bindE (copy_c_string al [] h) (\<lambda>(v, h).
     bindE (copy_c_string al ''0'' h) (\<lambda>(c, h).
     bindE (copy_c_string al (case msg of Some m \<Rightarrow> m | None \<Rightarrow> ''Unknown error'') h) (\<lambda>(t, h).
     bindE (copy_c_string al ''{}'' h) (\<lambda>(j, h).
     bindE (copy_c_string al [] h) (\<lambda>(b, h).
       Inr (\<lparr>r_protocol = p, r_version = v, r_status_code = c, r_status_text = t,
              r_headers_json = j, r_body = b, r_body_size = 0\<rparr>, h)))))))"

definition io_http_response_free :: "io_http_response option \<Rightarrow> blocks \<Rightarrow> blocks cpp" where
  "io_http_response_free p h = (case p of
     None \<Rightarrow> Inr h
   | Some r \<Rightarrow>
       bindE (c_free (Some (r_protocol r)) h) (\<lambda>h.
       bindE (c_free (Some (r_version r)) h) (\<lambda>h.
       bindE (c_free (Some (r_status_code r)) h) (\<lambda>h.
       bindE (c_free (Some (r_status_text r)) h) (\<lambda>h.
       bindE (c_free (Some (r_headers_json r)) h) (\<lambda>h.
         c_free (Some (r_body r)) h))))))"

section \<open>Requests\<close>

text \<open>\<open>restSync\<close> as the C functions call it: verb, address, header fields and body.\<close>

type_synonym rest = "string \<Rightarrow> string \<Rightarrow> (string \<times> string) list \<Rightarrow> body \<Rightarrow> http_response cpp"

definition respond ::
  "malloc \<Rightarrow> (http_response \<Rightarrow> (string \<times> string) list) \<Rightarrow> http_response cpp \<Rightarrow> blocks \<Rightarrow>
   (io_http_response \<times> blocks) cpp" where
  "respond al order m h = (case m of
     Inr r \<Rightarrow> catching (make_http_response al order r h) (\<lambda>t. make_http_error_response al (Some t) h)
   | Inl e \<Rightarrow> (case exception_text e of
       Some t \<Rightarrow> make_http_error_response al (Some t) h
     | None \<Rightarrow> Inl e))"

text \<open>The caller's body: a pointer to memory and a size.\<close>

definition request_body :: "byte list option \<Rightarrow> nat \<Rightarrow> body cpp" where
  "request_body b n = (case b of
     Some m \<Rightarrow> if n > 0 then (if length m < n then Inl Out_of_bounds else Inr (n, Some (take n m))) else Inr (0, None)
   | None \<Rightarrow> Inr (0, None))"

definition io_http_get ::
  "malloc \<Rightarrow> (http_response \<Rightarrow> (string \<times> string) list) \<Rightarrow> rest \<Rightarrow> string option \<Rightarrow> blocks \<Rightarrow>
   (io_http_response \<times> blocks) cpp" where
  "io_http_get al order rest url h = (case url of
     None \<Rightarrow> make_http_error_response al (Some ''NULL URL'') h
   | Some u \<Rightarrow> respond al order (rest ''GET'' u [] (0, None)) h)"

definition io_http_post ::
  "malloc \<Rightarrow> (http_response \<Rightarrow> (string \<times> string) list) \<Rightarrow> rest \<Rightarrow> string option \<Rightarrow> byte list option \<Rightarrow> nat \<Rightarrow>
   blocks \<Rightarrow> (io_http_response \<times> blocks) cpp" where
  "io_http_post al order rest url b n h = (case url of
     None \<Rightarrow> make_http_error_response al (Some ''NULL URL'') h
   | Some u \<Rightarrow> respond al order (bindE (request_body b n) (\<lambda>bd. rest ''POST'' u [] bd)) h)"

definition io_http_put ::
  "malloc \<Rightarrow> (http_response \<Rightarrow> (string \<times> string) list) \<Rightarrow> rest \<Rightarrow> string option \<Rightarrow> byte list option \<Rightarrow> nat \<Rightarrow>
   blocks \<Rightarrow> (io_http_response \<times> blocks) cpp" where
  "io_http_put al order rest url b n h = (case url of
     None \<Rightarrow> make_http_error_response al (Some ''NULL URL'') h
   | Some u \<Rightarrow> respond al order (bindE (request_body b n) (\<lambda>bd. rest ''PUT'' u [] bd)) h)"

definition io_http_delete ::
  "malloc \<Rightarrow> (http_response \<Rightarrow> (string \<times> string) list) \<Rightarrow> rest \<Rightarrow> string option \<Rightarrow> blocks \<Rightarrow>
   (io_http_response \<times> blocks) cpp" where
  "io_http_delete al order rest url h = (case url of
     None \<Rightarrow> make_http_error_response al (Some ''NULL URL'') h
   | Some u \<Rightarrow> respond al order (rest ''DELETE'' u [] (0, None)) h)"

text \<open>
  The caller's header fields, \<open>None\<close> for a null array: a later value of a key replaces an earlier one.
  \<open>sequence\<close> is the order in which the map is iterated.
\<close>

definition set_header :: "string \<times> string \<Rightarrow> (string \<times> string) list \<Rightarrow> (string \<times> string) list" where
  "set_header kv hs = (if fst kv \<in> fst ` set hs then map (\<lambda>x. if fst x = fst kv then kv else x) hs else hs @ [kv])"

definition request_headers :: "(string \<times> string) list option \<Rightarrow> (string \<times> string) list" where
  "request_headers hs = (case hs of None \<Rightarrow> [] | Some hs \<Rightarrow> fold set_header hs [])"

definition io_http_request ::
  "malloc \<Rightarrow> (http_response \<Rightarrow> (string \<times> string) list) \<Rightarrow> rest \<Rightarrow>
   ((string \<times> string) list \<Rightarrow> (string \<times> string) list) \<Rightarrow> string option \<Rightarrow> string option \<Rightarrow>
   (string \<times> string) list option \<Rightarrow> byte list option \<Rightarrow> nat \<Rightarrow> blocks \<Rightarrow>
   (io_http_response \<times> blocks) cpp" where
  "io_http_request al order rest sequence method url hs b n h =
     (case method of
        None \<Rightarrow> make_http_error_response al (Some ''NULL method or URL'') h
      | Some m \<Rightarrow> (case url of
          None \<Rightarrow> make_http_error_response al (Some ''NULL method or URL'') h
        | Some u \<Rightarrow> respond al order (bindE (request_body b n)
            (\<lambda>bd. rest m u (sequence (request_headers hs)) bd)) h))"

section \<open>Addresses and the version\<close>

definition io_string_is_ipv4 :: "string option \<Rightarrow> int cpp" where
  "io_string_is_ipv4 s = (case s of
     None \<Rightarrow> Inr 0
   | Some s \<Rightarrow> bindE (string_is_ipv4 s) (\<lambda>x. Inr (of_bool x)))"

text \<open>A string result, or null when there is an exception.\<close>

definition string_or_null :: "malloc \<Rightarrow> string cpp \<Rightarrow> blocks \<Rightarrow> (nat option \<times> blocks) cpp" where
  "string_or_null al m h =
     catching (bindE m (\<lambda>s. bindE (copy_c_string al s h) (\<lambda>(a, h). Inr (Some a, h)))) (\<lambda>_. Inr (None, h))"

definition io_get_local_ip :: "malloc \<Rightarrow> string cpp \<Rightarrow> blocks \<Rightarrow> (nat option \<times> blocks) cpp" where
  "io_get_local_ip al local_ip h = string_or_null al local_ip h"

definition io_resolve_host_to_ip ::
  "malloc \<Rightarrow> (string \<Rightarrow> string list) \<Rightarrow> string option \<Rightarrow> blocks \<Rightarrow> (nat option \<times> blocks) cpp" where
  "io_resolve_host_to_ip al queryA host h = (case host of
     None \<Rightarrow> Inr (None, h)
   | Some s \<Rightarrow> string_or_null al (resolve_host_or_ip_to_ip queryA s) h)"

section \<open>Nothing is lost\<close>

lemma copy_body_ok:
  assumes "fresh_malloc al" and "copy_body al b h = Inr (a, n, h')"
  shows "h a = None \<and> (\<exists>m. h' = h(a \<mapsto> m @ [0]) \<and> length m = n \<and>
    (case b of (k, Some x) \<Rightarrow> m = take k x | (k, None) \<Rightarrow> m = []))"
  using assms copy_c_string_ok [OF assms(1), of "[]" h]
  by (auto simp: copy_body_def fresh_malloc_def bindE_eq_Inr string_bytes_def
      split: option.splits if_splits prod.splits)

lemma c_free_last: "h a = None \<Longrightarrow> c_free (Some a) (h(a \<mapsto> m)) = Inr h"
  by (auto simp: c_free_def)

lemma c_free_other:
  "a \<noteq> b \<Longrightarrow> c_free (Some a) (h(b \<mapsto> m)) = bindE (c_free (Some a) h) (\<lambda>h. Inr (h(b \<mapsto> m)))"
  by (auto simp: c_free_def fun_upd_twist)

lemma fresh_update: "(h(a \<mapsto> m)) b = None \<longleftrightarrow> b \<noteq> a \<and> h b = None"
  by simp

lemma copy_body_size:
  "copy_body al b h = Inr (a, n, h') \<Longrightarrow> (case b of (k, Some x) \<Rightarrow> n = k | (k, None) \<Rightarrow> n = 0)"
  by (auto simp: copy_body_def bindE_eq_Inr split: option.splits if_splits prod.splits)

lemma free_six:
  assumes "h p = None" "h v = None" "h c = None" "h t = None" "h j = None" "h b = None"
    and "distinct [p, v, c, t, j, b]"
  shows "io_http_response_free (Some \<lparr>r_protocol = p, r_version = v, r_status_code = c, r_status_text = t,
      r_headers_json = j, r_body = b, r_body_size = n\<rparr>)
      (h(p \<mapsto> m1, v \<mapsto> m2, c \<mapsto> m3, t \<mapsto> m4, j \<mapsto> m5, b \<mapsto> m6)) = Inr h"
  using assms by (auto simp: io_http_response_free_def c_free_def fun_eq_iff)


text \<open>An allocator over ten addresses that gives the first one not in use.\<close>

definition demo_malloc :: malloc where
  "demo_malloc n h = (case filter (\<lambda>a. h a = None) [0..<10] of [] \<Rightarrow> None | a # as \<Rightarrow> Some a)"

lemma demo_malloc_fresh: "fresh_malloc demo_malloc"
  unfolding fresh_malloc_def demo_malloc_def
  by (auto split: list.splits) (metis (mono_tags, lifting) filter_eq_Cons_iff)

definition demo_response :: http_response where
  "demo_response = \<lparr>protocol = ''HTTP/'', version = ''1.1'', statusCode = ''200'', statusText = ''OK'',
     headers = Map.empty, body = (2, Some [104, 105, 0])\<rparr>"


end
