(* ===== verification/Archive.thy ===== *)
theory Archive
  imports Iostream
begin

text \<open>
  \<open>archive_stream\<close> of archive_stream.cpp: the entries of an archive as a stream over a growing buffer.
  libarchive and the file system are an argument of the model.
\<close>

section \<open>The buffer\<close>

text \<open>
  \<open>MemoryBuffer\<close>: the vector \<open>data\<close> is the first \<open>vsize\<close> bytes of \<open>store\<close>, whose length is the
  capacity; \<open>gen\<close> counts its reallocations.  The get area, once set, is a storage with two positions
  in it; it is left alone when the vector changes.  The field \<open>pos\<close> is never read.
\<close>

record archbuf =
  store :: "byte list"
  vsize :: nat
  gen :: nat
  garea :: "(nat \<times> nat \<times> nat) option"
  dirty :: bool

definition archbuf_ctor :: archbuf where
  "archbuf_ctor = \<lparr>store = replicate 4096 0, vsize = 0, gen = 0, garea = None, dirty = True\<rparr>"

text \<open>
  \<open>push_back\<close> and \<open>resize\<close>; the capacity after a reallocation is the library's choice, \<open>grow\<close> of the
  length needed.
\<close>

definition vector_realloc :: "(nat \<Rightarrow> nat) \<Rightarrow> byte list \<Rightarrow> archbuf \<Rightarrow> archbuf" where
  "vector_realloc grow d b = b\<lparr>store := d @ replicate (grow (length d) - length d) 0,
     vsize := length d, gen := Suc (gen b)\<rparr>"

definition vector_push_back :: "(nat \<Rightarrow> nat) \<Rightarrow> byte \<Rightarrow> archbuf \<Rightarrow> archbuf" where
  "vector_push_back grow c b =
     (if vsize b < length (store b) then b\<lparr>store := (store b)[vsize b := c], vsize := Suc (vsize b)\<rparr>
      else vector_realloc grow (take (vsize b) (store b) @ [c]) b)"

definition vector_clear :: "archbuf \<Rightarrow> archbuf" where
  "vector_clear b = b\<lparr>vsize := 0\<rparr>"

definition vector_resize :: "(nat \<Rightarrow> nat) \<Rightarrow> nat \<Rightarrow> archbuf \<Rightarrow> archbuf" where
  "vector_resize grow n b =
     (if n \<le> length (store b) then
        b\<lparr>store := (if vsize b < n then blit (vsize b) (replicate (n - vsize b) 0) (store b) else store b),
          vsize := n\<rparr>
      else vector_realloc grow (take (vsize b) (store b) @ replicate (n - vsize b) 0) b)"

definition vector_data :: "archbuf \<Rightarrow> byte list" where
  "vector_data b = take (vsize b) (store b)"

text \<open>\<open>overflow\<close> and \<open>underflow\<close>; the end of file is \<open>None\<close>.  Reading through the get area of a storage
  that was given up is undefined.\<close>

definition archive_overflow :: "(nat \<Rightarrow> nat) \<Rightarrow> byte option \<Rightarrow> archbuf \<Rightarrow> byte option \<times> archbuf" where
  "archive_overflow grow ch b =
     (ch, case ch of None \<Rightarrow> b | Some c \<Rightarrow> vector_push_back grow c b)"

definition area_byte :: "nat \<times> nat \<times> nat \<Rightarrow> archbuf \<Rightarrow> byte cpp" where
  "area_byte a b = (case a of (g, p, e) \<Rightarrow>
     if g \<noteq> gen b \<or> length (store b) \<le> p then Inl Dangling else Inr (store b ! p))"

definition archive_underflow :: "archbuf \<Rightarrow> (byte option \<times> archbuf) cpp" where
  "archive_underflow b =
     (if garea b = None \<or> dirty b then
        (let b = b\<lparr>dirty := False\<rparr>
         in if vsize b = 0 then Inr (None, b)
            else bindE (area_byte (gen b, 0, vsize b) b) (\<lambda>c.
              Inr (Some c, b\<lparr>garea := Some (gen b, 0, vsize b)\<rparr>)))
      else case garea b of
        None \<Rightarrow> Inr (None, b)
      | Some (g, p, e) \<Rightarrow>
          if p \<ge> e then Inr (None, b)
          else bindE (area_byte (g, p, e) b) (\<lambda>c. Inr (Some c, b)))"

definition reset_read :: "archbuf \<Rightarrow> archbuf" where
  "reset_read b = b\<lparr>dirty := True\<rparr>"

text \<open>
  What \<open>std::streambuf\<close> itself adds: \<open>sgetc\<close>, \<open>uflow\<close>, and the block operations, which take what the get
  area holds and then call \<open>uflow\<close>, or call \<open>overflow\<close> for each byte.  After two calls of \<open>uflow\<close> the area
  is used up and up to date, so three rounds are enough.
\<close>

definition archive_sgetc :: "archbuf \<Rightarrow> (byte option \<times> archbuf) cpp" where
  "archive_sgetc b = (case garea b of
     Some (g, p, e) \<Rightarrow> if p < e then bindE (area_byte (g, p, e) b) (\<lambda>c. Inr (Some c, b))
       else archive_underflow b
   | None \<Rightarrow> archive_underflow b)"

definition area_skip :: "nat \<Rightarrow> archbuf \<Rightarrow> archbuf" where
  "area_skip n b = b\<lparr>garea := map_option (\<lambda>(g, p, e). (g, p + n, e)) (garea b)\<rparr>"

definition archive_uflow :: "archbuf \<Rightarrow> (byte option \<times> archbuf) cpp" where
  "archive_uflow b = bindE (archive_underflow b) (\<lambda>(c, b).
     Inr (c, if c = None then b else area_skip 1 b))"

definition archive_sbumpc :: "archbuf \<Rightarrow> (byte option \<times> archbuf) cpp" where
  "archive_sbumpc b = (case garea b of
     Some (g, p, e) \<Rightarrow> if p < e then bindE (area_byte (g, p, e) b) (\<lambda>c. Inr (Some c, area_skip 1 b))
       else archive_uflow b
   | None \<Rightarrow> archive_uflow b)"

definition area_take :: "nat \<Rightarrow> archbuf \<Rightarrow> (byte list \<times> archbuf) cpp" where
  "area_take n b = (case garea b of
     None \<Rightarrow> Inr ([], b)
   | Some (g, p, e) \<Rightarrow>
       (let k = min n (e - p)
        in if k = 0 then Inr ([], b)
           else if g \<noteq> gen b \<or> length (store b) < p + k then Inl Dangling
           else Inr (slice p k (store b), area_skip k b)))"

definition archive_xsgetn :: "nat \<Rightarrow> archbuf \<Rightarrow> (byte list \<times> archbuf) cpp" where
  "archive_xsgetn n b = default_xsgetn area_take archive_uflow 3 n b"

definition archive_xsputn :: "(nat \<Rightarrow> nat) \<Rightarrow> byte list \<Rightarrow> archbuf \<Rightarrow> (nat \<times> archbuf) cpp" where
  "archive_xsputn grow bs b =
     Inr (length bs, fold (\<lambda>c b. snd (archive_overflow grow (Some c) b)) bs b)"

text \<open>\<open>seekoff\<close> and \<open>seekpos\<close> of \<open>std::streambuf\<close> fail.\<close>

definition archive_vtable :: "(nat \<Rightarrow> nat) \<Rightarrow> archbuf vtable" where
  "archive_vtable grow = \<lparr>sgetn = archive_xsgetn, sputn = archive_xsputn grow,
     in_avail = (\<lambda>b. case garea b of Some (g, p, e) \<Rightarrow> int (e - p) | None \<Rightarrow> 0),
     sseekoff = (\<lambda>off way which b. Inr (-1, b)), sseekpos = (\<lambda>p which b. Inr (-1, b))\<rparr>"

section \<open>libarchive\<close>

text \<open>
  An archive opened for reading is an error text or the entries its headers announce, in order, with
  their paths, sizes and data; writing goes to the one archive opened for writing.  The results of
  the calls that write are not looked at.
\<close>

record arc_entry =
  ae_path :: string
  ae_size :: nat
  ae_data :: "byte list"

record 'a libarchive =
  arc_read :: "string \<Rightarrow> 'a \<Rightarrow> string + arc_entry list"
  arc_write_open :: "string \<Rightarrow> 'a \<Rightarrow> string option \<times> 'a"
  arc_write_entry :: "string \<Rightarrow> byte list \<Rightarrow> 'a \<Rightarrow> 'a"
  arc_write_close :: "string \<Rightarrow> 'a \<Rightarrow> 'a"

section \<open>The stream\<close>

record archive_stream =
  arc_writer :: bool
  arc_entry_name :: "string option"
  arc_mode :: openmode
  archivePath :: string
  entryName :: string
  arc_ios :: "archbuf stream"

definition arc_buffer :: "archive_stream \<Rightarrow> archbuf" where
  "arc_buffer st = rdbuf (arc_ios st)"

definition set_arc_buffer :: "archbuf \<Rightarrow> archive_stream \<Rightarrow> archive_stream" where
  "set_arc_buffer b st = st\<lparr>arc_ios := (arc_ios st)\<lparr>rdbuf := b\<rparr>\<rparr>"

definition init_reader :: "archive_stream \<Rightarrow> archive_stream" where
  "init_reader st = st\<lparr>arc_writer := False\<rparr>"

definition init_writer :: "'a libarchive \<Rightarrow> archive_stream \<Rightarrow> 'a \<Rightarrow> archive_stream cpp \<times> 'a" where
  "init_writer A st a = (case arc_write_open A (archivePath st) a of
     (Some msg, a) \<Rightarrow> (Inl (Runtime_error msg), a)
   | (None, a) \<Rightarrow> (Inr (st\<lparr>arc_writer := True\<rparr>), a))"

definition archive_ctor ::
  "'a libarchive \<Rightarrow> string \<Rightarrow> openmode \<Rightarrow> 'a \<Rightarrow> archive_stream cpp \<times> 'a" where
  "archive_ctor A path mode a =
     (let st = \<lparr>arc_writer = False, arc_entry_name = None, arc_mode = mode, archivePath = path,
        entryName = [], arc_ios = mk_stream archbuf_ctor\<rparr>;
          st = (if m_in mode then init_reader st else st)
      in if m_out mode then init_writer A st a else (Inr st, a))"

definition flush_write :: "'a libarchive \<Rightarrow> archive_stream \<Rightarrow> 'a \<Rightarrow> 'a" where
  "flush_write A st a = (case arc_entry_name st of
     Some n \<Rightarrow> arc_write_entry A n (vector_data (arc_buffer st)) a
   | None \<Rightarrow> a)"

definition archive_destroy :: "'a libarchive \<Rightarrow> archive_stream \<Rightarrow> 'a \<Rightarrow> 'a" where
  "archive_destroy A st a =
     (let a = (if m_out (arc_mode st) \<and> arc_entry_name st \<noteq> None then flush_write A st a else a)
      in if arc_writer st \<and> \<not> m_in (arc_mode st) \<and> m_out (arc_mode st)
         then arc_write_close A (archivePath st) a else a)"

definition list_entries :: "'a libarchive \<Rightarrow> archive_stream \<Rightarrow> 'a \<Rightarrow> string list cpp" where
  "list_entries A st a =
     (if \<not> m_in (arc_mode st) then Inl (Runtime_error ''list_entries is only available in read mode'')
      else case arc_read A (archivePath st) a of
        Inl msg \<Rightarrow> Inl (Runtime_error msg)
      | Inr es \<Rightarrow> Inr (map ae_path es))"

text \<open>
  The loop over the headers: the first entry of the name.  \<open>archive_read_data\<close> fills the vector,
  resized to the size the header gives, with as much as there is.
\<close>

fun find_entry :: "string \<Rightarrow> arc_entry list \<Rightarrow> arc_entry option" where
  "find_entry n [] = None"
| "find_entry n (e # es) = (if n = ae_path e then Some e else find_entry n es)"

definition fill_vector :: "(nat \<Rightarrow> nat) \<Rightarrow> arc_entry \<Rightarrow> archbuf \<Rightarrow> archbuf" where
  "fill_vector grow e b = (let b = vector_resize grow (ae_size e) b
     in b\<lparr>store := blit 0 (take (ae_size e) (ae_data e)) (store b)\<rparr>)"

text \<open>When the archive cannot be opened the handle is freed before its error text is asked for.\<close>

definition set_entry ::
  "'a libarchive \<Rightarrow> (nat \<Rightarrow> nat) \<Rightarrow> string \<Rightarrow> archive_stream \<Rightarrow> 'a \<Rightarrow> (unit cpp \<times> archive_stream \<times> 'a)" where
  "set_entry A grow name st a =
     (let flushing = (m_out (arc_mode st) \<and> arc_entry_name st \<noteq> None);
          a = (if flushing then flush_write A st a else a);
          st = (if flushing then st\<lparr>arc_entry_name := None\<rparr> else st);
          st = (set_arc_buffer ((vector_clear (arc_buffer st))\<lparr>dirty := True\<rparr>) st)\<lparr>entryName := name\<rparr>
      in if m_in (arc_mode st) then
           (case arc_read A (archivePath st) a of
              Inl msg \<Rightarrow> (Inl Dangling, st, a)
            | Inr es \<Rightarrow> (case find_entry name es of
                None \<Rightarrow> (Inl (Runtime_error (''Entry not found in archive: '' @ name)), st, a)
              | Some e \<Rightarrow> (Inr (), set_arc_buffer (fill_vector grow e (arc_buffer st)) st, a)))
         else if m_out (arc_mode st) then (Inr (), st\<lparr>arc_entry_name := Some name\<rparr>, a)
         else (Inr (), st, a))"

text \<open>
  \<open>get_entry_string\<close> goes over the buffer with \<open>std::istreambuf_iterator\<close>, byte by byte; the number
  bounds the bytes.
\<close>

fun drain_buffer :: "nat \<Rightarrow> archbuf \<Rightarrow> (byte list \<times> archbuf) cpp" where
  "drain_buffer 0 b = Inl Out_of_fuel"
| "drain_buffer (Suc f) b =
     bindE (archive_sgetc b) (\<lambda>(c, b).
       (case c of
          None \<Rightarrow> Inr ([], b)
        | Some x \<Rightarrow> bindE (archive_sbumpc b) (\<lambda>(_, b).
            bindE (drain_buffer f b) (\<lambda>(xs, b). Inr (x # xs, b)))))"

definition get_entry_string :: "nat \<Rightarrow> archive_stream \<Rightarrow> (byte list \<times> archive_stream) cpp" where
  "get_entry_string f st = bindE (drain_buffer f (arc_buffer st)) (\<lambda>(bs, b). Inr (bs, set_arc_buffer b st))"

definition archive_write :: "(nat \<Rightarrow> nat) \<Rightarrow> byte list \<Rightarrow> archive_stream \<Rightarrow> archive_stream cpp" where
  "archive_write grow bs st = bindE (ostream_write (archive_vtable grow) bs (arc_ios st)) (\<lambda>s.
     Inr (st\<lparr>arc_ios := s\<rparr>))"

definition archive_read :: "(nat \<Rightarrow> nat) \<Rightarrow> nat \<Rightarrow> archive_stream \<Rightarrow> (byte list \<times> archive_stream) cpp" where
  "archive_read grow n st = bindE (istream_read (archive_vtable grow) n (arc_ios st)) (\<lambda>(bs, s).
     Inr (bs, st\<lparr>arc_ios := s\<rparr>))"

section \<open>Writing an entry\<close>

definition vector_ok :: "archbuf \<Rightarrow> bool" where
  "vector_ok b \<longleftrightarrow> vsize b \<le> length (store b)"

lemma vector_push_back_data:
  "vector_ok b \<Longrightarrow> vector_ok (vector_push_back grow c b) \<and>
   vector_data (vector_push_back grow c b) = vector_data b @ [c]"
  by (auto simp: vector_ok_def vector_push_back_def vector_realloc_def vector_data_def
      take_Suc_conv_app_nth take_update_cancel)

lemma archive_xsputn_data:
  assumes "vector_ok b"
  shows "\<exists>b'. archive_xsputn grow bs b = Inr (length bs, b') \<and> vector_ok b' \<and>
    vector_data b' = vector_data b @ bs"
proof -
  have "vector_ok (fold (\<lambda>c b. snd (archive_overflow grow (Some c) b)) bs b) \<and>
      vector_data (fold (\<lambda>c b. snd (archive_overflow grow (Some c) b)) bs b) = vector_data b @ bs"
    using assms
  proof (induction bs arbitrary: b)
    case (Cons c bs)
    note p = vector_push_back_data [OF Cons.prems, of grow c]
    show ?case using Cons.IH [OF conjunct1 [OF p]] p by (simp add: archive_overflow_def)
  qed simp
  then show ?thesis by (simp add: archive_xsputn_def)
qed

interpretation archive_sink: byte_sink "archive_vtable grow" vector_data "\<lambda>_. 2 ^ 31" vector_ok for grow
proof
  fix b and bs :: "byte list"
  assume "vector_ok b"
  from archive_xsputn_data [OF this, of grow bs]
  show "\<exists>b'. sputn (archive_vtable grow) bs b = Inr (length bs, b') \<and> vector_ok b' \<and>
      vector_data b' = vector_data b @ bs \<and> (2 :: nat) ^ 31 \<le> 2 ^ 31 + length bs"
    by (simp add: archive_vtable_def)
qed

section \<open>Reading an entry\<close>

text \<open>A get area inside the present storage, and one that is used up.\<close>

definition area_ok :: "archbuf \<Rightarrow> bool" where
  "area_ok b \<longleftrightarrow> (\<forall>g p e. garea b = Some (g, p, e) \<longrightarrow> p < e \<longrightarrow> g = gen b \<and> e \<le> length (store b))"

definition spent :: "archbuf \<Rightarrow> bool" where
  "spent b \<longleftrightarrow> (\<forall>g p e. garea b = Some (g, p, e) \<longrightarrow> e \<le> p)"

lemma area_skip_simps [simp]:
  "store (area_skip n b) = store b" "vsize (area_skip n b) = vsize b" "gen (area_skip n b) = gen b"
  "dirty (area_skip n b) = dirty b" "area_skip 0 b = b"
  "garea (area_skip n b) = map_option (\<lambda>(g, p, e). (g, p + n, e)) (garea b)"
  by (cases "garea b"; simp add: area_skip_def case_prod_unfold)+

lemma area_skip_skip: "area_skip m (area_skip n b) = area_skip (n + m) b"
  by (simp add: area_skip_def option.map_comp o_def case_prod_unfold ac_simps)

lemma drain_area:
  assumes "garea b = Some (gen b, p, e)" and "p \<le> e" and "e \<le> length (store b)"
  shows "drain_buffer (e - p + f) b = bindE (drain_buffer f (area_skip (e - p) b)) (\<lambda>(xs, b').
    Inr (slice p (e - p) (store b) @ xs, b'))"
  using assms
proof (induction "e - p" arbitrary: p b)
  case 0
  then show ?case by (cases "drain_buffer f b") auto
next
  case (Suc k)
  then have lt: "p < e" "p < length (store b)" by auto
  have byte: "area_byte (gen b, p, e) b = Inr (store b ! p)" using lt by (simp add: area_byte_def)
  have n: "e - p + f = Suc (k + f)" and k: "k = e - Suc p" using Suc.hyps(2) lt by auto
  have step: "drain_buffer (Suc (k + f)) b =
      bindE (drain_buffer (k + f) (area_skip 1 b)) (\<lambda>(xs, b'). Inr (store b ! p # xs, b'))"
    using lt(1) byte by (simp add: archive_sgetc_def archive_sbumpc_def Suc.prems(1))
  have ih: "drain_buffer (k + f) (area_skip 1 b) =
      bindE (drain_buffer f (area_skip (Suc k) b)) (\<lambda>(xs, b'). Inr (slice (Suc p) k (store b) @ xs, b'))"
    using Suc.hyps(1) [of "Suc p" "area_skip 1 b"] Suc.prems lt k
    by (simp add: area_skip_skip)
  have sl: "slice p (Suc k) (store b) = store b ! p # slice (Suc p) k (store b)"
    using lt(2) by (simp add: slice_def Cons_nth_drop_Suc [symmetric])
  show ?case unfolding n unfolding step ih unfolding Suc.hyps(2) [symmetric] sl
    by (cases "drain_buffer f (area_skip (Suc k) b)") auto
qed

lemma drain_current:
  assumes "spent b" and "\<not> dirty b" and "garea b \<noteq> None"
  shows "drain_buffer (Suc f) b = Inr ([], b)"
  using assms by (cases "garea b") (auto simp: spent_def archive_sgetc_def archive_underflow_def)

text \<open>A used-up area over a fresh vector is set to the whole of it.\<close>

lemma drain_fresh:
  assumes "vector_ok b" and "spent b" and "dirty b" and "vsize b < f"
  shows "\<exists>b'. drain_buffer f b = Inr (vector_data b, b') \<and> spent b' \<and> vector_ok b'"
proof (cases "vsize b = 0")
  case True
  obtain g where f: "f = Suc g" using assms(4) by (cases f) auto
  have "archive_sgetc b = Inr (None, b\<lparr>dirty := False\<rparr>)"
    using assms(2,3) True
    by (auto simp: spent_def archive_sgetc_def archive_underflow_def split: option.splits prod.splits)
  then show ?thesis using f True assms(1,2) by (simp add: vector_data_def spent_def vector_ok_def)
next
  case False
  let ?b = "b\<lparr>dirty := False, garea := Some (gen b, 0, vsize b)\<rparr>"
  obtain g where f: "f = vsize b + Suc g" using assms(4) less_imp_Suc_add [of "vsize b" f] by auto
  have st: "store b \<noteq> []" using assms(1) False by (auto simp: vector_ok_def)
  then have u: "archive_underflow b = Inr (Some (store b ! 0), ?b)"
    using assms(3) False by (simp add: archive_underflow_def area_byte_def Let_def)
  have "archive_sgetc b = Inr (Some (store b ! 0), ?b)"
    using assms(2) u by (auto simp: spent_def archive_sgetc_def split: option.splits prod.splits)
  moreover have "archive_sgetc ?b = Inr (Some (store b ! 0), ?b)"
    using False st by (simp add: archive_sgetc_def area_byte_def)
  ultimately have "drain_buffer (Suc h) b = drain_buffer (Suc h) ?b" for h by simp
  then have eq: "drain_buffer f b = drain_buffer (vsize b - 0 + Suc g) ?b" using f by simp
  have "drain_buffer (vsize b - 0 + Suc g) ?b =
      bindE (drain_buffer (Suc g) (area_skip (vsize b - 0) ?b)) (\<lambda>(xs, b').
        Inr (slice 0 (vsize b - 0) (store ?b) @ xs, b'))"
    using assms(1) by (intro drain_area) (simp_all add: vector_ok_def)
  moreover have "drain_buffer (Suc g) (area_skip (vsize b - 0) ?b) = Inr ([], area_skip (vsize b - 0) ?b)"
    by (rule drain_current) (simp_all add: spent_def)
  ultimately show ?thesis using eq assms(1) by (simp add: vector_data_def spent_def vector_ok_def)
qed

section \<open>Whole archives\<close>

fun write_entries ::
  "'a libarchive \<Rightarrow> (nat \<Rightarrow> nat) \<Rightarrow> (string \<times> byte list) list \<Rightarrow> archive_stream \<Rightarrow> 'a \<Rightarrow> archive_stream cpp \<times> 'a" where
  "write_entries A grow [] st a = (Inr st, a)"
| "write_entries A grow ((n, d) # ls) st a =
     (case set_entry A grow n st a of
        (Inl e, st, a) \<Rightarrow> (Inl e, a)
      | (Inr _, st, a) \<Rightarrow> (case archive_write grow d st of
          Inl e \<Rightarrow> (Inl e, a)
        | Inr st \<Rightarrow> write_entries A grow ls st a))"

fun read_entries ::
  "'a libarchive \<Rightarrow> (nat \<Rightarrow> nat) \<Rightarrow> nat \<Rightarrow> string list \<Rightarrow> archive_stream \<Rightarrow> 'a \<Rightarrow> (byte list list \<times> archive_stream) cpp" where
  "read_entries A grow f [] st a = Inr ([], st)"
| "read_entries A grow f (n # ns) st a =
     (case set_entry A grow n st a of
        (Inl e, st, a) \<Rightarrow> Inl e
      | (Inr _, st, a) \<Rightarrow> bindE (get_entry_string f st) (\<lambda>(d, st).
          bindE (read_entries A grow f ns st a) (\<lambda>(ds, st). Inr (d # ds, st))))"

definition file_entry :: "string \<times> byte list \<Rightarrow> arc_entry" where
  "file_entry x = \<lparr>ae_path = fst x, ae_size = length (snd x), ae_data = snd x\<rparr>"

definition put_entries :: "'a libarchive \<Rightarrow> (string \<times> byte list) list \<Rightarrow> 'a \<Rightarrow> 'a" where
  "put_entries A ls a = fold (\<lambda>x. arc_write_entry A (fst x) (snd x)) ls a"

text \<open>What libarchive promises: an archive that was opened, written and closed is read back.\<close>

definition writes_faithfully :: "'a libarchive \<Rightarrow> string \<Rightarrow> bool" where
  "writes_faithfully A path \<longleftrightarrow> (\<forall>a. \<exists>a0. arc_write_open A path a = (None, a0) \<and>
     (\<forall>ls. arc_read A path (arc_write_close A path (put_entries A ls a0)) = Inr (map file_entry ls)))"

text \<open>A writing stream, and what the archive will hold once its last entry is flushed.\<close>

definition writer_ok :: "archive_stream \<Rightarrow> bool" where
  "writer_ok st \<longleftrightarrow> arc_mode st = only_out \<and> arc_writer st \<and> good (arc_ios st) \<and> vector_ok (arc_buffer st)"

definition flushed :: "'a libarchive \<Rightarrow> archive_stream \<Rightarrow> 'a \<Rightarrow> 'a" where
  "flushed A st a = (if arc_entry_name st \<noteq> None then flush_write A st a else a)"

lemma flushed_entry:
  "arc_entry_name st = Some n \<Longrightarrow> vector_data (arc_buffer st) = d \<Longrightarrow> flushed A st a = arc_write_entry A n d a"
  by (simp add: flushed_def flush_write_def)

lemma write_entry_ok:
  assumes "writer_ok st" and "length d < 2 ^ 31"
  shows "\<exists>st1 st2 a1. set_entry A grow n st a = (Inr (), st1, a1) \<and> archive_write grow d st1 = Inr st2 \<and>
    writer_ok st2 \<and> archivePath st2 = archivePath st \<and>
    flushed A st2 a1 = arc_write_entry A n d (flushed A st a)"
proof -
  let ?st1 = "(set_arc_buffer ((vector_clear (arc_buffer st))\<lparr>dirty := True\<rparr>) st)
      \<lparr>entryName := n, arc_entry_name := Some n\<rparr>"
  have w: "arc_mode st = only_out" "arc_writer st" "good (arc_ios st)" "vector_ok (arc_buffer st)"
    using assms(1) by (simp_all add: writer_ok_def)
  have set: "set_entry A grow n st a = (Inr (), ?st1, flushed A st a)"
    by (cases st) (use w in \<open>auto simp: set_entry_def flushed_def set_arc_buffer_def arc_buffer_def Let_def\<close>)
  have ok: "vector_ok (rdbuf (arc_ios ?st1))" "good (arc_ios ?st1)" "vector_data (rdbuf (arc_ios ?st1)) = []"
    using w by (simp_all add: set_arc_buffer_def vector_ok_def vector_clear_def good_def vector_data_def)
  obtain b where b: "ostream_write (archive_vtable grow) d (arc_ios ?st1) = Inr ((arc_ios ?st1)\<lparr>rdbuf := b\<rparr>)"
      "vector_ok b" "vector_data b = d"
    using archive_sink.ostream_write_ok [OF ok(1,2) _ assms(2), of grow] assms(2) ok(3) by auto
  let ?st2 = "?st1\<lparr>arc_ios := (arc_ios ?st1)\<lparr>rdbuf := b\<rparr>\<rparr>"
  have "archive_write grow d ?st1 = Inr ?st2" unfolding archive_write_def b(1) by simp
  moreover have "writer_ok ?st2" using w ok(2) b(2) by (simp add: writer_ok_def arc_buffer_def good_def set_arc_buffer_def)
  moreover have "flushed A ?st2 (flushed A st a) = arc_write_entry A n d (flushed A st a)"
    by (rule flushed_entry) (simp_all add: arc_buffer_def b(3))
  moreover have "archivePath ?st2 = archivePath st" by (simp add: set_arc_buffer_def)
  ultimately show ?thesis using set by blast
qed

lemma write_entries_ok:
  assumes "writer_ok st" and "\<forall>x \<in> set ls. length (snd x) < 2 ^ 31"
  shows "\<exists>st1 a1. write_entries A grow ls st a = (Inr st1, a1) \<and> writer_ok st1 \<and>
    archivePath st1 = archivePath st \<and> flushed A st1 a1 = put_entries A ls (flushed A st a)"
  using assms
proof (induction ls arbitrary: st a)
  case (Cons x ls)
  obtain n d where x: "x = (n, d)" by fastforce
  obtain st1 st2 a1 where s: "set_entry A grow n st a = (Inr (), st1, a1)" "archive_write grow d st1 = Inr st2"
      "writer_ok st2" "archivePath st2 = archivePath st"
      "flushed A st2 a1 = arc_write_entry A n d (flushed A st a)"
    using write_entry_ok [OF Cons.prems(1), of d A grow n a] Cons.prems(2) x by auto
  then show ?case using Cons.IH [OF s(3), of a1] Cons.prems(2) x by (simp add: put_entries_def)
qed (simp add: put_entries_def)

text \<open>A reading stream between two entries.\<close>

definition reader_ok :: "archive_stream \<Rightarrow> bool" where
  "reader_ok st \<longleftrightarrow> arc_mode st = only_in \<and> vector_ok (arc_buffer st) \<and> spent (arc_buffer st)"

lemma vector_resize_ok:
  assumes "vector_ok b"
  shows "vector_ok (vector_resize grow n b) \<and> vsize (vector_resize grow n b) = n \<and>
    garea (vector_resize grow n b) = garea b \<and> dirty (vector_resize grow n b) = dirty b"
  using assms by (auto simp: vector_ok_def vector_resize_def vector_realloc_def length_blit)

lemma fill_vector_ok:
  assumes "vector_ok b"
  shows "vector_ok (fill_vector grow (file_entry x) b) \<and>
    vector_data (fill_vector grow (file_entry x) b) = snd x \<and>
    vsize (fill_vector grow (file_entry x) b) = length (snd x) \<and>
    garea (fill_vector grow (file_entry x) b) = garea b \<and> dirty (fill_vector grow (file_entry x) b) = dirty b"
proof -
  let ?b = "vector_resize grow (length (snd x)) b"
  have r: "vector_ok ?b" "vsize ?b = length (snd x)" "garea ?b = garea b" "dirty ?b = dirty b"
    using vector_resize_ok [OF assms] by auto
  then show ?thesis using take_blit [of 0 "store ?b" "snd x"]
    by (simp add: fill_vector_def file_entry_def vector_ok_def vector_data_def length_blit Let_def)
qed

lemma find_entry_map_of:
  "find_entry n (map file_entry ls) = map_option (\<lambda>d. file_entry (n, d)) (map_of ls n)"
  by (induction ls) (auto simp: file_entry_def)

lemma read_entry_ok:
  assumes "reader_ok st" and "arc_read A (archivePath st) a = Inr (map file_entry ls)"
    and "map_of ls n = Some d" and "length d < f"
  shows "\<exists>st1 st2. set_entry A grow n st a = (Inr (), st1, a) \<and> get_entry_string f st1 = Inr (d, st2) \<and>
    reader_ok st2 \<and> archivePath st2 = archivePath st"
proof -
  let ?b = "(vector_clear (arc_buffer st))\<lparr>dirty := True\<rparr>"
  let ?st1 = "set_arc_buffer (fill_vector grow (file_entry (n, d)) ?b) ((set_arc_buffer ?b st)\<lparr>entryName := n\<rparr>)"
  have r: "arc_mode st = only_in" "vector_ok (arc_buffer st)" "spent (arc_buffer st)"
    using assms(1) by (simp_all add: reader_ok_def)
  have set: "set_entry A grow n st a = (Inr (), ?st1, a)"
    using r(1) assms(2,3)
    by (simp add: set_entry_def Let_def set_arc_buffer_def find_entry_map_of arc_buffer_def)
  have "vector_ok ?b" using r(2) by (simp add: vector_ok_def vector_clear_def)
  note f = fill_vector_ok [OF this, of grow "(n, d)"]
  have "spent (fill_vector grow (file_entry (n, d)) ?b)"
    using f r(3) by (simp add: spent_def vector_clear_def)
  from drain_fresh [OF _ this, of f] f assms(4) obtain b' where
    b': "drain_buffer f (fill_vector grow (file_entry (n, d)) ?b) = Inr (d, b')" "spent b'" "vector_ok b'"
    by auto
  then have "get_entry_string f ?st1 = Inr (d, set_arc_buffer b' ?st1)"
    by (simp add: get_entry_string_def arc_buffer_def set_arc_buffer_def)
  moreover have "reader_ok (set_arc_buffer b' ?st1)"
    using b'(2,3) r(1) by (simp add: reader_ok_def arc_buffer_def set_arc_buffer_def)
  moreover have "archivePath (set_arc_buffer b' ?st1) = archivePath st" by (simp add: set_arc_buffer_def)
  ultimately show ?thesis using set by blast
qed

lemma read_entries_ok:
  assumes "reader_ok st" and "arc_read A (archivePath st) a = Inr (map file_entry ls)"
    and "\<forall>n \<in> set ns. \<exists>d. map_of ls n = Some d \<and> length d < f"
  shows "\<exists>st'. read_entries A grow f ns st a = Inr (map (\<lambda>n. the (map_of ls n)) ns, st')"
  using assms
proof (induction ns arbitrary: st)
  case (Cons n ns)
  obtain d where d: "map_of ls n = Some d" "length d < f" using Cons.prems(3) by auto
  obtain st1 st2 where s: "set_entry A grow n st a = (Inr (), st1, a)" "get_entry_string f st1 = Inr (d, st2)"
      "reader_ok st2" "archivePath st2 = archivePath st"
    using read_entry_ok [OF Cons.prems(1,2) d, of grow] by blast
  then show ?case using Cons.IH [OF s(3)] Cons.prems(2,3) d by auto
qed simp

text \<open>Opening and closing.\<close>

lemma archbuf_ctor_ok: "vector_ok archbuf_ctor" "spent archbuf_ctor"
  by (simp_all add: vector_ok_def spent_def archbuf_ctor_def)

lemma open_writer:
  assumes "arc_write_open A path a = (None, a0)"
  shows "\<exists>st. archive_ctor A path only_out a = (Inr st, a0) \<and> writer_ok st \<and> archivePath st = path \<and>
    (\<forall>a. flushed A st a = a)"
  using archbuf_ctor_ok assms
  by (auto simp: archive_ctor_def init_writer_def writer_ok_def arc_buffer_def mk_stream_def good_def flushed_def)

lemma open_reader:
  "\<exists>st. archive_ctor A path only_in a = (Inr st, a) \<and> reader_ok st \<and> archivePath st = path"
  using archbuf_ctor_ok
  by (auto simp: archive_ctor_def init_reader_def reader_ok_def arc_buffer_def mk_stream_def)

lemma close_writer: "writer_ok st \<Longrightarrow> archive_destroy A st a = arc_write_close A (archivePath st) (flushed A st a)"
  by (simp add: archive_destroy_def writer_ok_def flushed_def)

lemma close_reader: "reader_ok st \<Longrightarrow> archive_destroy A st a = a"
  by (simp add: archive_destroy_def reader_ok_def)

lemma reader_list:
  "reader_ok st \<Longrightarrow> arc_read A (archivePath st) a = Inr (map file_entry ls) \<Longrightarrow>
    list_entries A st a = Inr (map fst ls)"
  by (simp add: list_entries_def reader_ok_def file_entry_def o_def)

lemma entries_found:
  assumes "set ns \<subseteq> fst ` set ls" and "\<forall>x \<in> set ls. length (snd x) < f"
  shows "\<forall>n \<in> set ns. \<exists>d. map_of ls n = Some d \<and> length d < f"
proof
  fix n assume "n \<in> set ns"
  then have "map_of ls n \<noteq> None" using assms(1) by (auto simp: map_of_eq_None_iff)
  then obtain d where "map_of ls n = Some d" by blast
  moreover from this have "(n, d) \<in> set ls" by (rule map_of_SomeD)
  ultimately show "\<exists>d. map_of ls n = Some d \<and> length d < f" using assms(2) by force
qed

text \<open>An archive written entry by entry and closed is, opened again, listed with the same names in the
  same order, and its entries, asked for by name in any order and any number of times, are read back
  whole; of entries of one name the first counts.\<close>

theorem archive_roundtrip:
  assumes "writes_faithfully A path" and "\<forall>x \<in> set ls. length (snd x) < 2 ^ 31 \<and> length (snd x) < f"
    and "set ns \<subseteq> fst ` set ls"
  shows "\<exists>st0 a0 st1 a1 a2 st2 st3. archive_ctor A path only_out a = (Inr st0, a0) \<and>
    write_entries A grow ls st0 a0 = (Inr st1, a1) \<and> archive_destroy A st1 a1 = a2 \<and>
    archive_ctor A path only_in a2 = (Inr st2, a2) \<and> list_entries A st2 a2 = Inr (map fst ls) \<and>
    read_entries A grow f ns st2 a2 = Inr (map (\<lambda>n. the (map_of ls n)) ns, st3)"
proof -
  obtain a0 where a0: "arc_write_open A path a = (None, a0)"
      "arc_read A path (arc_write_close A path (put_entries A ls a0)) = Inr (map file_entry ls)"
    using assms(1) unfolding writes_faithfully_def by blast
  let ?a2 = "arc_write_close A path (put_entries A ls a0)"
  obtain st0 where st0: "archive_ctor A path only_out a = (Inr st0, a0)" "writer_ok st0" "archivePath st0 = path"
      "\<forall>a. flushed A st0 a = a"
    using open_writer [OF a0(1)] by blast
  obtain st1 a1 where w: "write_entries A grow ls st0 a0 = (Inr st1, a1)" "writer_ok st1"
      "archivePath st1 = path" "flushed A st1 a1 = put_entries A ls a0"
    using write_entries_ok [OF st0(2), of ls A grow a0] st0(3,4) assms(2) by auto
  obtain st2 where st2: "archive_ctor A path only_in ?a2 = (Inr st2, ?a2)" "reader_ok st2" "archivePath st2 = path"
    using open_reader [of A path ?a2] by blast
  have r: "arc_read A (archivePath st2) ?a2 = Inr (map file_entry ls)" using a0(2) st2(3) by simp
  have "\<forall>n \<in> set ns. \<exists>d. map_of ls n = Some d \<and> length d < f"
    using entries_found [OF assms(3)] assms(2) by blast
  from read_entries_ok [OF st2(2) r this, of grow] obtain st3 where
    "read_entries A grow f ns st2 ?a2 = Inr (map (\<lambda>n. the (map_of ls n)) ns, st3)" by auto
  then show ?thesis
    using st0(1) w(1) close_writer [OF w(2), of A a1] w(3,4) st2(1) reader_list [OF st2(2) r] by auto
qed

text \<open>A file system of archives, with the one being written.\<close>

definition file_archive :: "((string \<Rightarrow> arc_entry list option) \<times> arc_entry list) libarchive" where
  "file_archive = \<lparr>
     arc_read = (\<lambda>path (files, _). case files path of None \<Rightarrow> Inl ''no such file'' | Some es \<Rightarrow> Inr es),
     arc_write_open = (\<lambda>path (files, _). (None, files, [])),
     arc_write_entry = (\<lambda>n d (files, es). (files, es @ [file_entry (n, d)])),
     arc_write_close = (\<lambda>path (files, es). (files(path \<mapsto> es), []))\<rparr>"

lemma file_archive_faithful: "writes_faithfully file_archive path"
proof -
  have "put_entries file_archive ls (files, es) = (files, es @ map file_entry ls)" for ls files es
    by (induction ls arbitrary: es) (simp_all add: put_entries_def file_archive_def)
  then show ?thesis by (auto simp: writes_faithfully_def) (simp add: file_archive_def)
qed

theorem archive_roundtrip_witness:
  "\<exists>st0 a0 st1 a1 a2 st2 st3. archive_ctor file_archive ''a.tgz'' only_out (Map.empty, []) = (Inr st0, a0) \<and>
    write_entries file_archive id [(''x'', [1, 2]), (''y'', [3])] st0 a0 = (Inr st1, a1) \<and>
    archive_destroy file_archive st1 a1 = a2 \<and>
    archive_ctor file_archive ''a.tgz'' only_in a2 = (Inr st2, a2) \<and>
    list_entries file_archive st2 a2 = Inr [''x'', ''y''] \<and>
    read_entries file_archive id 3 [''y'', ''x'', ''y''] st2 a2 = Inr ([[3], [1, 2], [3]], st3)"
  using archive_roundtrip [OF file_archive_faithful, of "[(''x'', [1, 2]), (''y'', [3])]" 3 "[''y'', ''x'', ''y'']"
      "''a.tgz''" "(Map.empty, [])" id]
  by simp

section \<open>What is kept from one entry to the next\<close>

text \<open>
  \<open>set_entry\<close> neither moves the get area nor clears the state of the stream.  Bytes of the area that
  were not read come first when the next entry is read, as positions in its data; after a read that
  found the end of an entry the next entry cannot be read at all.
\<close>

lemma stale_bytes_first:
  assumes "garea b = Some (gen b, p, e)" and "p < e" and "e \<le> length (store b)" and "dirty b" and "vector_ok b"
    and "vsize b < f"
  shows "\<exists>b'. drain_buffer (e - p + f) b = Inr (slice p (e - p) (store b) @ vector_data b, b')"
proof -
  let ?b = "area_skip (e - p) b"
  have "vector_ok ?b" "spent ?b" "dirty ?b" "vsize ?b < f" "vector_data ?b = vector_data b"
    using assms by (simp_all add: vector_ok_def spent_def vector_data_def)
  from drain_fresh [OF this(1-4)] this(5) obtain b' where "drain_buffer f ?b = Inr (vector_data b, b')" by auto
  then show ?thesis using drain_area [OF assms(1) _ assms(3), of f] assms(2) by simp
qed

lemma set_entry_keeps_end_of_file:
  assumes "eofbit (arc_ios st)" and "set_entry A grow n st a = (Inr (), st', a')"
  shows "\<exists>st2. archive_read grow k st' = Inr ([], st2)"
proof -
  have "eofbit (arc_ios st')"
    using assms by (auto simp: set_entry_def set_arc_buffer_def Let_def split: if_splits sum.splits option.splits)
  then show ?thesis by (simp add: archive_read_def istream_read_def good_def)
qed

lemma open_failure_uses_freed_handle:
  assumes "m_in (arc_mode st)" and "\<And>a. arc_read A (archivePath st) a = Inl msg"
  shows "fst (set_entry A grow n st a) = Inl Dangling"
  using assms by (simp add: set_entry_def Let_def set_arc_buffer_def)

end
