(* ===== verification/C_Archive.thy ===== *)
theory C_Archive
  imports C_Common Archive
begin

text \<open>
  The \<open>io_archive_\<close> functions of c_api.cpp: handles over \<open>archive_stream\<close>, lists of names as arrays of C
  strings, and entries as C strings.
\<close>

type_synonym archives = "archive_stream table"

definition IO_ARCHIVE_READ :: int where "IO_ARCHIVE_READ = 0"
definition IO_ARCHIVE_WRITE :: int where "IO_ARCHIVE_WRITE = 1"

section \<open>Opening and closing\<close>

definition io_archive_open ::
  "'a libarchive \<Rightarrow> archive_stream new \<Rightarrow> string option \<Rightarrow> int \<Rightarrow> archives \<Rightarrow> 'a \<Rightarrow>
   (nat option \<times> archives \<times> 'a) cpp" where
  "io_archive_open A pick path mode T a = (case path of
     None \<Rightarrow> Inr (None, T, a)
   | Some s \<Rightarrow> c_new pick (archive_ctor A s (if mode = IO_ARCHIVE_READ then only_in else only_out)) T a)"

definition io_archive_close :: "'a libarchive \<Rightarrow> nat option \<Rightarrow> archives \<Rightarrow> 'a \<Rightarrow> (archives \<times> 'a) cpp" where
  "io_archive_close A p T a = c_destroy (\<lambda>st a. Inr (archive_destroy A st a)) p T a"

section \<open>The list of names\<close>

text \<open>
  An array of pointers is a block of its own kind.  \<open>out_count\<close> may be null; the second result is what is
  stored there, if anything.
\<close>

type_synonym arrays = "nat \<Rightarrow> nat list option"
type_synonym array_malloc = "nat \<Rightarrow> arrays \<Rightarrow> nat option"

fun copy_names :: "malloc \<Rightarrow> string list \<Rightarrow> blocks \<Rightarrow> (nat list \<times> blocks) cpp" where
  "copy_names al [] h = Inr ([], h)"
| "copy_names al (s # ss) h = bindE (copy_c_string al s h) (\<lambda>(p, h).
     bindE (copy_names al ss h) (\<lambda>(ps, h). Inr (p # ps, h)))"

definition io_archive_list_entries ::
  "'a libarchive \<Rightarrow> malloc \<Rightarrow> array_malloc \<Rightarrow> nat option \<Rightarrow> bool \<Rightarrow> archives \<Rightarrow> 'a \<Rightarrow> blocks \<Rightarrow> arrays \<Rightarrow>
   ((nat option \<times> nat option) \<times> blocks \<times> arrays) cpp" where
  "io_archive_list_entries A al ar p out_count T a h v =
     bindE (c_deref p T) (\<lambda>r. case r of
       None \<Rightarrow> Inr ((None, None), h, v)
     | Some (_, st) \<Rightarrow> catching (bindE (list_entries A st a) (\<lambda>entries.
         (let n = (if out_count then Some (length entries) else None)
          in if entries = [] then Inr ((None, n), h, v)
             else (case ar (wrap64 (int (length entries) * 8)) v of
               None \<Rightarrow> Inl Null_deref
             | Some x \<Rightarrow> bindE (copy_names al entries h) (\<lambda>(ps, h). Inr ((Some x, n), h, v(x \<mapsto> ps)))))))
         (\<lambda>_. Inr ((None, None), h, v)))"

fun free_names :: "nat list \<Rightarrow> blocks \<Rightarrow> blocks cpp" where
  "free_names [] h = Inr h"
| "free_names (p # ps) h = bindE (c_free (Some p) h) (free_names ps)"

definition io_archive_entries_free :: "nat option \<Rightarrow> nat \<Rightarrow> blocks \<Rightarrow> arrays \<Rightarrow> (blocks \<times> arrays) cpp" where
  "io_archive_entries_free entries count h v = (case entries of
     None \<Rightarrow> Inr (h, v)
   | Some x \<Rightarrow> (case v x of
       None \<Rightarrow> Inl Dangling
     | Some ps \<Rightarrow> if length ps < count then Inl Out_of_bounds
         else bindE (free_names (take count ps) h) (\<lambda>h. Inr (h, v(x := None)))))"

section \<open>Entries\<close>

definition io_archive_set_entry ::
  "'a libarchive \<Rightarrow> (nat \<Rightarrow> nat) \<Rightarrow> nat option \<Rightarrow> string option \<Rightarrow> archives \<Rightarrow> 'a \<Rightarrow>
   (int \<times> archives \<times> 'a) cpp" where
  "io_archive_set_entry A grow p entry_name T a = (case entry_name of
     None \<Rightarrow> bindE (c_deref p T) (\<lambda>_. Inr (IO_ERROR, T, a))
   | Some n \<Rightarrow> with_object p IO_ERROR (\<lambda>st a. case set_entry A grow n st a of (m, st, a) \<Rightarrow>
       bindE (catching (bindE m (\<lambda>_. Inr IO_SUCCESS)) (\<lambda>_. Inr IO_ERROR_ARCHIVE)) (\<lambda>r. Inr (r, st, a))) T a)"

text \<open>The number bounds the bytes of the entry.\<close>

definition io_archive_get_entry_string ::
  "nat \<Rightarrow> malloc \<Rightarrow> nat option \<Rightarrow> archives \<Rightarrow> blocks \<Rightarrow> (nat option \<times> archives \<times> blocks) cpp" where
  "io_archive_get_entry_string f al p T h =
     catching (with_object p None (\<lambda>st h. bindE (get_entry_string f st) (\<lambda>(bs, st).
         bindE (copy_c_string al (bytes_string bs) h) (\<lambda>(q, h). Inr (Some q, st, h)))) T h)
       (\<lambda>_. Inr (None, T, h))"

definition io_archive_string_free :: "nat option \<Rightarrow> blocks \<Rightarrow> blocks cpp" where
  "io_archive_string_free p h = c_free p h"

text \<open>The size given back is the caller's, whether or not the stream took the bytes.\<close>

definition io_archive_write ::
  "(nat \<Rightarrow> nat) \<Rightarrow> nat option \<Rightarrow> byte list option \<Rightarrow> archives \<Rightarrow> (int \<times> archives) cpp" where
  "io_archive_write grow p data T = (case data of
     None \<Rightarrow> bindE (c_deref p T) (\<lambda>_. Inr (IO_ERROR, T))
   | Some bs \<Rightarrow> bindE (catching
       (with_object p IO_ERROR (\<lambda>st w. bindE (archive_write grow bs st) (\<lambda>st.
          Inr (i64 (int (length bs)), st, w))) T ())
       (\<lambda>_. Inr (IO_ERROR_ARCHIVE, T, ()))) (\<lambda>(r, T, _). Inr (r, T)))"

text \<open>The second result is the caller's buffer after the call.\<close>

definition io_archive_read ::
  "(nat \<Rightarrow> nat) \<Rightarrow> nat option \<Rightarrow> byte list option \<Rightarrow> archives \<Rightarrow> ((int \<times> byte list option) \<times> archives) cpp" where
  "io_archive_read grow p buffer T = (case buffer of
     None \<Rightarrow> bindE (c_deref p T) (\<lambda>_. Inr ((IO_ERROR, None), T))
   | Some m \<Rightarrow> bindE (catching
       (with_object p (IO_ERROR, buffer) (\<lambda>st w. bindE (archive_read grow (length m) st) (\<lambda>(bs, st).
          Inr ((i64 (int (gcount (arc_ios st))), Some (blit 0 bs m)), st, w))) T ())
       (\<lambda>_. Inr ((IO_ERROR_ARCHIVE, buffer), T, ()))) (\<lambda>(r, T, _). Inr (r, T)))"

section \<open>Writing and reading an archive from C\<close>

text \<open>The calls of a program that writes entries, and of one that reads some, with all their results.\<close>

fun c_put_entries ::
  "'a libarchive \<Rightarrow> (nat \<Rightarrow> nat) \<Rightarrow> nat option \<Rightarrow> (string \<times> byte list) list \<Rightarrow> archives \<Rightarrow> 'a \<Rightarrow>
   ((int \<times> int) list \<times> archives \<times> 'a) cpp" where
  "c_put_entries A grow p [] T a = Inr ([], T, a)"
| "c_put_entries A grow p ((n, d) # ls) T a =
     bindE (io_archive_set_entry A grow p (Some n) T a) (\<lambda>(r, T, a).
     bindE (io_archive_write grow p (Some d) T) (\<lambda>(k, T).
     bindE (c_put_entries A grow p ls T a) (\<lambda>(rs, T, a). Inr ((r, k) # rs, T, a))))"

fun c_get_entries ::
  "'a libarchive \<Rightarrow> (nat \<Rightarrow> nat) \<Rightarrow> nat \<Rightarrow> malloc \<Rightarrow> nat option \<Rightarrow> string list \<Rightarrow> archives \<Rightarrow> 'a \<Rightarrow> blocks \<Rightarrow>
   ((int \<times> nat option) list \<times> archives \<times> 'a \<times> blocks) cpp" where
  "c_get_entries A grow f al p [] T a h = Inr ([], T, a, h)"
| "c_get_entries A grow f al p (n # ns) T a h =
     bindE (io_archive_set_entry A grow p (Some n) T a) (\<lambda>(r, T, a).
     bindE (io_archive_get_entry_string f al p T h) (\<lambda>(q, T, h).
     bindE (c_get_entries A grow f al p ns T a h) (\<lambda>(rs, T, a, h). Inr ((r, q) # rs, T, a, h))))"

lemma c_set_entry_ok:
  assumes "set_entry A grow n st a = (Inr (), st', a')"
  shows "io_archive_set_entry A grow (Some b) (Some n) (with_handle b x st T) a =
    Inr (IO_SUCCESS, with_handle b x st' T, a')"
  unfolding io_archive_set_entry_def option.case by (rule with_object_handle) (simp add: assms)

lemma c_write_ok:
  assumes "archive_write grow d st = Inr st'" and "length d < 2 ^ 31"
  shows "io_archive_write grow (Some b) (Some d) (with_handle b x st T) =
    Inr (int (length d), with_handle b x st' T)"
proof -
  have "with_object (Some b) IO_ERROR (\<lambda>st w. bindE (archive_write grow d st) (\<lambda>st.
      Inr (i64 (int (length d)), st, w))) (with_handle b x st T) () =
      Inr (int (length d), with_handle b x st' T, ())"
    by (rule with_object_handle) (use assms(2) in \<open>simp add: assms(1)\<close>)
  then show ?thesis by (simp add: io_archive_write_def)
qed

lemma c_put_entries_ok:
  assumes "writer_ok st" and "\<forall>y \<in> set ls. length (snd y) < 2 ^ 31"
  shows "\<exists>st1 a1. c_put_entries A grow (Some b) ls (with_handle b x st T) a =
      Inr (map (\<lambda>y. (IO_SUCCESS, int (length (snd y)))) ls, with_handle b x st1 T, a1) \<and> writer_ok st1 \<and>
    archivePath st1 = archivePath st \<and> flushed A st1 a1 = put_entries A ls (flushed A st a)"
  using assms
proof (induction ls arbitrary: st a)
  case (Cons y ls)
  obtain n d where y: "y = (n, d)" by fastforce
  have d: "length d < 2 ^ 31" using Cons.prems(2) y by simp
  obtain st1 st2 a1 where s: "set_entry A grow n st a = (Inr (), st1, a1)" "archive_write grow d st1 = Inr st2"
      "writer_ok st2" "archivePath st2 = archivePath st"
      "flushed A st2 a1 = arc_write_entry A n d (flushed A st a)"
    using write_entry_ok [OF Cons.prems(1) d, of A grow n a] by auto
  obtain st3 a3 where "c_put_entries A grow (Some b) ls (with_handle b x st2 T) a1 =
      Inr (map (\<lambda>y. (IO_SUCCESS, int (length (snd y)))) ls, with_handle b x st3 T, a3)" "writer_ok st3"
      "archivePath st3 = archivePath st2" "flushed A st3 a3 = put_entries A ls (flushed A st2 a1)"
    using Cons.IH [OF s(3), of a1] Cons.prems(2) by auto
  then show ?case
    using s(4,5) by (simp add: y c_set_entry_ok [OF s(1)] c_write_ok [OF s(2) d] put_entries_def)
qed (simp add: put_entries_def)

lemma c_get_string_ok:
  assumes "get_entry_string f st = Inr (d, st')" and "reliable_malloc al" and "finite (dom h)"
  shows "\<exists>q. io_archive_get_entry_string f al (Some b) (with_handle b x st T) h =
      Inr (Some q, with_handle b x st' T, h(q \<mapsto> d @ [0])) \<and> h q = None"
proof -
  obtain q where q: "copy_c_string al (bytes_string d) h = Inr (q, h(q \<mapsto> d @ [0]))" "h q = None"
    using copy_c_string_fresh [OF assms(2,3), of "bytes_string d"] by auto
  have "with_object (Some b) None (\<lambda>st h. bindE (get_entry_string f st) (\<lambda>(bs, st).
      bindE (copy_c_string al (bytes_string bs) h) (\<lambda>(q, h). Inr (Some q, st, h)))) (with_handle b x st T) h =
      Inr (Some q, with_handle b x st' T, h(q \<mapsto> d @ [0]))"
    by (rule with_object_handle) (simp add: assms(1) q(1) del: fun_upd_apply)
  then show ?thesis using q(2) by (simp add: io_archive_get_entry_string_def)
qed

text \<open>A result of the reading program: the name was found, and the C string holds the entry's bytes.\<close>

definition got_entry :: "(string \<times> byte list) list \<Rightarrow> blocks \<Rightarrow> int \<times> nat option \<Rightarrow> string \<Rightarrow> bool" where
  "got_entry ls h r n \<longleftrightarrow> fst r = IO_SUCCESS \<and>
     (\<exists>q. snd r = Some q \<and> h q = Some (the (map_of ls n) @ [0]))"

lemma c_get_entries_ok:
  assumes "reader_ok st" and "arc_read A (archivePath st) a = Inr (map file_entry ls)"
    and "\<forall>n \<in> set ns. \<exists>d. map_of ls n = Some d \<and> length d < f"
    and "reliable_malloc al" and "finite (dom h)"
  shows "\<exists>rs st1 h1. c_get_entries A grow f al (Some b) ns (with_handle b x st T) a h =
      Inr (rs, with_handle b x st1 T, a, h1) \<and> reader_ok st1 \<and> h \<subseteq>\<^sub>m h1 \<and> list_all2 (got_entry ls h1) rs ns"
  using assms(1-3,5)
proof (induction ns arbitrary: st h)
  case (Cons n ns)
  obtain d where d: "map_of ls n = Some d" "length d < f" using Cons.prems(3) by auto
  obtain st1 st2 where s: "set_entry A grow n st a = (Inr (), st1, a)" "get_entry_string f st1 = Inr (d, st2)"
      "reader_ok st2" "archivePath st2 = archivePath st"
    using read_entry_ok [OF Cons.prems(1,2) d, of grow] by blast
  obtain q where q: "io_archive_get_entry_string f al (Some b) (with_handle b x st1 T) h =
      Inr (Some q, with_handle b x st2 T, h(q \<mapsto> d @ [0]))" "h q = None"
    using c_get_string_ok [OF s(2) assms(4) Cons.prems(4)] by blast
  have "finite (dom (h(q \<mapsto> d @ [0])))" using Cons.prems(4) by simp
  moreover have "arc_read A (archivePath st2) a = Inr (map file_entry ls)" using s(4) Cons.prems(2) by simp
  moreover have "\<forall>n \<in> set ns. \<exists>d. map_of ls n = Some d \<and> length d < f" using Cons.prems(3) by simp
  ultimately obtain rs st3 h3 where r: "c_get_entries A grow f al (Some b) ns (with_handle b x st2 T) a (h(q \<mapsto> d @ [0])) =
      Inr (rs, with_handle b x st3 T, a, h3)" "reader_ok st3" "h(q \<mapsto> d @ [0]) \<subseteq>\<^sub>m h3"
      "list_all2 (got_entry ls h3) rs ns"
    using Cons.IH [OF s(3), of "h(q \<mapsto> d @ [0])"] by blast
  have "h \<subseteq>\<^sub>m h(q \<mapsto> d @ [0])" using q(2) by (auto simp: map_le_def)
  then have "h \<subseteq>\<^sub>m h3" using r(3) by (rule map_le_trans)
  moreover have "got_entry ls h3 (IO_SUCCESS, Some q) n"
    using r(3) d(1) by (force simp: got_entry_def map_le_def)
  ultimately show ?case
    using r(1,2,4) by (simp add: c_set_entry_ok [OF s(1)] q(1) del: fun_upd_apply)
qed simp

section \<open>Lists of names\<close>

lemma free_names_unused:
  "free_names ps h = Inr h1 \<Longrightarrow> p \<notin> set ps \<Longrightarrow> free_names ps (h(p := None)) = Inr (h1(p := None))"
proof (induction ps arbitrary: h)
  case (Cons q ps)
  then have "h q \<noteq> None" "free_names ps (h(q := None)) = Inr h1" "p \<noteq> q" "p \<notin> set ps"
    by (auto simp: c_free_def split: if_splits)
  with Cons.IH [of "h(q := None)"] show ?case
    by (simp add: c_free_def fun_upd_twist del: fun_upd_apply) (simp add: fun_upd_def)
qed simp

lemma copy_names_ok:
  assumes "reliable_malloc al" and "finite (dom h)"
  shows "\<exists>ps h1. copy_names al ss h = Inr (ps, h1) \<and> h \<subseteq>\<^sub>m h1 \<and> (\<forall>p \<in> set ps. h p = None) \<and>
    map h1 ps = map (\<lambda>s. Some (string_bytes s @ [0])) ss \<and> free_names ps h1 = Inr h"
  using assms(2)
proof (induction ss arbitrary: h)
  case (Cons s ss)
  obtain p where p: "copy_c_string al s h = Inr (p, h(p \<mapsto> string_bytes s @ [0]))" "h p = None"
    using copy_c_string_fresh [OF assms(1) Cons.prems] by blast
  let ?h = "h(p \<mapsto> string_bytes s @ [0])"
  have "finite (dom ?h)" using Cons.prems by simp
  from Cons.IH [OF this] obtain ps h1 where r: "copy_names al ss ?h = Inr (ps, h1)" "?h \<subseteq>\<^sub>m h1"
      "\<forall>q \<in> set ps. ?h q = None" "map h1 ps = map (\<lambda>s. Some (string_bytes s @ [0])) ss"
      "free_names ps h1 = Inr ?h" by blast
  have "h \<subseteq>\<^sub>m ?h" using p(2) by (auto simp: map_le_def)
  then have le: "h \<subseteq>\<^sub>m h1" using r(2) by (rule map_le_trans)
  have h1: "h1 p = Some (string_bytes s @ [0])" using r(2) by (force simp: map_le_def)
  have new: "p \<notin> set ps" "\<forall>q \<in> set ps. h q = None" using r(3) by (auto split: if_splits)
  have "free_names ps (h1(p := None)) = Inr h"
    using free_names_unused [OF r(5) new(1)] p(2) by (simp add: fun_upd_idem)
  then show ?case using p r(1,4) le h1 new(2) by (simp add: c_free_def del: fun_upd_apply)
qed simp

text \<open>
  The names of a reading handle's archive as an array of C strings with its length; giving the array
  back with that length frees all of it and nothing else.
\<close>

lemma c_list_entries_ok:
  assumes "alive b a st T" and "list_entries A st arc = Inr names" and "names \<noteq> []"
    and "reliable_malloc al" and "finite (dom h)"
    and "ar (wrap64 (int (length names) * 8)) v = Some x" and "v x = None"
  shows "\<exists>ps h1. io_archive_list_entries A al ar (Some b) True T arc h v =
      Inr ((Some x, Some (length names)), h1, v(x \<mapsto> ps)) \<and>
    map h1 ps = map (\<lambda>s. Some (string_bytes s @ [0])) names \<and>
    io_archive_entries_free (Some x) (length names) h1 (v(x \<mapsto> ps)) = Inr (h, v)"
proof -
  obtain ps h1 where c: "copy_names al names h = Inr (ps, h1)"
      "map h1 ps = map (\<lambda>s. Some (string_bytes s @ [0])) names" "free_names ps h1 = Inr h"
    using copy_names_ok [OF assms(4,5)] by blast
  have "length ps = length names" using map_eq_imp_length_eq [OF c(2)] .
  then have "io_archive_entries_free (Some x) (length names) h1 (v(x \<mapsto> ps)) = Inr (h, v)"
    using c(3) assms(7) by (simp add: io_archive_entries_free_def fun_upd_idem)
  moreover have "io_archive_list_entries A al ar (Some b) True T arc h v =
      Inr ((Some x, Some (length names)), h1, v(x \<mapsto> ps))"
    using assms(1-3,6) c(1) by (simp add: io_archive_list_entries_def c_deref_alive)
  ultimately show ?thesis using c(2) by blast
qed

section \<open>The whole exchange\<close>

text \<open>C6: a C program that opens an archive, sets and writes its entries and closes it is told so by every
  call, and one that then opens it and asks for entries by name gets C strings with their bytes; both
  close their handles with nothing left of them.\<close>

theorem c_archive_roundtrip:
  assumes "writes_faithfully A path" and "\<forall>y \<in> set ls. length (snd y) < 2 ^ 31 \<and> length (snd y) < f"
    and "set ns \<subseteq> fst ` set ls" and "fresh_new pick" and "finite (dom (objects T))" and "finite (dom (handles T))"
    and "reliable_malloc al" and "finite (dom h)"
  shows "\<exists>b T1 a1 T2 a2 a3 b' T3 rs T4 h'.
    io_archive_open A pick (Some path) IO_ARCHIVE_WRITE T a = Inr (Some b, T1, a1) \<and>
    c_put_entries A grow (Some b) ls T1 a1 = Inr (map (\<lambda>y. (IO_SUCCESS, int (length (snd y)))) ls, T2, a2) \<and>
    io_archive_close A (Some b) T2 a2 = Inr (T, a3) \<and>
    io_archive_open A pick (Some path) IO_ARCHIVE_READ T a3 = Inr (Some b', T3, a3) \<and>
    c_get_entries A grow f al (Some b') ns T3 a3 h = Inr (rs, T4, a3, h') \<and>
    h \<subseteq>\<^sub>m h' \<and> list_all2 (got_entry ls h') rs ns \<and>
    io_archive_close A (Some b') T4 a3 = Inr (T, a3)"
proof -
  note new = c_new_alive [OF assms(4-6)]
  obtain a0 where a0: "arc_write_open A path a = (None, a0)"
      "arc_read A path (arc_write_close A path (put_entries A ls a0)) = Inr (map file_entry ls)"
    using assms(1) unfolding writes_faithfully_def by blast
  let ?a3 = "arc_write_close A path (put_entries A ls a0)"
  obtain st0 where st0: "archive_ctor A path only_out a = (Inr st0, a0)" "writer_ok st0" "archivePath st0 = path"
      "\<forall>a. flushed A st0 a = a"
    using open_writer [OF a0(1)] by blast
  obtain b x where b: "io_archive_open A pick (Some path) IO_ARCHIVE_WRITE T a = Inr (Some b, with_handle b x st0 T, a0)"
      "unused b x T"
    using new [of "archive_ctor A path only_out", OF st0(1)]
    by (auto simp: io_archive_open_def IO_ARCHIVE_READ_def IO_ARCHIVE_WRITE_def)
  obtain st1 a1 where w: "c_put_entries A grow (Some b) ls (with_handle b x st0 T) a0 =
      Inr (map (\<lambda>y. (IO_SUCCESS, int (length (snd y)))) ls, with_handle b x st1 T, a1)" "writer_ok st1"
      "archivePath st1 = path" "flushed A st1 a1 = put_entries A ls a0"
    using c_put_entries_ok [OF st0(2), of ls A grow b x T a0] st0(3,4) assms(2) by auto
  have c: "io_archive_close A (Some b) (with_handle b x st1 T) a1 = Inr (T, ?a3)"
    unfolding io_archive_close_def
    by (rule c_destroy_handle [OF b(2)]) (simp add: close_writer [OF w(2)] w(3,4))
  obtain st2 where st2: "archive_ctor A path only_in ?a3 = (Inr st2, ?a3)" "reader_ok st2" "archivePath st2 = path"
    using open_reader [of A path ?a3] by blast
  obtain b' x' where b': "io_archive_open A pick (Some path) IO_ARCHIVE_READ T ?a3 =
      Inr (Some b', with_handle b' x' st2 T, ?a3)" "unused b' x' T"
    using new [of "archive_ctor A path only_in", OF st2(1)] by (auto simp: io_archive_open_def)
  have r: "arc_read A (archivePath st2) ?a3 = Inr (map file_entry ls)" using a0(2) st2(3) by simp
  have n: "\<forall>n \<in> set ns. \<exists>d. map_of ls n = Some d \<and> length d < f"
    using entries_found [OF assms(3)] assms(2) by blast
  obtain rs st3 h1 where g: "c_get_entries A grow f al (Some b') ns (with_handle b' x' st2 T) ?a3 h =
      Inr (rs, with_handle b' x' st3 T, ?a3, h1)" "reader_ok st3" "h \<subseteq>\<^sub>m h1" "list_all2 (got_entry ls h1) rs ns"
    using c_get_entries_ok [OF st2(2) r n assms(7,8), of grow b' x' T] by blast
  have "io_archive_close A (Some b') (with_handle b' x' st3 T) ?a3 = Inr (T, ?a3)"
    unfolding io_archive_close_def
    by (rule c_destroy_handle [OF b'(2)]) (simp add: close_reader [OF g(2)])
  with b(1) w(1) c b'(1) g(1,3,4) show ?thesis by blast
qed

theorem c_archive_roundtrip_witness:
  "\<exists>b T1 a1 T2 a2 a3 b' T3 rs T4 h'.
    io_archive_open file_archive first_new (Some ''a.tgz'') IO_ARCHIVE_WRITE empty_table (Map.empty, []) =
      Inr (Some b, T1, a1) \<and>
    c_put_entries file_archive id (Some b) [(''x'', [1, 2]), (''y'', [3])] T1 a1 =
      Inr ([(IO_SUCCESS, 2), (IO_SUCCESS, 1)], T2, a2) \<and>
    io_archive_close file_archive (Some b) T2 a2 = Inr (empty_table, a3) \<and>
    io_archive_open file_archive first_new (Some ''a.tgz'') IO_ARCHIVE_READ empty_table a3 = Inr (Some b', T3, a3) \<and>
    c_get_entries file_archive id 3 first_malloc (Some b') [''y''] T3 a3 Map.empty = Inr (rs, T4, a3, h') \<and>
    list_all2 (got_entry [(''x'', [1, 2]), (''y'', [3])] h') rs [''y''] \<and>
    io_archive_close file_archive (Some b') T4 a3 = Inr (empty_table, a3)"
  using c_archive_roundtrip [OF file_archive_faithful, of "[(''x'', [1, 2]), (''y'', [3])]" 3 "[''y'']"
      first_new empty_table first_malloc Map.empty "''a.tgz''" "(Map.empty, [])" id]
    first_new_fresh empty_table_finite first_malloc_reliable
  by (simp del: c_put_entries.simps c_get_entries.simps) blast

end
