(* ===== verification/C_Tcp.thy ===== *)
theory C_Tcp
  imports C_Common Tcp_Peers
begin

text \<open>
  The \<open>io_ssl_\<close>, \<open>io_tcp_client_\<close>, \<open>io_tcp_server_\<close> and \<open>io_tcp_stream_\<close> functions of c_api.cpp: handles over
  TLS contexts, connections, servers and the streams of a server's clients.
\<close>

section \<open>TLS contexts\<close>

text \<open>
  A handle of a context points to OpenSSL's object.  The calls of \<open>ssl_factory\<close> are arguments: they give a
  context or throw.  When no handle can be allocated the context is lost.
\<close>

type_synonym contexts = "nat \<Rightarrow> nat option"

definition ssl_handle ::
  "(contexts \<Rightarrow> nat option) \<Rightarrow> ('k \<Rightarrow> nat cpp \<times> 'k) \<Rightarrow> contexts \<Rightarrow> 'k \<Rightarrow>
   (nat option \<times> contexts \<times> 'k) cpp" where
  "ssl_handle pick factory C k = (case factory k of
     (Inl e, k) \<Rightarrow> catching (Inl e) (\<lambda>_. Inr (None, C, k))
   | (Inr c, k) \<Rightarrow> (case pick C of
       None \<Rightarrow> Inr (None, C, k)
     | Some b \<Rightarrow> Inr (Some b, C(b \<mapsto> c), k)))"

definition io_ssl_create_client_ctx ::
  "(contexts \<Rightarrow> nat option) \<Rightarrow> (string \<Rightarrow> 'k \<Rightarrow> nat cpp \<times> 'k) \<Rightarrow> string option \<Rightarrow> contexts \<Rightarrow> 'k \<Rightarrow>
   (nat option \<times> contexts \<times> 'k) cpp" where
  "io_ssl_create_client_ctx pick createClient host C k = (case host of
     None \<Rightarrow> Inr (None, C, k)
   | Some s \<Rightarrow> ssl_handle pick (createClient s) C k)"

definition io_ssl_create_server_ctx ::
  "(contexts \<Rightarrow> nat option) \<Rightarrow> ('k \<Rightarrow> nat cpp \<times> 'k) \<Rightarrow> contexts \<Rightarrow> 'k \<Rightarrow> (nat option \<times> contexts \<times> 'k) cpp" where
  "io_ssl_create_server_ctx pick createServer C k = ssl_handle pick createServer C k"

definition io_ssl_create_server_ctx_with_certs ::
  "(contexts \<Rightarrow> nat option) \<Rightarrow> (string \<Rightarrow> string \<Rightarrow> 'k \<Rightarrow> nat cpp \<times> 'k) \<Rightarrow> string option \<Rightarrow> string option \<Rightarrow>
   contexts \<Rightarrow> 'k \<Rightarrow> (nat option \<times> contexts \<times> 'k) cpp" where
  "io_ssl_create_server_ctx_with_certs pick createServer cert_path key_path C k = (case cert_path of
     None \<Rightarrow> Inr (None, C, k)
   | Some c \<Rightarrow> (case key_path of
       None \<Rightarrow> Inr (None, C, k)
     | Some y \<Rightarrow> ssl_handle pick (createServer c y) C k))"

definition io_ssl_free_ctx :: "'k system \<Rightarrow> nat option \<Rightarrow> contexts \<Rightarrow> 'k \<Rightarrow> (contexts \<times> 'k) cpp" where
  "io_ssl_free_ctx N p C k = (case p of
     None \<Rightarrow> Inr (C, k)
   | Some b \<Rightarrow> (case C b of
       None \<Rightarrow> Inl Dangling
     | Some c \<Rightarrow> Inr (C(b := None), ssl_ctx_free N c k)))"

text \<open>\<open>ssl_ctx ? ssl_ctx->ptr : nullptr\<close>.\<close>

definition ctx_ptr :: "nat option \<Rightarrow> contexts \<Rightarrow> nat option cpp" where
  "ctx_ptr p C = (case p of
     None \<Rightarrow> Inr None
   | Some b \<Rightarrow> (case C b of None \<Rightarrow> Inl Dangling | Some c \<Rightarrow> Inr (Some c)))"

section \<open>Clients\<close>

text \<open>\<open>tcp_client\<close> as an object: its stream and the context it releases.\<close>

type_synonym client_object = "tcp_streambuf stream \<times> nat option"

definition new_client ::
  "'k system \<Rightarrow> (string \<Rightarrow> string list) \<Rightarrow> string \<Rightarrow> int \<Rightarrow> nat option \<Rightarrow> bool \<Rightarrow> 'k \<Rightarrow> client_object cpp \<times> 'k" where
  "new_client N queryA host port ctx verify k = (case tcp_client N queryA host port ctx verify k of
     (Inl e, k) \<Rightarrow> (Inl e, k)
   | (Inr (t, c), k) \<Rightarrow> (Inr (mk_stream t, c), k))"

definition io_tcp_client_create ::
  "'k system \<Rightarrow> (string \<Rightarrow> string list) \<Rightarrow> client_object new \<Rightarrow> string option \<Rightarrow> int \<Rightarrow> client_object table \<Rightarrow> 'k \<Rightarrow>
   (nat option \<times> client_object table \<times> 'k) cpp" where
  "io_tcp_client_create N queryA pick host port T k = (case host of
     None \<Rightarrow> Inr (None, T, k)
   | Some s \<Rightarrow> c_new pick (new_client N queryA s port None True) T k)"

definition io_tcp_client_create_ssl ::
  "'k system \<Rightarrow> (string \<Rightarrow> string list) \<Rightarrow> client_object new \<Rightarrow> string option \<Rightarrow> int \<Rightarrow> nat option \<Rightarrow> int \<Rightarrow>
   contexts \<Rightarrow> client_object table \<Rightarrow> 'k \<Rightarrow> (nat option \<times> client_object table \<times> 'k) cpp" where
  "io_tcp_client_create_ssl N queryA pick host port ssl_ctx verify_certs C T k = (case host of
     None \<Rightarrow> Inr (None, T, k)
   | Some s \<Rightarrow> bindE (ctx_ptr ssl_ctx C) (\<lambda>ctx.
       c_new pick (new_client N queryA s port ctx (verify_certs \<noteq> 0)) T k))"

definition io_tcp_client_destroy ::
  "'k system \<Rightarrow> nat \<Rightarrow> nat option \<Rightarrow> client_object table \<Rightarrow> 'k \<Rightarrow> (client_object table \<times> 'k) cpp" where
  "io_tcp_client_destroy N f p T k =
     c_destroy (\<lambda>(st, c) k. bindE (tcp_client_destroy N f (rdbuf st, c) k) (\<lambda>(_, k). Inr k)) p T k"

definition io_tcp_client_write ::
  "'k system \<Rightarrow> nat \<Rightarrow> nat option \<Rightarrow> byte list option \<Rightarrow> client_object table \<Rightarrow> 'k \<Rightarrow>
   (int \<times> client_object table \<times> 'k) cpp" where
  "io_tcp_client_write N f p data T k = (case data of
     None \<Rightarrow> bindE (c_deref p T) (\<lambda>_. Inr (IO_ERROR, T, k))
   | Some bs \<Rightarrow> catching
       (with_object p IO_ERROR (\<lambda>(st, c) k. bindE (put_bytes (tcp_vtable N f) bs st k) (\<lambda>(r, st, k).
          Inr (r, (st, c), k))) T k)
       (\<lambda>_. Inr (IO_ERROR, T, k)))"

definition io_tcp_client_read ::
  "'k system \<Rightarrow> nat \<Rightarrow> nat option \<Rightarrow> byte list option \<Rightarrow> client_object table \<Rightarrow> 'k \<Rightarrow>
   ((int \<times> byte list option) \<times> client_object table \<times> 'k) cpp" where
  "io_tcp_client_read N f p buffer T k = (case buffer of
     None \<Rightarrow> bindE (c_deref p T) (\<lambda>_. Inr ((IO_ERROR, None), T, k))
   | Some m \<Rightarrow> catching
       (with_object p (IO_ERROR, buffer) (\<lambda>(st, c) k. bindE (get_bytes (tcp_vtable N f) m st k)
          (\<lambda>((r, m), st, k). Inr ((r, Some m), (st, c), k))) T k)
       (\<lambda>_. Inr ((IO_ERROR, buffer), T, k)))"

definition io_tcp_client_ssl_upgrade :: "nat option \<Rightarrow> nat option \<Rightarrow> nat option \<Rightarrow> int" where
  "io_tcp_client_ssl_upgrade client ctx ssl_ctx = IO_ERROR"

definition io_tcp_client_close ::
  "'k system \<Rightarrow> nat \<Rightarrow> nat option \<Rightarrow> client_object table \<Rightarrow> 'k \<Rightarrow> (int \<times> client_object table \<times> 'k) cpp" where
  "io_tcp_client_close N f p T k = catching
     (with_object p IO_ERROR (\<lambda>(st, c) k. bindE (tcp_iostream_close N f st k) (\<lambda>(r, st, k).
        Inr (success r, (st, c), k))) T k)
     (\<lambda>_. Inr (IO_ERROR, T, k))"

definition io_tcp_client_wait_readable ::
  "'k system \<Rightarrow> nat option \<Rightarrow> int \<Rightarrow> client_object table \<Rightarrow> 'k \<Rightarrow> (int \<times> client_object table \<times> 'k) cpp" where
  "io_tcp_client_wait_readable N p timeout_ms T k =
     with_object p IO_ERROR (\<lambda>(st, c) k. case tcp_wait_readable N (rdbuf st) timeout_ms k of (r, k) \<Rightarrow>
       Inr (success r, (st, c), k)) T k"

definition io_tcp_client_wait_writable ::
  "'k system \<Rightarrow> nat option \<Rightarrow> int \<Rightarrow> client_object table \<Rightarrow> 'k \<Rightarrow> (int \<times> client_object table \<times> 'k) cpp" where
  "io_tcp_client_wait_writable N p timeout_ms T k =
     with_object p IO_ERROR (\<lambda>(st, c) k. case tcp_wait_writable N (rdbuf st) timeout_ms k of (r, k) \<Rightarrow>
       Inr (success r, (st, c), k)) T k"

definition io_tcp_client_bytes_available ::
  "'k system \<Rightarrow> nat option \<Rightarrow> client_object table \<Rightarrow> 'k \<Rightarrow> (int \<times> client_object table \<times> 'k) cpp" where
  "io_tcp_client_bytes_available N p T k = catching
     (with_object p IO_ERROR (\<lambda>(st, c) k. bindE (bytes_available N (rdbuf st) k) (\<lambda>n. Inr (n, (st, c), k))) T k)
     (\<lambda>_. Inr (IO_ERROR, T, k))"

section \<open>Servers\<close>

text \<open>\<open>junk\<close> is the first value of the server's counter, which is not initialised.\<close>

type_synonym servers = "tcp_server table"

definition io_tcp_server_create ::
  "'k system \<Rightarrow> nat \<Rightarrow> nat \<Rightarrow> tcp_server new \<Rightarrow> int \<Rightarrow> servers \<Rightarrow> 'k \<Rightarrow> (nat option \<times> servers \<times> 'k) cpp" where
  "io_tcp_server_create N f junk pick port T k = c_new pick (tcp_server_ctor N f junk port False None) T k"

definition io_tcp_server_create_ssl ::
  "'k system \<Rightarrow> nat \<Rightarrow> nat \<Rightarrow> tcp_server new \<Rightarrow> int \<Rightarrow> nat option \<Rightarrow> int \<Rightarrow> contexts \<Rightarrow> servers \<Rightarrow> 'k \<Rightarrow>
   (nat option \<times> servers \<times> 'k) cpp" where
  "io_tcp_server_create_ssl N f junk pick port ssl_ctx enable_non_blocking C T k =
     bindE (ctx_ptr ssl_ctx C) (\<lambda>ctx. c_new pick (tcp_server_ctor N f junk port False ctx) T k)"

definition io_tcp_server_create_bitstream ::
  "'k system \<Rightarrow> nat \<Rightarrow> nat \<Rightarrow> tcp_server new \<Rightarrow> int \<Rightarrow> int \<Rightarrow> nat option \<Rightarrow> int \<Rightarrow> contexts \<Rightarrow> servers \<Rightarrow> 'k \<Rightarrow>
   (nat option \<times> servers \<times> 'k) cpp" where
  "io_tcp_server_create_bitstream N f junk pick port bit_stream ssl_ctx enable_non_blocking C T k =
     bindE (ctx_ptr ssl_ctx C) (\<lambda>ctx. c_new pick (tcp_server_ctor N f junk port (bit_stream \<noteq> 0) ctx) T k)"

definition io_tcp_server_destroy ::
  "'k system \<Rightarrow> nat \<Rightarrow> (tcp_server \<Rightarrow> client_tuple list) \<Rightarrow> nat option \<Rightarrow> servers \<Rightarrow> 'k \<Rightarrow> (servers \<times> 'k) cpp" where
  "io_tcp_server_destroy N f order p T k = c_destroy (tcp_server_destroy N f order) p T k"

text \<open>
  The handle of a client's stream points into the server's map: to the stream of a client, which belongs
  to the server.  It holds the descriptor and the number zero.  A stream that is gone is noticed here as
  long as no new server has taken the place of the old one.
\<close>

record io_tcp_stream =
  ts_server :: nat
  ts_client :: nat
  ts_fd :: int
  ts_client_id :: nat

type_synonym tcp_streams = "nat \<Rightarrow> io_tcp_stream option"

text \<open>The results are the handle and, when the caller asks for it, the client's number.\<close>

definition io_tcp_server_accept ::
  "'k system \<Rightarrow> (tcp_streams \<Rightarrow> nat option) \<Rightarrow> nat option \<Rightarrow> bool \<Rightarrow> servers \<Rightarrow> tcp_streams \<Rightarrow> 'k \<Rightarrow>
   ((nat option \<times> nat option) \<times> servers \<times> tcp_streams \<times> 'k) cpp" where
  "io_tcp_server_accept N pick p out_client_id T S k = bindE (c_deref p T) (\<lambda>r. case r of
     None \<Rightarrow> Inr ((None, None), T, S, k)
   | Some (a, sv) \<Rightarrow> (case acceptOne N sv k of (sock, cid, sv, k) \<Rightarrow>
       (let T = T\<lparr>objects := (objects T)(a \<mapsto> sv)\<rparr>;
            n = (if out_client_id then Some 0 else None)
        in if sock < 0 then Inr ((None, None), T, S, k)
           else (case cid of
             None \<Rightarrow> Inr ((None, None), T, S, k)
           | Some c \<Rightarrow> (case pick S of
               None \<Rightarrow> Inr ((None, n), T, S, k)
             | Some b \<Rightarrow> Inr ((Some b, n), T,
                 S(b \<mapsto> \<lparr>ts_server = a, ts_client = c, ts_fd = sock, ts_client_id = 0\<rparr>), k))))))"

definition io_tcp_server_close_client ::
  "'k system \<Rightarrow> nat \<Rightarrow> nat option \<Rightarrow> nat \<Rightarrow> servers \<Rightarrow> 'k \<Rightarrow> (int \<times> servers \<times> 'k) cpp" where
  "io_tcp_server_close_client N f p client_id T k = catching
     (with_object p IO_ERROR (\<lambda>sv k. bindE (closeClient N f False client_id sv k) (\<lambda>(r, sv, k).
        Inr (success r, sv, k))) T k)
     (\<lambda>_. Inr (IO_ERROR, T, k))"

definition io_tcp_server_close ::
  "'k system \<Rightarrow> nat \<Rightarrow> nat option \<Rightarrow> servers \<Rightarrow> 'k \<Rightarrow> (int \<times> servers \<times> 'k) cpp" where
  "io_tcp_server_close N f p T k = catching
     (with_object p IO_ERROR (\<lambda>sv k. bindE (server_close N f sv k) (\<lambda>(r, sv, k). Inr (success r, sv, k))) T k)
     (\<lambda>_. Inr (IO_ERROR, T, k))"

section \<open>The streams of a server's clients\<close>

definition io_tcp_stream_destroy :: "nat option \<Rightarrow> tcp_streams \<Rightarrow> tcp_streams cpp" where
  "io_tcp_stream_destroy p S = (case p of
     None \<Rightarrow> Inr S
   | Some b \<Rightarrow> if S b = None then Inl Dangling else Inr (S(b := None)))"

text \<open>A call on the stream of a handle, with the result for a null one; the pointer in it is never null.\<close>

definition with_stream ::
  "nat option \<Rightarrow> 'r \<Rightarrow> (tcp_streambuf stream \<Rightarrow> 'k \<Rightarrow> ('r \<times> tcp_streambuf stream \<times> 'k) cpp) \<Rightarrow>
   tcp_streams \<Rightarrow> servers \<Rightarrow> 'k \<Rightarrow> ('r \<times> servers \<times> 'k) cpp" where
  "with_stream p dflt g S T k = (case p of
     None \<Rightarrow> Inr (dflt, T, k)
   | Some b \<Rightarrow> (case S b of
       None \<Rightarrow> Inl Dangling
     | Some x \<Rightarrow> (case objects T (ts_server x) of
         None \<Rightarrow> Inl Dangling
       | Some sv \<Rightarrow> (case clientStreamMap sv (ts_client x) of
           None \<Rightarrow> Inl Dangling
         | Some (sock, ser, st) \<Rightarrow> bindE (g st k) (\<lambda>(r, st, k).
             Inr (r, T\<lparr>objects := (objects T)(ts_server x \<mapsto>
               sv\<lparr>clientStreamMap := (clientStreamMap sv)(ts_client x \<mapsto> (sock, ser, st))\<rparr>)\<rparr>, k))))))"

text \<open>The same when nothing is done with the stream: only the handle is looked at.\<close>

definition look_at_stream :: "nat option \<Rightarrow> tcp_streams \<Rightarrow> unit cpp" where
  "look_at_stream p S = (case p of
     None \<Rightarrow> Inr ()
   | Some b \<Rightarrow> if S b = None then Inl Dangling else Inr ())"

definition io_tcp_stream_write ::
  "'k system \<Rightarrow> nat \<Rightarrow> nat option \<Rightarrow> byte list option \<Rightarrow> tcp_streams \<Rightarrow> servers \<Rightarrow> 'k \<Rightarrow> (int \<times> servers \<times> 'k) cpp" where
  "io_tcp_stream_write N f p data S T k = (case data of
     None \<Rightarrow> bindE (look_at_stream p S) (\<lambda>_. Inr (IO_ERROR, T, k))
   | Some bs \<Rightarrow> catching
       (with_stream p IO_ERROR (put_bytes (tcp_vtable N f) bs) S T k) (\<lambda>_. Inr (IO_ERROR, T, k)))"

definition io_tcp_stream_read ::
  "'k system \<Rightarrow> nat \<Rightarrow> nat option \<Rightarrow> byte list option \<Rightarrow> tcp_streams \<Rightarrow> servers \<Rightarrow> 'k \<Rightarrow>
   ((int \<times> byte list option) \<times> servers \<times> 'k) cpp" where
  "io_tcp_stream_read N f p buffer S T k = (case buffer of
     None \<Rightarrow> bindE (look_at_stream p S) (\<lambda>_. Inr ((IO_ERROR, None), T, k))
   | Some m \<Rightarrow> catching
       (with_stream p (IO_ERROR, buffer) (\<lambda>st k. bindE (get_bytes (tcp_vtable N f) m st k)
          (\<lambda>((r, m), st, k). Inr ((r, Some m), st, k))) S T k)
       (\<lambda>_. Inr ((IO_ERROR, buffer), T, k)))"

definition io_tcp_stream_ssl_upgrade :: "nat option \<Rightarrow> nat option \<Rightarrow> nat option \<Rightarrow> int" where
  "io_tcp_stream_ssl_upgrade stream ctx ssl_ctx = IO_ERROR"

definition io_tcp_stream_close ::
  "'k system \<Rightarrow> nat \<Rightarrow> nat option \<Rightarrow> tcp_streams \<Rightarrow> servers \<Rightarrow> 'k \<Rightarrow> (int \<times> servers \<times> 'k) cpp" where
  "io_tcp_stream_close N f p S T k = catching
     (with_stream p IO_ERROR (\<lambda>st k. bindE (tcp_iostream_close N f st k) (\<lambda>(r, st, k).
        Inr (success r, st, k))) S T k)
     (\<lambda>_. Inr (IO_ERROR, T, k))"

definition io_tcp_stream_wait_readable ::
  "'k system \<Rightarrow> nat option \<Rightarrow> int \<Rightarrow> tcp_streams \<Rightarrow> servers \<Rightarrow> 'k \<Rightarrow> (int \<times> servers \<times> 'k) cpp" where
  "io_tcp_stream_wait_readable N p timeout_ms S T k =
     with_stream p IO_ERROR (\<lambda>st k. case tcp_wait_readable N (rdbuf st) timeout_ms k of (r, k) \<Rightarrow>
       Inr (success r, st, k)) S T k"

definition io_tcp_stream_wait_writable ::
  "'k system \<Rightarrow> nat option \<Rightarrow> int \<Rightarrow> tcp_streams \<Rightarrow> servers \<Rightarrow> 'k \<Rightarrow> (int \<times> servers \<times> 'k) cpp" where
  "io_tcp_stream_wait_writable N p timeout_ms S T k =
     with_stream p IO_ERROR (\<lambda>st k. case tcp_wait_writable N (rdbuf st) timeout_ms k of (r, k) \<Rightarrow>
       Inr (success r, st, k)) S T k"

section \<open>What a read stores\<close>

lemma tcp_vtable_sgetn [simp]: "sgetn (tcp_vtable N f) = tcp_xsgetn N f"
  by (simp add: tcp_vtable_def)

lemma get_bytes_tcp:
  assumes "reliable N incoming (fd (rdbuf st))" and "ssl (rdbuf st) = None" and "length m < 2 ^ 31"
  shows "\<exists>r m' st' k'. get_bytes (tcp_vtable N f) m st k = Inr ((int r, m'), st', k') \<and> r \<le> length m \<and>
    length m' = length m \<and> incoming k = take r m' @ incoming k' \<and> drop r m' = drop r m \<and>
    fd (rdbuf st') = fd (rdbuf st) \<and> ssl (rdbuf st') = None"
proof (cases "good st")
  case True
  obtain bs t k' where x: "tcp_xsgetn N f (length m) (rdbuf st, k) = Inr (bs, t, k')"
      "incoming k = bs @ incoming k'" "length bs \<le> length m" "fd t = fd (rdbuf st)" "ssl t = None"
    using tcp_xsgetn_reliable [OF assms, of f k] by blast
  have n: "length m < 2 ^ 63" "i64 (int (length bs)) = int (length bs)" using assms(3) x(3) by simp_all
  obtain st' where "get_bytes (tcp_vtable N f) m st k = Inr ((int (length bs), blit 0 bs m), st', k')"
      "rdbuf st' = t"
    using True x(1) n
    by (simp add: get_bytes_def istream_read_def stream_state_def Let_def)
  moreover have "take (length bs) (blit 0 bs m) = bs" "drop (length bs) (blit 0 bs m) = drop (length bs) m"
      "length (blit 0 bs m) = length m"
    using x(3) by (simp_all add: blit_def)
  ultimately show ?thesis using x(2-5) by metis
next
  case False
  have "get_bytes (tcp_vtable N f) m st k = Inr ((int 0, blit 0 [] m), st\<lparr>gcount := 0, failbit := True\<rparr>, k)"
    using False by (simp add: get_bytes_def istream_read_def)
  moreover have "blit 0 [] m = m" by (simp add: blit_def)
  ultimately show ?thesis using assms(2) by (intro exI conjI) (assumption | simp)+
qed

text \<open>The calls of a program that reads into one buffer after the other.\<close>

fun c_tcp_reads ::
  "'k system \<Rightarrow> nat \<Rightarrow> nat option \<Rightarrow> byte list list \<Rightarrow> client_object table \<Rightarrow> 'k \<Rightarrow>
   ((int \<times> byte list option) list \<times> client_object table \<times> 'k) cpp" where
  "c_tcp_reads N f p [] T k = Inr ([], T, k)"
| "c_tcp_reads N f p (m # ms) T k = bindE (io_tcp_client_read N f p (Some m) T k) (\<lambda>(r, T, k).
     bindE (c_tcp_reads N f p ms T k) (\<lambda>(rs, T, k). Inr (r # rs, T, k)))"

text \<open>A result that stays within the buffer it was given and leaves the rest of it alone.\<close>

definition within :: "int \<times> byte list option \<Rightarrow> byte list \<Rightarrow> bool" where
  "within x m \<longleftrightarrow> (\<exists>r m'. x = (int r, Some m') \<and> r \<le> length m \<and> length m' = length m \<and> drop r m' = drop r m)"

definition stored :: "int \<times> byte list option \<Rightarrow> byte list" where
  "stored x = take (nat (fst x)) (the (snd x))"

text \<open>C12: every read through a client's handle answers a count between zero and the size of the buffer,
  changes only that many bytes of it, and the bytes stored by one read after the other are what the peer
  sent, in order and without a gap.\<close>

theorem c_tcp_read_bounds:
  assumes "reliable N incoming (fd (rdbuf st))" and "ssl (rdbuf st) = None" and "\<forall>m \<in> set ms. length m < 2 ^ 31"
    and "alive b a (st, c) T"
  shows "\<exists>rs T' k'. c_tcp_reads N f (Some b) ms T k = Inr (rs, T', k') \<and> list_all2 within rs ms \<and>
    incoming k = concat (map stored rs) @ incoming k'"
  using assms
proof (induction ms arbitrary: st T k)
  case (Cons m ms)
  have "length m < 2 ^ 31" using Cons.prems(3) by simp
  from get_bytes_tcp [OF Cons.prems(1,2) this, of f k] obtain r m' st' k1 where
    g: "get_bytes (tcp_vtable N f) m st k = Inr ((int r, m'), st', k1)" and
    r: "r \<le> length m" "length m' = length m" "drop r m' = drop r m" and
    i: "incoming k = take r m' @ incoming k1" and s: "fd (rdbuf st') = fd (rdbuf st)" "ssl (rdbuf st') = None"
    by blast
  let ?T = "T\<lparr>objects := (objects T)(a \<mapsto> (st', c))\<rparr>"
  have "io_tcp_client_read N f (Some b) (Some m) T k = Inr ((int r, Some m'), ?T, k1)"
    unfolding io_tcp_client_read_def option.case
    by (subst with_object_alive [OF Cons.prems(4), where w' = k1 and x' = "(st', c)" and r = "(int r, Some m')"])
      (simp_all add: g)
  moreover obtain rs T' k' where "c_tcp_reads N f (Some b) ms ?T k1 = Inr (rs, T', k')" "list_all2 within rs ms"
      "incoming k1 = concat (map stored rs) @ incoming k'"
    using Cons.IH [of st' ?T k1] Cons.prems s alive_update [OF Cons.prems(4), of "(st', c)"] by auto
  moreover have "within (int r, Some m') m" using r by (auto simp: within_def)
  moreover have "stored (int r, Some m') = take r m'" by (simp add: stored_def)
  ultimately show ?case using i by simp
qed simp

text \<open>Two buffers against a connection that delivers five bytes in two pieces.\<close>

theorem c_tcp_read_bounds_witness:
  "\<exists>b T rs T' k'. io_tcp_client_create pipe_system (\<lambda>h. []) first_new (Some ''10.0.0.1'') 80 empty_table demo_pipe =
      Inr (Some b, T, k') \<and>
    (\<exists>k''. c_tcp_reads pipe_system 0 (Some b) [[0, 0], [7, 7, 7]] T k' = Inr (rs, T', k'') \<and>
      list_all2 within rs [[0, 0], [7, 7, 7]] \<and> [1, 2, 3, 4, 5] = concat (map stored rs) @ concat (inbox k''))"
proof -
  let ?k = "demo_pipe\<lparr>open_fds := [4, 3]\<rparr>"
  let ?st = "mk_stream (tcp_streambuf_ctor (4, None))"
  have ip: "resolve_host_or_ip_to_ip (\<lambda>h. []) ''10.0.0.1'' = Inr ''10.0.0.1''" by code_simp
  have "new_client pipe_system (\<lambda>h. []) ''10.0.0.1'' 80 None True demo_pipe = (Inr (?st, None), ?k)"
    by (simp add: new_client_def tcp_client_def tcp_connect_def ip) (simp add: pipe_system_def pipe_open_def demo_pipe_def)
  from c_new_alive [OF first_new_fresh empty_table_finite, of "new_client pipe_system (\<lambda>h. []) ''10.0.0.1'' 80 None True",
      OF this]
  obtain b a where b: "io_tcp_client_create pipe_system (\<lambda>h. []) first_new (Some ''10.0.0.1'') 80 empty_table demo_pipe =
      Inr (Some b, with_handle b a (?st, None) empty_table, ?k)"
    by (auto simp: io_tcp_client_create_def)
  have "\<exists>rs T' k''. c_tcp_reads pipe_system 0 (Some b) [[0, 0], [7, 7, 7]] (with_handle b a (?st, None) empty_table) ?k =
      Inr (rs, T', k'') \<and> list_all2 within rs [[0, 0], [7, 7, 7]] \<and>
      concat (inbox ?k) = concat (map stored rs) @ concat (inbox k'')"
    by (rule c_tcp_read_bounds [OF pipe_reliable _ _ with_handle_alive])
      (simp_all add: mk_stream_def tcp_streambuf_ctor_def)
  with b show ?thesis by (simp add: demo_pipe_def del: c_tcp_reads.simps)
qed

section \<open>What the handles of a server's clients do not say\<close>

text \<open>
  \<open>io_tcp_server_accept\<close> reports the number zero whatever number the server gave, so a program cannot close
  the client by the number it was told.
\<close>

lemma accept_reports_zero:
  assumes "alive b a sv T" and "io_tcp_server_accept N pick (Some b) True T S k = Inr ((Some s, n), T', S', k')"
  shows "n = Some 0"
  using assms by (auto simp: io_tcp_server_accept_def c_deref_alive Let_def split: prod.splits if_splits option.splits)

lemma close_reported_client_fails:
  assumes "alive b a sv T" and "clientStreamMap sv 0 = None"
  shows "io_tcp_server_close_client N f (Some b) 0 T k = Inr (IO_ERROR, T\<lparr>objects := (objects T)(a \<mapsto> sv)\<rparr>, k)"
  unfolding io_tcp_server_close_client_def
  by (subst with_object_alive [OF assms(1), where r = IO_ERROR and x' = sv and w' = k])
    (simp_all add: closeClient_def assms(2) success_def)

text \<open>The handle of a client's stream outlives the stream: after the client is closed its use is undefined.\<close>

lemma stream_dangles:
  assumes "alive b a sv T" and "S p = Some x" and "ts_server x = a"
    and "closeClient N f False (ts_client x) sv k = Inr (True, sv', k')"
  shows "io_tcp_server_close_client N f (Some b) (ts_client x) T k =
      Inr (IO_SUCCESS, T\<lparr>objects := (objects T)(a \<mapsto> sv')\<rparr>, k') \<and>
    io_tcp_stream_read N f (Some p) (Some m) S (T\<lparr>objects := (objects T)(a \<mapsto> sv')\<rparr>) k' = Inl Dangling"
proof
  show "io_tcp_server_close_client N f (Some b) (ts_client x) T k =
      Inr (IO_SUCCESS, T\<lparr>objects := (objects T)(a \<mapsto> sv')\<rparr>, k')"
    unfolding io_tcp_server_close_client_def
    by (subst with_object_alive [OF assms(1), where r = IO_SUCCESS and x' = sv' and w' = k'])
      (simp_all add: assms(4) success_def)
  have "clientStreamMap sv' (ts_client x) = None" using closeClient_map [OF assms(4)] by simp
  then show "io_tcp_stream_read N f (Some p) (Some m) S (T\<lparr>objects := (objects T)(a \<mapsto> sv')\<rparr>) k' = Inl Dangling"
    using assms(2,3) by (simp add: io_tcp_stream_read_def with_stream_def catching_def)
qed

text \<open>
  A client made over a context frees it when it is destroyed, although the handle of the context still
  points to it: giving the handle back frees it a second time.
\<close>

lemma client_and_handle_free_context:
  assumes "alive b a (st, Some c) T" and "C h = Some c"
    and "tcp_destroy N f (rdbuf st, ssl_ctx_free N c k) = Inr (t, k1)"
  shows "\<exists>T'. io_tcp_client_destroy N f (Some b) T k = Inr (T', k1) \<and>
    io_ssl_free_ctx N (Some h) C k1 = Inr (C(h := None), ssl_ctx_free N c k1)"
  using assms by (simp add: io_tcp_client_destroy_def c_destroy_def alive_def tcp_client_destroy_def io_ssl_free_ctx_def)

end
