(* ===== verification/C_Udp.thy ===== *)
theory C_Udp
  imports C_Common Multicast
begin

text \<open>
  The \<open>io_udp_\<close> and \<open>io_udpmc_\<close> functions of c_api.cpp.  The streams of a server's senders are shared
  between the server and the handles given out, so they are counted.
\<close>

section \<open>Datagram streams\<close>

text \<open>A handle over a stream that it owns, with the functions every such handle has.\<close>

type_synonym udp_object = "udp_streambuf stream"

definition udp_object_destroy ::
  "'k udp_system \<Rightarrow> nat option \<Rightarrow> udp_object table \<Rightarrow> 'k \<Rightarrow> (udp_object table \<times> 'k) cpp" where
  "udp_object_destroy N p T k = c_destroy (\<lambda>st k. Inr (udp_destroy N (rdbuf st, k))) p T k"

definition udp_object_write ::
  "'k udp_system \<Rightarrow> nat option \<Rightarrow> byte list option \<Rightarrow> udp_object table \<Rightarrow> 'k \<Rightarrow>
   (int \<times> udp_object table \<times> 'k) cpp" where
  "udp_object_write N p data T k = (case data of
     None \<Rightarrow> bindE (c_deref p T) (\<lambda>_. Inr (IO_ERROR, T, k))
   | Some bs \<Rightarrow> catching (with_object p IO_ERROR (put_bytes (udp_vtable N) bs) T k)
       (\<lambda>_. Inr (IO_ERROR, T, k)))"

definition udp_object_read ::
  "'k udp_system \<Rightarrow> nat option \<Rightarrow> byte list option \<Rightarrow> udp_object table \<Rightarrow> 'k \<Rightarrow>
   ((int \<times> byte list option) \<times> udp_object table \<times> 'k) cpp" where
  "udp_object_read N p buffer T k = (case buffer of
     None \<Rightarrow> bindE (c_deref p T) (\<lambda>_. Inr ((IO_ERROR, None), T, k))
   | Some m \<Rightarrow> catching
       (with_object p (IO_ERROR, buffer) (\<lambda>st k. bindE (get_bytes (udp_vtable N) m st k)
          (\<lambda>((r, m), st, k). Inr ((r, Some m), st, k))) T k)
       (\<lambda>_. Inr ((IO_ERROR, buffer), T, k)))"

definition as_stream :: "'b cpp \<times> 'k \<Rightarrow> 'b stream cpp \<times> 'k" where
  "as_stream r = (case r of (Inl e, k) \<Rightarrow> (Inl e, k) | (Inr u, k) \<Rightarrow> (Inr (mk_stream u), k))"

section \<open>Clients\<close>

definition io_udp_client_create ::
  "'k udp_system \<Rightarrow> udp_object new \<Rightarrow> string option \<Rightarrow> int \<Rightarrow> udp_object table \<Rightarrow> 'k \<Rightarrow>
   (nat option \<times> udp_object table \<times> 'k) cpp" where
  "io_udp_client_create N pick host port T k = (case host of
     None \<Rightarrow> Inr (None, T, k)
   | Some s \<Rightarrow> c_new pick (\<lambda>k. as_stream (udp_client N s port k)) T k)"

definition io_udp_client_destroy ::
  "'k udp_system \<Rightarrow> nat option \<Rightarrow> udp_object table \<Rightarrow> 'k \<Rightarrow> (udp_object table \<times> 'k) cpp" where
  "io_udp_client_destroy N p T k = udp_object_destroy N p T k"

definition io_udp_client_write ::
  "'k udp_system \<Rightarrow> nat option \<Rightarrow> byte list option \<Rightarrow> udp_object table \<Rightarrow> 'k \<Rightarrow> (int \<times> udp_object table \<times> 'k) cpp" where
  "io_udp_client_write N p data T k = udp_object_write N p data T k"

definition io_udp_client_read ::
  "'k udp_system \<Rightarrow> nat option \<Rightarrow> byte list option \<Rightarrow> udp_object table \<Rightarrow> 'k \<Rightarrow>
   ((int \<times> byte list option) \<times> udp_object table \<times> 'k) cpp" where
  "io_udp_client_read N p buffer T k = udp_object_read N p buffer T k"

text \<open>It closes nothing.\<close>

definition io_udp_client_close :: "nat option \<Rightarrow> udp_object table \<Rightarrow> int cpp" where
  "io_udp_client_close p T = bindE (c_deref p T) (\<lambda>r. Inr (if r = None then IO_ERROR else IO_SUCCESS))"

section \<open>Multicast\<close>

definition io_udpmc_sender_create ::
  "'k mc_system \<Rightarrow> (string \<Rightarrow> string list) \<Rightarrow> udp_object new \<Rightarrow> string option \<Rightarrow> int \<Rightarrow> udp_object table \<Rightarrow> 'k \<Rightarrow>
   (nat option \<times> udp_object table \<times> 'k) cpp" where
  "io_udpmc_sender_create M queryA pick host port T k = (case host of
     None \<Rightarrow> Inr (None, T, k)
   | Some s \<Rightarrow> c_new pick (\<lambda>k. case udpmc_sender M queryA s port k of
       (Inl e, k) \<Rightarrow> (Inl e, k)
     | (Inr x, k) \<Rightarrow> (Inr (mk_stream (mcs_buf x)), k)) T k)"

definition io_udpmc_sender_destroy ::
  "'k mc_system \<Rightarrow> nat option \<Rightarrow> udp_object table \<Rightarrow> 'k \<Rightarrow> (udp_object table \<times> 'k) cpp" where
  "io_udpmc_sender_destroy M p T k = udp_object_destroy (mc_udp M) p T k"

definition io_udpmc_sender_write ::
  "'k mc_system \<Rightarrow> nat option \<Rightarrow> byte list option \<Rightarrow> udp_object table \<Rightarrow> 'k \<Rightarrow> (int \<times> udp_object table \<times> 'k) cpp" where
  "io_udpmc_sender_write M p data T k = udp_object_write (mc_udp M) p data T k"

definition io_udpmc_receiver_create ::
  "'k mc_system \<Rightarrow> (string \<Rightarrow> string list) \<Rightarrow> udp_object new \<Rightarrow> string option \<Rightarrow> int \<Rightarrow> udp_object table \<Rightarrow> 'k \<Rightarrow>
   (nat option \<times> udp_object table \<times> 'k) cpp" where
  "io_udpmc_receiver_create M queryA pick host port T k = (case host of
     None \<Rightarrow> Inr (None, T, k)
   | Some s \<Rightarrow> c_new pick (\<lambda>k. as_stream (udpmc_receiver M queryA s port k)) T k)"

definition io_udpmc_receiver_destroy ::
  "'k mc_system \<Rightarrow> nat option \<Rightarrow> udp_object table \<Rightarrow> 'k \<Rightarrow> (udp_object table \<times> 'k) cpp" where
  "io_udpmc_receiver_destroy M p T k = udp_object_destroy (mc_udp M) p T k"

definition io_udpmc_receiver_read ::
  "'k mc_system \<Rightarrow> nat option \<Rightarrow> byte list option \<Rightarrow> udp_object table \<Rightarrow> 'k \<Rightarrow>
   ((int \<times> byte list option) \<times> udp_object table \<times> 'k) cpp" where
  "io_udpmc_receiver_read M p buffer T k = udp_object_read (mc_udp M) p buffer T k"

text \<open>Closing does nothing.\<close>

definition io_udpmc_sender_close :: "nat option \<Rightarrow> unit" where
  "io_udpmc_sender_close p = ()"

definition io_udpmc_receiver_close :: "nat option \<Rightarrow> unit" where
  "io_udpmc_receiver_close p = ()"

section \<open>Servers and the streams of their senders\<close>

text \<open>
  The streams, how many owners each has, and the handles given out: a handle holds a shared pointer,
  \<open>None\<close> once it is reset.
\<close>

record shared_streams =
  sh_streams :: udp_heap
  sh_owners :: "nat \<Rightarrow> nat"
  sh_handles :: "nat \<Rightarrow> nat option option"

text \<open>One owner less; the last one destroys the stream.\<close>

definition release_stream ::
  "'k udp_system \<Rightarrow> nat \<Rightarrow> shared_streams \<Rightarrow> 'k \<Rightarrow> (shared_streams \<times> 'k) cpp" where
  "release_stream N a H k = (case sh_streams H a of
     None \<Rightarrow> Inl Dangling
   | Some st \<Rightarrow>
       if sh_owners H a \<le> 1 then
         Inr (H\<lparr>sh_streams := (sh_streams H)(a := None), sh_owners := (sh_owners H)(a := 0)\<rparr>,
           udp_destroy N (rdbuf st, k))
       else Inr (H\<lparr>sh_owners := (sh_owners H)(a := sh_owners H a - 1)\<rparr>, k))"

fun release_streams ::
  "'k udp_system \<Rightarrow> nat list \<Rightarrow> shared_streams \<Rightarrow> 'k \<Rightarrow> (shared_streams \<times> 'k) cpp" where
  "release_streams N [] H k = Inr (H, k)"
| "release_streams N (a # as) H k = bindE (release_stream N a H k) (\<lambda>(H, k). release_streams N as H k)"

definition io_udp_server_create ::
  "'k udp_system \<Rightarrow> udp_server new \<Rightarrow> int \<Rightarrow> udp_server table \<Rightarrow> 'k \<Rightarrow> (nat option \<times> udp_server table \<times> 'k) cpp" where
  "io_udp_server_create N pick port T k = c_new pick (udp_server_ctor N port False) T k"

definition io_udp_server_create_bitstream ::
  "'k udp_system \<Rightarrow> udp_server new \<Rightarrow> int \<Rightarrow> int \<Rightarrow> udp_server table \<Rightarrow> 'k \<Rightarrow>
   (nat option \<times> udp_server table \<times> 'k) cpp" where
  "io_udp_server_create_bitstream N pick port bit_stream T k =
     c_new pick (udp_server_ctor N port (bit_stream \<noteq> 0)) T k"

text \<open>
  \<open>udp_server\<close> has no destructor of its own: its map gives up the streams, in some order that is an
  argument, and its descriptor stays open unless a stream that goes with it closes it.
\<close>

definition io_udp_server_destroy ::
  "'k udp_system \<Rightarrow> (udp_server \<Rightarrow> nat list) \<Rightarrow> nat option \<Rightarrow> udp_server table \<Rightarrow> shared_streams \<Rightarrow> 'k \<Rightarrow>
   (udp_server table \<times> shared_streams \<times> 'k) cpp" where
  "io_udp_server_destroy N order p T H k =
     c_destroy (\<lambda>sv (H, k). release_streams N (order sv) H k) p T (H, k)"

text \<open>
  A new stream has the map as its first owner, also when \<open>receiveOne\<close> then throws; the pointer the
  function holds becomes the handle's, or is given up again when there is no handle.
\<close>

definition io_udp_server_receive ::
  "'k udp_system \<Rightarrow> sockaddr \<Rightarrow> nat \<Rightarrow> (shared_streams \<Rightarrow> nat option) \<Rightarrow> nat option \<Rightarrow> int \<Rightarrow> nat \<Rightarrow>
   udp_server table \<Rightarrow> shared_streams \<Rightarrow> 'k \<Rightarrow> (nat option \<times> udp_server table \<times> shared_streams \<times> 'k) cpp" where
  "io_udp_server_receive N junk new pick p non_block timeout_us T H k =
     bindE (c_deref p T) (\<lambda>r. case r of
       None \<Rightarrow> Inr (None, T, H, k)
     | Some (x, sv) \<Rightarrow>
         (case receiveOne N junk new (non_block \<noteq> 0) timeout_us sv (sh_streams H) k of (m, sv, h, k) \<Rightarrow>
           (let T = T\<lparr>objects := (objects T)(x \<mapsto> sv)\<rparr>;
                w = (if sh_streams H new = None \<and> h new \<noteq> None then (sh_owners H)(new := 1) else sh_owners H);
                H = H\<lparr>sh_streams := h, sh_owners := w\<rparr>
            in catching (bindE m (\<lambda>a. (case pick H of
                 None \<Rightarrow> Inr (None, T, H, k)
               | Some b \<Rightarrow> Inr (Some b, T, H\<lparr>sh_owners := w(a := w a + 1),
                   sh_handles := (sh_handles H)(b \<mapsto> Some a)\<rparr>, k))))
               (\<lambda>_. Inr (None, T, H, k)))))"

text \<open>It does nothing.\<close>

definition io_udp_server_close :: "nat option \<Rightarrow> unit" where
  "io_udp_server_close p = ()"

definition drop_pointer ::
  "'k udp_system \<Rightarrow> nat option \<Rightarrow> shared_streams \<Rightarrow> 'k \<Rightarrow> (shared_streams \<times> 'k) cpp" where
  "drop_pointer N q H k = (case q of None \<Rightarrow> Inr (H, k) | Some a \<Rightarrow> release_stream N a H k)"

definition io_udp_stream_destroy ::
  "'k udp_system \<Rightarrow> nat option \<Rightarrow> shared_streams \<Rightarrow> 'k \<Rightarrow> (shared_streams \<times> 'k) cpp" where
  "io_udp_stream_destroy N p H k = (case p of
     None \<Rightarrow> Inr (H, k)
   | Some b \<Rightarrow> (case sh_handles H b of
       None \<Rightarrow> Inl Dangling
     | Some q \<Rightarrow> drop_pointer N q (H\<lparr>sh_handles := (sh_handles H)(b := None)\<rparr>) k))"

definition io_udp_stream_close ::
  "'k udp_system \<Rightarrow> nat option \<Rightarrow> shared_streams \<Rightarrow> 'k \<Rightarrow> (int \<times> shared_streams \<times> 'k) cpp" where
  "io_udp_stream_close N p H k = (case p of
     None \<Rightarrow> Inr (IO_ERROR, H, k)
   | Some b \<Rightarrow> (case sh_handles H b of
       None \<Rightarrow> Inl Dangling
     | Some q \<Rightarrow> bindE (drop_pointer N q (H\<lparr>sh_handles := (sh_handles H)(b \<mapsto> None)\<rparr>) k)
         (\<lambda>(H, k). Inr (IO_SUCCESS, H, k))))"

text \<open>A call on the stream of a handle, with the result for a null handle or pointer.\<close>

definition with_shared ::
  "nat option \<Rightarrow> 'r \<Rightarrow> (udp_object \<Rightarrow> 'k \<Rightarrow> ('r \<times> udp_object \<times> 'k) cpp) \<Rightarrow> shared_streams \<Rightarrow> 'k \<Rightarrow>
   ('r \<times> shared_streams \<times> 'k) cpp" where
  "with_shared p dflt g H k = (case p of
     None \<Rightarrow> Inr (dflt, H, k)
   | Some b \<Rightarrow> (case sh_handles H b of
       None \<Rightarrow> Inl Dangling
     | Some None \<Rightarrow> Inr (dflt, H, k)
     | Some (Some a) \<Rightarrow> (case sh_streams H a of
         None \<Rightarrow> Inl Dangling
       | Some st \<Rightarrow> bindE (g st k) (\<lambda>(r, st, k). Inr (r, H\<lparr>sh_streams := (sh_streams H)(a \<mapsto> st)\<rparr>, k)))))"

definition io_udp_stream_write ::
  "'k udp_system \<Rightarrow> nat option \<Rightarrow> byte list option \<Rightarrow> shared_streams \<Rightarrow> 'k \<Rightarrow> (int \<times> shared_streams \<times> 'k) cpp" where
  "io_udp_stream_write N p data H k = (case data of
     None \<Rightarrow> with_shared p IO_ERROR (\<lambda>st k. Inr (IO_ERROR, st, k)) H k
   | Some bs \<Rightarrow> catching (with_shared p IO_ERROR (put_bytes (udp_vtable N) bs) H k)
       (\<lambda>_. Inr (IO_ERROR, H, k)))"

definition io_udp_stream_read ::
  "'k udp_system \<Rightarrow> nat option \<Rightarrow> byte list option \<Rightarrow> shared_streams \<Rightarrow> 'k \<Rightarrow>
   ((int \<times> byte list option) \<times> shared_streams \<times> 'k) cpp" where
  "io_udp_stream_read N p buffer H k = (case buffer of
     None \<Rightarrow> with_shared p (IO_ERROR, None) (\<lambda>st k. Inr ((IO_ERROR, None), st, k)) H k
   | Some m \<Rightarrow> catching
       (with_shared p (IO_ERROR, buffer) (\<lambda>st k. bindE (get_bytes (udp_vtable N) m st k)
          (\<lambda>((r, m), st, k). Inr ((r, Some m), st, k))) H k)
       (\<lambda>_. Inr ((IO_ERROR, buffer), H, k)))"

section \<open>What becomes of a stream\<close>

text \<open>
  A read that asks for more than the datagram holds fails the stream for good: the datagrams that come
  later are stored in it, but no read gets them.
\<close>

lemma receive_keeps_failure:
  assumes "receiveOne N junk new nb t sv h k = (Inr a, sv', h', k')" and "h a = Some st" and "\<not> good st" and "a \<noteq> new"
  shows "\<exists>st'. h' a = Some st' \<and> \<not> good st'"
  using assms by (auto simp: receiveOne_def good_def split: prod.splits option.splits sum.splits)

lemma failed_stream_reads_nothing:
  assumes "sh_handles H b = Some (Some a)" and "sh_streams H a = Some st" and "\<not> good st"
  shows "\<exists>H'. io_udp_stream_read N (Some b) (Some m) H k = Inr ((0, Some m), H', k)"
  using assms
  by (simp add: io_udp_stream_read_def with_shared_def get_bytes_def istream_read_def i64_def)

text \<open>
  The streams of a server use the server's descriptor and close it when they go: destroying a server with
  two streams closes the descriptor twice, and one without streams leaves it open.
\<close>

lemma server_destroy_closes_twice:
  assumes "alive b x sv T" and "order sv = [a, a']" and "a \<noteq> a'" and "us_fd sv = s" and "0 \<le> s"
    and "sh_streams H a = Some st" and "ufd (rdbuf st) = s" and "sh_owners H a = 1"
    and "sh_streams H a' = Some st'" and "ufd (rdbuf st') = s" and "sh_owners H a' = 1"
  shows "\<exists>T' H'. io_udp_server_destroy N order (Some b) T H k = Inr (T', H', udp_closefd N s (udp_closefd N s k))"
  using assms
  by (simp add: io_udp_server_destroy_def c_destroy_def alive_def release_stream_def udp_destroy_def udp_close_def
      udp_sync_def udp_overflow_def)

lemma server_destroy_leaves_open:
  assumes "alive b x sv T" and "order sv = []"
  shows "\<exists>T'. io_udp_server_destroy N order (Some b) T H k = Inr (T', H, k)"
  using assms by (simp add: io_udp_server_destroy_def c_destroy_def alive_def)

end
