(* ===== verification/C_Udp_Owners.thy ===== *)
theory C_Udp_Owners
  imports C_Udp
begin

text \<open>
  Who owns the streams of a UDP server: in every state a C program can reach with handles that are alive, a
  stream lives exactly as long as the map of a server or a handle points to it.
\<close>

section \<open>Counted pointers\<close>

text \<open>
  The owners are the entries of the servers' maps and the handles.  \<open>counted P W S\<close>: \<open>W\<close> counts the owners of
  every object, finitely many, and the objects alive are those with an owner.
\<close>

type_synonym owner = "(nat \<times> sockaddr) + nat"

definition counted :: "('w \<Rightarrow> nat option) \<Rightarrow> (nat \<Rightarrow> nat) \<Rightarrow> (nat \<Rightarrow> 's option) \<Rightarrow> bool" where
  "counted P W S \<longleftrightarrow> (\<forall>a. finite {x. P x = Some a} \<and> W a = card {x. P x = Some a} \<and> (S a = None \<longleftrightarrow> W a = 0))"

lemma counted_alive:
  assumes "counted P W S" and "P x = Some a"
  shows "\<exists>st. S a = Some st \<and> 1 \<le> W a"
proof -
  have "finite {x. P x = Some a}" "W a = card {x. P x = Some a}" "S a = None \<longleftrightarrow> W a = 0"
    using assms(1) unfolding counted_def by blast+
  moreover have "card {x. P x = Some a} > 0" using calculation(1) assms(2) by (subst card_gt_0_iff) blast
  ultimately show ?thesis by auto
qed

lemma countedD:
  assumes "counted P W S"
  shows "finite {x. P x = Some a}" "W a = card {x. P x = Some a}" "S a = None \<longleftrightarrow> W a = 0"
  using assms unfolding counted_def by blast+

lemma counted_update:
  assumes "counted P W S" and "S a = Some x"
  shows "counted P W (S(a \<mapsto> y))"
proof -
  have "(S(a \<mapsto> y)) c = None \<longleftrightarrow> W c = 0" for c using countedD(3) [OF assms(1), of c] assms(2) by auto
  then show ?thesis unfolding counted_def using countedD(1,2) [OF assms(1)] by blast
qed

text \<open>One more owner of an object that has some, and the first owner of a new object.\<close>

lemma counted_add:
  assumes "counted P W S" and "P x = None" and "\<And>c. S' c = None \<longleftrightarrow> c \<noteq> a \<and> S c = None"
  shows "counted (P(x \<mapsto> a)) (W(a := W a + 1)) S'"
proof -
  have e: "{y. (P(x \<mapsto> a)) y = Some c} = (if c = a then insert x {y. P y = Some c} else {y. P y = Some c})" for c
    using assms(2) by auto
  have "x \<notin> {y. P y = Some c}" for c using assms(2) by simp
  then have k: "card {y. (P(x \<mapsto> a)) y = Some c} = (W(a := W a + 1)) c" for c
    unfolding e using countedD(1,2) [OF assms(1), of c] by (auto simp: card_insert_if)
  have "finite {y. (P(x \<mapsto> a)) y = Some c}" for c unfolding e using countedD(1) [OF assms(1)] by simp
  moreover have "S' c = None \<longleftrightarrow> (W(a := W a + 1)) c = 0" for c
    using assms(3) [of c] countedD(3) [OF assms(1), of c] by simp
  ultimately show ?thesis unfolding counted_def using k by simp
qed

lemma counted_share:
  assumes "counted P W S" and "P x = None" and "S a = Some st"
  shows "counted (P(x \<mapsto> a)) (W(a := W a + 1)) S"
  by (rule counted_add [OF assms(1,2)]) (use assms(3) in auto)

lemma counted_first:
  assumes "counted P W S" and "P x = None" and "S a = None"
  shows "counted (P(x \<mapsto> a)) (W(a := 1)) (S(a \<mapsto> st))"
proof -
  have "W a = 0" using countedD(3) [OF assms(1)] assms(3) by simp
  moreover have "counted (P(x \<mapsto> a)) (W(a := W a + 1)) (S(a \<mapsto> st))"
    by (rule counted_add [OF assms(1,2)]) simp
  ultimately show ?thesis by simp
qed

lemma counted_drop:
  assumes "counted P W S" and "P x = Some a"
  shows "counted (P(x := None)) (W(a := W a - 1)) (if W a \<le> 1 then S(a := None) else S)"
proof -
  have e: "{y. (P(x := None)) y = Some c} = (if c = a then {y. P y = Some c} - {x} else {y. P y = Some c})" for c
    using assms(2) by auto
  have m: "x \<in> {y. P y = Some a}" using assms(2) by simp
  have f: "finite {y. P y = Some c}" "W c = card {y. P y = Some c}" "S c = None \<longleftrightarrow> W c = 0" for c
    using assms(1) unfolding counted_def by blast+
  have k: "card ({y. P y = Some a} - {x}) = W a - 1" using card_Diff_singleton [OF m] f(2) [of a] by simp
  show ?thesis unfolding counted_def
  proof (intro allI conjI)
    fix c
    show "finite {y. (P(x := None)) y = Some c}" unfolding e using f(1) by simp
    show "(W(a := W a - 1)) c = card {y. (P(x := None)) y = Some c}"
      unfolding e using k f(2) [of c] by simp
    show "(if W a \<le> 1 then S(a := None) else S) c = None \<longleftrightarrow> (W(a := W a - 1)) c = 0" using f(3) by auto
  qed
qed

lemma release_counted:
  assumes "counted P (sh_owners H) (sh_streams H)" and "P x = Some a"
  shows "\<exists>H' k'. release_stream N a H k = Inr (H', k') \<and> counted (P(x := None)) (sh_owners H') (sh_streams H') \<and>
    sh_handles H' = sh_handles H"
proof -
  obtain st where st: "sh_streams H a = Some st" "1 \<le> sh_owners H a" using counted_alive [OF assms] by blast
  show ?thesis
  proof (cases "sh_owners H a \<le> 1")
    case True
    then have "sh_owners H a - 1 = 0" by simp
    then show ?thesis using counted_drop [OF assms] st True by (auto simp: release_stream_def)
  next
    case False
    then show ?thesis using counted_drop [OF assms] st by (auto simp: release_stream_def)
  qed
qed

lemma release_all_counted:
  assumes "counted P (sh_owners H) (sh_streams H)" and "distinct xs" and "\<forall>x \<in> set xs. P x \<noteq> None"
  shows "\<exists>H' k'. release_streams N (map (\<lambda>x. the (P x)) xs) H k = Inr (H', k') \<and>
    counted (\<lambda>x. if x \<in> set xs then None else P x) (sh_owners H') (sh_streams H') \<and> sh_handles H' = sh_handles H"
  using assms
proof (induction xs arbitrary: P H k)
  case (Cons x xs)
  obtain a where a: "P x = Some a" using Cons.prems(3) by auto
  obtain H1 k1 where 1: "release_stream N a H k = Inr (H1, k1)"
      "counted (P(x := None)) (sh_owners H1) (sh_streams H1)" "sh_handles H1 = sh_handles H"
    using release_counted [where P = P and x = x, OF Cons.prems(1) a, of N k] by (elim exE conjE) (rule that)
  have m: "map (\<lambda>y. the (P y)) xs = map (\<lambda>y. the ((P(x := None)) y)) xs" using Cons.prems(2) by auto
  have f: "(\<lambda>y. if y \<in> set xs then None else (P(x := None)) y) = (\<lambda>y. if y \<in> set (x # xs) then None else P y)"
    by auto
  have "\<exists>H' k'. release_streams N (map (\<lambda>y. the ((P(x := None)) y)) xs) H1 k1 = Inr (H', k') \<and>
      counted (\<lambda>y. if y \<in> set xs then None else (P(x := None)) y) (sh_owners H') (sh_streams H') \<and>
      sh_handles H' = sh_handles H1"
    using Cons.prems(2,3) by (intro Cons.IH 1(2)) auto
  then show ?case unfolding f m [symmetric] using 1(1,3) a by simp
qed simp

section \<open>Programs\<close>

definition pointer_of :: "udp_server table \<Rightarrow> shared_streams \<Rightarrow> owner \<Rightarrow> nat option" where
  "pointer_of T H x = (case x of
     Inl (s, key) \<Rightarrow> (case objects T s of Some sv \<Rightarrow> clientStreams sv key | None \<Rightarrow> None)
   | Inr b \<Rightarrow> (case sh_handles H b of Some q \<Rightarrow> q | None \<Rightarrow> None))"

definition owned_streams :: "udp_server table \<Rightarrow> shared_streams \<Rightarrow> bool" where
  "owned_streams T H \<longleftrightarrow> counted (pointer_of T H) (sh_owners H) (sh_streams H)"

text \<open>Allocators that give what is not in use, or nothing, and the streams of a server in some order.\<close>

definition fresh_object :: "'o new \<Rightarrow> bool" where
  "fresh_object pick \<longleftrightarrow> (\<forall>T p q. pick T = (p, q) \<longrightarrow>
     (\<forall>a. p = Some a \<longrightarrow> objects T a = None) \<and> (\<forall>b. q = Some b \<longrightarrow> handles T b = None))"

definition fresh_handle :: "(shared_streams \<Rightarrow> nat option) \<Rightarrow> bool" where
  "fresh_handle pick \<longleftrightarrow> (\<forall>H b. pick H = Some b \<longrightarrow> sh_handles H b = None)"

definition in_some_order :: "(udp_server \<Rightarrow> nat list) \<Rightarrow> udp_server \<Rightarrow> bool" where
  "in_some_order order sv \<longleftrightarrow> (\<exists>ks. distinct ks \<and> set ks = dom (clientStreams sv) \<and>
     order sv = map (\<lambda>key. the (clientStreams sv key)) ks)"

text \<open>
  The calls a program makes: a handle it passes is null or one that was not destroyed yet.  \<open>as\<close> is the state
  after the call.
\<close>

definition live_handle :: "nat option \<Rightarrow> (nat \<Rightarrow> 'p option) \<Rightarrow> bool" where
  "live_handle p hs \<longleftrightarrow> (\<forall>b. p = Some b \<longrightarrow> hs b \<noteq> None)"

inductive udp_step ::
  "'k udp_system \<Rightarrow> udp_server table \<times> shared_streams \<times> 'k \<Rightarrow> udp_server table \<times> shared_streams \<times> 'k \<Rightarrow> bool"
  for N :: "'k udp_system"
where
  udp_create: "fresh_object pick \<Longrightarrow> io_udp_server_create N pick port T k = Inr (r, T', k') \<Longrightarrow>
    udp_step N (T, H, k) (T', H, k')"
| udp_create_bits: "fresh_object pick \<Longrightarrow> io_udp_server_create_bitstream N pick port bits T k = Inr (r, T', k') \<Longrightarrow>
    udp_step N (T, H, k) (T', H, k')"
| udp_destroy_server: "live_handle p (handles T) \<Longrightarrow> \<forall>x sv. objects T x = Some sv \<longrightarrow> in_some_order order sv \<Longrightarrow>
    io_udp_server_destroy N order p T H k = Inr (T', H', k') \<Longrightarrow> udp_step N (T, H, k) (T', H', k')"
| udp_receive: "live_handle p (handles T) \<Longrightarrow> fresh_handle pick \<Longrightarrow> sh_streams H new = None \<Longrightarrow>
    io_udp_server_receive N junk new pick p non_block timeout T H k = Inr (r, T', H', k') \<Longrightarrow>
    udp_step N (T, H, k) (T', H', k')"
| udp_stream_destroy: "live_handle p (sh_handles H) \<Longrightarrow> io_udp_stream_destroy N p H k = Inr (H', k') \<Longrightarrow>
    udp_step N (T, H, k) (T, H', k')"
| udp_stream_close: "live_handle p (sh_handles H) \<Longrightarrow> io_udp_stream_close N p H k = Inr (r, H', k') \<Longrightarrow>
    udp_step N (T, H, k) (T, H', k')"
| udp_stream_write: "live_handle p (sh_handles H) \<Longrightarrow> io_udp_stream_write N p data H k = Inr (r, H', k') \<Longrightarrow>
    udp_step N (T, H, k) (T, H', k')"
| udp_stream_read: "live_handle p (sh_handles H) \<Longrightarrow> io_udp_stream_read N p buffer H k = Inr (r, H', k') \<Longrightarrow>
    udp_step N (T, H, k) (T, H', k')"

inductive udp_program ::
  "'k udp_system \<Rightarrow> 'k \<Rightarrow> udp_server table \<times> shared_streams \<times> 'k \<Rightarrow> bool"
  for N :: "'k udp_system" and k0 :: 'k
where
  udp_begin: "udp_program N k0 (\<lparr>handles = Map.empty, objects = Map.empty\<rparr>,
    \<lparr>sh_streams = Map.empty, sh_owners = (\<lambda>_. 0), sh_handles = Map.empty\<rparr>, k0)"
| udp_call: "udp_program N k0 s \<Longrightarrow> udp_step N s s' \<Longrightarrow> udp_program N k0 s'"

section \<open>Every call keeps the counts\<close>

lemma create_pointers:
  assumes "fresh_object pick" and "c_new pick mk T w = Inr (r, T', w')"
    and "\<And>w x w'. mk w = (Inr x, w') \<Longrightarrow> clientStreams x = Map.empty"
  shows "pointer_of T' H = pointer_of T H"
proof -
  obtain p q where pq: "pick T = (p, q)" by fastforce
  obtain m w1 where m: "mk w = (m, w1)" by fastforce
  consider "objects T' = objects T"
    | a x where "objects T' = (objects T)(a \<mapsto> x)" "objects T a = None" "clientStreams x = Map.empty"
  proof (cases p)
    case None
    then have "objects T' = objects T" using assms(2) by (auto simp: c_new_def pq split: option.splits)
    then show ?thesis by (rule that(1))
  next
    case (Some a)
    show ?thesis
    proof (cases m)
      case (Inl e)
      then have "objects T' = objects T" using assms(2) Some
        by (auto simp: c_new_def pq m catching_def split: option.splits)
      then show ?thesis by (rule that(1))
    next
      case (Inr x)
      then have "objects T' = (objects T)(a \<mapsto> x)" using assms(2) Some
        by (auto simp: c_new_def pq m split: option.splits)
      moreover have "objects T a = None" using assms(1) pq Some unfolding fresh_object_def by blast
      ultimately show ?thesis using assms(3) m Inr that(2) by blast
    qed
  qed
  then show ?thesis by cases (auto simp: pointer_of_def fun_eq_iff split: sum.splits option.splits)
qed

lemma pointers_handles: "sh_handles H' = sh_handles H \<Longrightarrow> pointer_of T H' = pointer_of T H"
  by (rule ext) (simp add: pointer_of_def split: sum.split)

lemma owned_pointers: "owned_streams T H \<Longrightarrow> pointer_of T' H = pointer_of T H \<Longrightarrow> owned_streams T' H"
  by (simp add: owned_streams_def)

lemma udp_server_ctor_empty: "udp_server_ctor N port bits k = (Inr sv, k') \<Longrightarrow> clientStreams sv = Map.empty"
  by (auto simp: udp_server_ctor_def split: prod.splits if_splits)

text \<open>A stream is used through a handle.\<close>

lemma with_shared_owned:
  assumes "owned_streams T H" and "with_shared p dflt g H k = Inr (r, H', k')"
  shows "owned_streams T H'"
proof -
  have "H' = H \<or> (\<exists>a st st'. sh_streams H a = Some st \<and> H' = H\<lparr>sh_streams := (sh_streams H)(a \<mapsto> st')\<rparr>)"
    using assms(2) by (auto simp: with_shared_def bindE_eq_Inr split: option.splits)
  moreover have "owned_streams T (H\<lparr>sh_streams := (sh_streams H)(a \<mapsto> st')\<rparr>)" if "sh_streams H a = Some st" for a st st'
    using counted_update [of "pointer_of T H" "sh_owners H" "sh_streams H" a st st'] assms(1) that
      pointers_handles [of "H\<lparr>sh_streams := (sh_streams H)(a \<mapsto> st')\<rparr>" H T] by (simp add: owned_streams_def)
  ultimately show ?thesis using assms(1) by blast
qed

lemma stream_write_owned:
  "owned_streams T H \<Longrightarrow> io_udp_stream_write N p data H k = Inr (r, H', k') \<Longrightarrow> owned_streams T H'"
  by (auto simp: io_udp_stream_write_def catching_def split: option.splits sum.splits intro: with_shared_owned)

lemma stream_read_owned:
  "owned_streams T H \<Longrightarrow> io_udp_stream_read N p buffer H k = Inr (r, H', k') \<Longrightarrow> owned_streams T H'"
  by (auto simp: io_udp_stream_read_def catching_def split: option.splits sum.splits intro: with_shared_owned)

text \<open>A handle gives its pointer up.\<close>

lemma drop_handle:
  assumes "owned_streams T H" and "sh_handles H b = Some q" and "x = None \<or> x = Some None"
  shows "\<exists>H' k'. drop_pointer N q (H\<lparr>sh_handles := (sh_handles H)(b := x)\<rparr>) k = Inr (H', k') \<and>
    sh_handles H' = (sh_handles H)(b := x) \<and> owned_streams T H'"
proof -
  let ?H = "H\<lparr>sh_handles := (sh_handles H)(b := x)\<rparr>"
  have q: "pointer_of T H (Inr b) = q" using assms(2) by (simp add: pointer_of_def)
  have p: "pointer_of T H' = (pointer_of T H)(Inr b := None)" if "sh_handles H' = (sh_handles H)(b := x)" for H'
    using that assms(3) by (auto simp: pointer_of_def fun_eq_iff split: sum.splits option.splits)
  show ?thesis
  proof (cases q)
    case None
    then have "(pointer_of T H)(Inr b := None) = pointer_of T H" using q by auto
    then show ?thesis using assms(1) p [of ?H] None by (simp add: drop_pointer_def owned_streams_def)
  next
    case (Some a)
    obtain H' k' where "release_stream N a ?H k = Inr (H', k')"
        "counted ((pointer_of T H)(Inr b := None)) (sh_owners H') (sh_streams H')" "sh_handles H' = sh_handles ?H"
      using release_counted [where P = "pointer_of T H" and x = "Inr b" and H = ?H and a = a, of N k] assms(1) q Some
      by (auto simp: owned_streams_def)
    then show ?thesis using p [of H'] Some by (simp add: drop_pointer_def owned_streams_def)
  qed
qed

text \<open>What \<open>receiveOne\<close> does to the streams and to the map.\<close>

definition old_sender :: "udp_server \<Rightarrow> udp_heap \<Rightarrow> nat cpp \<Rightarrow> udp_server \<Rightarrow> udp_heap \<Rightarrow> bool" where
  "old_sender sv S m sv' S' \<longleftrightarrow> clientStreams sv' = clientStreams sv \<and>
     ((\<exists>e. m = Inl e \<and> S' = S) \<or> (\<exists>a st st'. m = Inr a \<and> S a = Some st \<and> S' = S(a \<mapsto> st')))"

definition new_sender :: "nat \<Rightarrow> udp_server \<Rightarrow> udp_heap \<Rightarrow> nat cpp \<Rightarrow> udp_server \<Rightarrow> udp_heap \<Rightarrow> bool" where
  "new_sender new sv S m sv' S' \<longleftrightarrow> (\<exists>key st. clientStreams sv key = None \<and>
     clientStreams sv' = (clientStreams sv)(key \<mapsto> new) \<and> S' = S(new \<mapsto> st) \<and> ((\<exists>e. m = Inl e) \<or> m = Inr new))"

lemma receiveOne_sender:
  assumes "receiveOne N junk new nb t sv S k = (m, sv', S', k')"
  shows "old_sender sv S m sv' S' \<or> new_sender new sv S m sv' S'"
proof -
  obtain sv1 k1 where 1: "apply_timeout N nb t sv k = (sv1, k1)" by fastforce
  have c: "clientStreams sv1 = clientStreams sv" using 1 by (auto simp: apply_timeout_def split: if_splits)
  obtain answer sender k2 where 2: "udp_recvfrom N (us_fd sv1) 4096 k1 = (answer, sender, k2)" by (metis prod_cases3)
  obtain buffer n key where 3: "(case answer of Received bs \<Rightarrow> (bs @ replicate (4096 - length bs) 0, length bs, sender)
      | _ \<Rightarrow> (replicate 4096 0, wrap64 (-1), junk)) = (buffer, n, key)" by (rule prod_cases3)
  note r = assms [unfolded receiveOne_def 1 prod.case 2 3 c]
  show ?thesis
  proof (cases "clientStreams sv key")
    case None
    then have "new_sender new sv S m sv' S'" using r
      unfolding new_sender_def by (intro exI [of _ key]) (auto simp: c split: sum.splits)
    then show ?thesis by blast
  next
    case (Some a)
    then have "old_sender sv S m sv' S'" using r c
      by (auto simp: old_sender_def split: sum.splits option.splits)
    then show ?thesis by blast
  qed
qed

lemma receive_owned_map:
  assumes "owned_streams T H" and "objects T x = Some sv" and "sh_streams H new = None"
    and "old_sender sv (sh_streams H) m sv' S' \<or> new_sender new sv (sh_streams H) m sv' S'"
    and "w = (if sh_streams H new = None \<and> S' new \<noteq> None then (sh_owners H)(new := 1) else sh_owners H)"
  shows "owned_streams (T\<lparr>objects := (objects T)(x \<mapsto> sv')\<rparr>) (H\<lparr>sh_streams := S', sh_owners := w\<rparr>)"
  using assms(4)
proof
  assume o: "old_sender sv (sh_streams H) m sv' S'"
  then have "S' new = None" using assms(3) by (auto simp: old_sender_def)
  then have w: "w = sh_owners H" using assms(5) by simp
  have "counted (pointer_of T H) w S'" using o assms(1) unfolding w old_sender_def owned_streams_def
    by (auto intro: counted_update)
  moreover have "pointer_of (T\<lparr>objects := (objects T)(x \<mapsto> sv')\<rparr>) (H\<lparr>sh_streams := S', sh_owners := w\<rparr>) = pointer_of T H"
    using o assms(2) by (auto simp: old_sender_def pointer_of_def fun_eq_iff split: sum.splits option.splits)
  ultimately show ?thesis by (simp add: owned_streams_def)
next
  assume "new_sender new sv (sh_streams H) m sv' S'"
  then obtain key st where n: "clientStreams sv key = None" "clientStreams sv' = (clientStreams sv)(key \<mapsto> new)"
      "S' = (sh_streams H)(new \<mapsto> st)" by (auto simp: new_sender_def)
  have w: "w = (sh_owners H)(new := 1)" using assms(3,5) n(3) by simp
  have "counted ((pointer_of T H)(Inl (x, key) \<mapsto> new)) w S'" unfolding w n(3)
    by (rule counted_first) (use assms(1-3) n(1) in \<open>simp_all add: owned_streams_def pointer_of_def\<close>)
  moreover have "pointer_of (T\<lparr>objects := (objects T)(x \<mapsto> sv')\<rparr>) (H\<lparr>sh_streams := S', sh_owners := w\<rparr>) =
      (pointer_of T H)(Inl (x, key) \<mapsto> new)"
    using n(2) assms(2) by (auto simp: pointer_of_def fun_eq_iff split: sum.splits option.splits)
  ultimately show ?thesis by (simp add: owned_streams_def)
qed

lemma give_handle_owned:
  assumes "owned_streams T H" and "sh_streams H a = Some st" and "sh_handles H b = None"
  shows "owned_streams T (H\<lparr>sh_owners := (sh_owners H)(a := sh_owners H a + 1), sh_handles := (sh_handles H)(b \<mapsto> Some a)\<rparr>)"
proof -
  let ?H = "H\<lparr>sh_owners := (sh_owners H)(a := sh_owners H a + 1), sh_handles := (sh_handles H)(b \<mapsto> Some a)\<rparr>"
  have "counted ((pointer_of T H)(Inr b \<mapsto> a)) (sh_owners ?H) (sh_streams ?H)"
    using counted_share [of "pointer_of T H" "sh_owners H" "sh_streams H" "Inr b" a st] assms
    by (simp add: owned_streams_def pointer_of_def)
  moreover have "pointer_of T ?H = (pointer_of T H)(Inr b \<mapsto> a)"
    by (auto simp: pointer_of_def fun_eq_iff split: sum.splits)
  ultimately show ?thesis by (simp add: owned_streams_def)
qed

lemma receive_owned:
  assumes "owned_streams T H" and "fresh_handle pick" and "sh_streams H new = None"
    and "io_udp_server_receive N junk new pick p non_block timeout T H k = Inr (r, T', H', k')"
  shows "owned_streams T' H'"
proof -
  obtain d where d: "c_deref p T = Inr d"
    using assms(4) by (auto simp: io_udp_server_receive_def bindE_eq_Inr)
  show ?thesis
  proof (cases d)
    case None
    then show ?thesis using assms(1,4) d by (simp add: io_udp_server_receive_def)
  next
    case (Some xsv)
    obtain x sv where xsv: "xsv = (x, sv)" by fastforce
    have o: "objects T x = Some sv" using d Some xsv by (auto simp: c_deref_def split: option.splits)
    obtain m sv' S' k1 where 1: "receiveOne N junk new (non_block \<noteq> 0) timeout sv (sh_streams H) k = (m, sv', S', k1)"
      by (rule prod_cases4)
    define w where "w = (if sh_streams H new = None \<and> S' new \<noteq> None then (sh_owners H)(new := 1) else sh_owners H)"
    define T1 where "T1 = T\<lparr>objects := (objects T)(x \<mapsto> sv')\<rparr>"
    define H1 where "H1 = H\<lparr>sh_streams := S', sh_owners := w\<rparr>"
    note rs = receiveOne_sender [OF 1]
    have h1: "owned_streams T1 H1" unfolding T1_def H1_def
      by (rule receive_owned_map [OF assms(1) o assms(3) rs w_def])
    have e: "catching (bindE m (\<lambda>a. case pick H1 of None \<Rightarrow> Inr (None, T1, H1, k1)
        | Some b \<Rightarrow> Inr (Some b, T1, H1\<lparr>sh_owners := w(a := w a + 1), sh_handles := (sh_handles H1)(b \<mapsto> Some a)\<rparr>, k1)))
      (\<lambda>_. Inr (None, T1, H1, k1)) = Inr (r, T', H', k')"
      using assms(4) unfolding io_udp_server_receive_def d Some xsv bindE_Inr option.case prod.case 1 Let_def
        T1_def H1_def w_def .
    show ?thesis
    proof (cases m)
      case (Inl err)
      then have "T' = T1 \<and> H' = H1" using e by (auto simp: catching_def split: option.splits)
      then show ?thesis using h1 by simp
    next
      case (Inr a)
      obtain st where st: "sh_streams H1 a = Some st"
        using rs Inr unfolding H1_def old_sender_def new_sender_def by auto
      show ?thesis
      proof (cases "pick H1")
        case None
        then show ?thesis using e Inr h1 by simp
      next
        case (Some b)
        then have "sh_handles H1 b = None" using assms(2) unfolding fresh_handle_def by blast
        from give_handle_owned [OF h1 st this] show ?thesis using e Inr Some by (auto simp: H1_def)
      qed
    qed
  qed
qed

lemma server_destroy_owned:
  assumes "owned_streams T H" and "in_some_order order sv" and "objects T x = Some sv"
  shows "\<exists>H' k'. release_streams N (order sv) H k = Inr (H', k') \<and> sh_handles H' = sh_handles H \<and>
    owned_streams (T\<lparr>objects := (objects T)(x := None)\<rparr>) H'"
proof -
  obtain ks where ks: "distinct ks" "set ks = dom (clientStreams sv)" "order sv = map (\<lambda>key. the (clientStreams sv key)) ks"
    using assms(2) unfolding in_some_order_def by blast
  define xs :: "owner list" where "xs = map (\<lambda>key. Inl (x, key)) ks"
  have p: "pointer_of T H (Inl (x, key)) = clientStreams sv key" for key by (simp add: pointer_of_def assms(3))
  have o: "order sv = map (\<lambda>y. the (pointer_of T H y)) xs" by (simp add: ks(3) xs_def p)
  have x: "distinct xs" "\<forall>y \<in> set xs. pointer_of T H y \<noteq> None"
    using ks(1,2) by (auto simp: xs_def distinct_map p intro: inj_onI)
  obtain H' k' where r: "release_streams N (order sv) H k = Inr (H', k')" "sh_handles H' = sh_handles H"
      "counted (\<lambda>y. if y \<in> set xs then None else pointer_of T H y) (sh_owners H') (sh_streams H')"
    using release_all_counted [OF assms(1) [unfolded owned_streams_def] x, of N k, folded o]
    by (elim exE conjE) (rule that)
  have "(if y \<in> set xs then None else pointer_of T H y) = pointer_of (T\<lparr>objects := (objects T)(x := None)\<rparr>) H' y" for y
    using r(2) ks(2) assms(3)
    by (auto simp: pointer_of_def xs_def image_iff dom_def split: sum.splits option.splits)
  then have "pointer_of (T\<lparr>objects := (objects T)(x := None)\<rparr>) H' = (\<lambda>y. if y \<in> set xs then None else pointer_of T H y)"
    by (intro ext) simp
  then show ?thesis using r by (simp add: owned_streams_def)
qed

lemma c_destroy_owned:
  assumes "owned_streams T H" and "\<forall>x sv. objects T x = Some sv \<longrightarrow> in_some_order order sv" and "io_udp_server_destroy N order p T H k = Inr (T', H', k')"
  shows "owned_streams T' H'"
proof (cases p)
  case None
  then show ?thesis using assms(1,3) by (simp add: io_udp_server_destroy_def c_destroy_def)
next
  case (Some b)
  obtain q where q: "handles T b = Some q"
    using assms(3) Some by (auto simp: io_udp_server_destroy_def c_destroy_def split: option.splits)
  have h: "owned_streams (T1\<lparr>handles := hs\<rparr>) H1 = owned_streams T1 H1" for T1 hs H1
  proof -
    have "pointer_of (T1\<lparr>handles := hs\<rparr>) H1 = pointer_of T1 H1"
      by (rule ext) (simp add: pointer_of_def split: sum.split)
    then show ?thesis by (simp add: owned_streams_def)
  qed
  show ?thesis
  proof (cases q)
    case None
    then have "T' = T\<lparr>handles := (handles T)(b := None)\<rparr> \<and> H' = H" using assms(3) Some q
      by (auto simp: io_udp_server_destroy_def c_destroy_def)
    then show ?thesis using assms(1) h by simp
  next
    case a: (Some x)
    obtain sv where sv: "objects T x = Some sv"
      using assms(3) Some q a by (auto simp: io_udp_server_destroy_def c_destroy_def split: option.splits)
    have "in_some_order order sv" using assms(2) sv by blast
    from server_destroy_owned [OF assms(1) this sv, of N k] obtain H1 k1 where
      r: "release_streams N (order sv) H k = Inr (H1, k1)" "owned_streams (T\<lparr>objects := (objects T)(x := None)\<rparr>) H1"
      by (elim exE conjE) (rule that)
    then have "T' = T\<lparr>objects := (objects T)(x := None), handles := (handles T)(b := None)\<rparr> \<and> H' = H1"
      using assms(3) Some q a sv by (simp add: io_udp_server_destroy_def c_destroy_def)
    then show ?thesis using r(2) h by simp
  qed
qed

lemma stream_destroy_owned:
  assumes "owned_streams T H" and "io_udp_stream_destroy N p H k = Inr (H', k')"
  shows "owned_streams T H'"
proof (cases p)
  case (Some b)
  obtain q where q: "sh_handles H b = Some q"
    using assms(2) Some by (auto simp: io_udp_stream_destroy_def split: option.splits)
  show ?thesis using drop_handle [OF assms(1) q, of None N k] assms(2) Some q
    by (auto simp: io_udp_stream_destroy_def)
qed (use assms in \<open>simp add: io_udp_stream_destroy_def\<close>)

lemma stream_close_owned:
  assumes "owned_streams T H" and "io_udp_stream_close N p H k = Inr (r, H', k')"
  shows "owned_streams T H'"
proof (cases p)
  case (Some b)
  obtain q where q: "sh_handles H b = Some q"
    using assms(2) Some by (auto simp: io_udp_stream_close_def split: option.splits)
  show ?thesis using drop_handle [OF assms(1) q, of "Some None" N k] assms(2) Some q
    by (auto simp: io_udp_stream_close_def)
qed (use assms in \<open>simp add: io_udp_stream_close_def\<close>)

lemma udp_step_owned:
  assumes "udp_step N s s'" and "owned_streams (fst s) (fst (snd s))"
  shows "owned_streams (fst s') (fst (snd s'))"
  using assms
proof cases
  case (udp_create pick port T k r T' k' H)
  then have "pointer_of T' H = pointer_of T H"
    by (intro create_pointers [of pick "udp_server_ctor N port False"])
      (auto simp: io_udp_server_create_def intro: udp_server_ctor_empty)
  then show ?thesis using udp_create assms(2) owned_pointers by simp
next
  case (udp_create_bits pick port bits T k r T' k' H)
  then have "pointer_of T' H = pointer_of T H"
    by (intro create_pointers [of pick "udp_server_ctor N port (bits \<noteq> 0)"])
      (auto simp: io_udp_server_create_bitstream_def intro: udp_server_ctor_empty)
  then show ?thesis using udp_create_bits assms(2) owned_pointers by simp
qed (use assms(2) in \<open>auto intro: c_destroy_owned receive_owned stream_destroy_owned stream_close_owned
    stream_write_owned stream_read_owned\<close>)

lemma udp_program_owned: "udp_program N k0 s \<Longrightarrow> owned_streams (fst s) (fst (snd s))"
proof (induction rule: udp_program.induct)
  case udp_begin
  have "pointer_of \<lparr>handles = Map.empty, objects = Map.empty\<rparr>
      \<lparr>sh_streams = Map.empty, sh_owners = (\<lambda>_. 0), sh_handles = Map.empty\<rparr> x = None" for x
    by (simp add: pointer_of_def split: sum.split)
  then show ?case by (simp add: owned_streams_def counted_def)
next
  case (udp_call s s')
  show ?case by (rule udp_step_owned [OF udp_call.hyps(2) udp_call.IH])
qed

text \<open>C10: in every state a C program can reach with servers, datagrams and stream handles, whatever the system
  answers and whatever allocation fails, as long as it passes no handle it destroyed: the count of every stream
  is the number of server entries and handles that point to it, the stream is alive exactly while there is one,
  also after its server was destroyed, and closing or destroying a handle never touches a stream that is gone.\<close>

theorem udp_streams_owned:
  assumes "udp_program N k0 (T, H, k)"
  shows "(\<forall>a. sh_owners H a = card {x. pointer_of T H x = Some a} \<and>
      (sh_streams H a \<noteq> None \<longleftrightarrow> (\<exists>x. pointer_of T H x = Some a))) \<and>
    (\<forall>b. sh_handles H b \<noteq> None \<longrightarrow> (\<exists>H' k'. io_udp_stream_close N (Some b) H k = Inr (IO_SUCCESS, H', k')) \<and>
      (\<exists>H' k'. io_udp_stream_destroy N (Some b) H k = Inr (H', k')))"
proof -
  have o: "owned_streams T H" using udp_program_owned [OF assms] by simp
  have c: "finite {x. pointer_of T H x = Some a}" "sh_owners H a = card {x. pointer_of T H x = Some a}"
      "sh_streams H a = None \<longleftrightarrow> sh_owners H a = 0" for a
    using o unfolding owned_streams_def by (simp_all add: countedD)
  have "sh_streams H a \<noteq> None \<longleftrightarrow> (\<exists>x. pointer_of T H x = Some a)" for a
    using c(3) [of a] c(1) [of a] unfolding c(2) by (simp add: card_eq_0_iff)
  moreover have "\<exists>H' k'. io_udp_stream_close N (Some b) H k = Inr (IO_SUCCESS, H', k')"
    and "\<exists>H' k'. io_udp_stream_destroy N (Some b) H k = Inr (H', k')" if live: "sh_handles H b \<noteq> None" for b
  proof -
    obtain q where q: "sh_handles H b = Some q" using live by blast
    show "\<exists>H' k'. io_udp_stream_close N (Some b) H k = Inr (IO_SUCCESS, H', k')"
      using drop_handle [OF o q, of "Some None" N k] q by (auto simp: io_udp_stream_close_def)
    show "\<exists>H' k'. io_udp_stream_destroy N (Some b) H k = Inr (H', k')"
      using drop_handle [OF o q, of None N k] q by (auto simp: io_udp_stream_destroy_def)
  qed
  ultimately show ?thesis using c(2) by blast
qed

text \<open>A program: it makes a server, receives a datagram and destroys the server; the handle of the stream is still
  good.\<close>

definition only_new :: "udp_server new" where
  "only_new T = (if objects T 0 = None \<and> handles T 0 = None then (Some 0, Some 0) else (None, None))"

definition only_handle :: "shared_streams \<Rightarrow> nat option" where
  "only_handle H = (if sh_handles H 0 = None then Some 0 else None)"

lemma fresh_only: "fresh_object only_new" "fresh_handle only_handle"
  by (auto simp: fresh_object_def fresh_handle_def only_new_def only_handle_def split: if_splits)

definition one_stream :: "udp_streambuf stream \<Rightarrow> nat \<Rightarrow> shared_streams" where
  "one_stream st n = \<lparr>sh_streams = [7 \<mapsto> st], sh_owners = (\<lambda>_. 0)(7 := n), sh_handles = [0 \<mapsto> Some 7]\<rparr>"

lemma demo_receive:
  "\<exists>st. receiveOne mail_system (0, 0) 7 False 10 demo_udp_server Map.empty [([1, 2, 3], 5, 6)] =
     (Inr 7, demo_udp_server\<lparr>clientStreams := [(5, 6) \<mapsto> 7]\<rparr>, [7 \<mapsto> st], [])"
proof -
  have "add_received_data ([1, 2, 3] @ replicate (4096 - 3) 0) 3 (udp_streambuf_ctor (4, 5, 6)) =
      Inr ((udp_streambuf_ctor (4, 5, 6))\<lparr>gbuffer := blit 0 (take 3 ([1, 2, 3] @ replicate (4096 - 3) 0))
        (gbuffer (udp_streambuf_ctor (4, 5, 6))), ugptr := 0, uegptr := 3\<rparr>)"
    by (rule add_received_data_ok) (simp_all add: udp_streambuf_ctor_def)
  then show ?thesis
    by (intro exI) (simp add: receiveOne_def apply_timeout_def mail_system_def demo_udp_server_def mk_stream_def
        numeral_3_eq_3)
qed

lemma demo_program:
  "\<exists>st T. udp_program mail_system [([1, 2, 3], 5, 6)] (T, one_stream st 1, [])"
proof -
  let ?T0 = "\<lparr>handles = Map.empty, objects = Map.empty\<rparr> :: udp_server table"
  let ?H0 = "\<lparr>sh_streams = Map.empty, sh_owners = (\<lambda>_. 0), sh_handles = Map.empty\<rparr>"
  let ?k = "[([1, 2, 3], 5, 6)] :: (byte list \<times> sockaddr) list"
  let ?sv = "demo_udp_server\<lparr>clientStreams := [(5, 6) \<mapsto> 7]\<rparr>"
  obtain st where r: "receiveOne mail_system (0, 0) 7 False 10 demo_udp_server Map.empty ?k =
     (Inr 7, ?sv, [7 \<mapsto> st], [])" using demo_receive by blast
  define T1 where "T1 = \<lparr>handles = [0 \<mapsto> Some 0], objects = [0 \<mapsto> demo_udp_server]\<rparr>"
  define T2 where "T2 = \<lparr>handles = [0 \<mapsto> Some 0], objects = [0 \<mapsto> ?sv]\<rparr>"
  have "io_udp_server_create mail_system only_new 9 ?T0 ?k = Inr (Some 0, T1, ?k)"
    by (simp add: io_udp_server_create_def c_new_def only_new_def udp_server_ctor_def mail_system_def T1_def
        demo_udp_server_def)
  from udp_call [OF udp_begin udp_step.udp_create [OF fresh_only(1) this]]
  have 1: "udp_program mail_system ?k (T1, ?H0, ?k)" .
  have "io_udp_server_receive mail_system (0, 0) 7 only_handle (Some 0) 0 10 T1 ?H0 ?k =
      Inr (Some 0, T2, one_stream st 2, [])"
    by (simp add: io_udp_server_receive_def c_deref_def T1_def r only_handle_def T2_def one_stream_def numeral_2_eq_2)
  then have "udp_step mail_system (T1, ?H0, ?k) (T2, one_stream st 2, [])"
    by (intro udp_step.udp_receive [OF _ fresh_only(2)]) (simp_all add: live_handle_def T1_def)
  with 1 have 2: "udp_program mail_system ?k (T2, one_stream st 2, [])" by (rule udp_call)
  have o: "in_some_order (\<lambda>_. [7]) ?sv" unfolding in_some_order_def by (rule exI [of _ "[(5, 6)]"]) simp
  have "io_udp_server_destroy mail_system (\<lambda>_. [7]) (Some 0) T2 (one_stream st 2) [] = Inr (?T0, one_stream st 1, [])"
    by (simp add: io_udp_server_destroy_def c_destroy_def T2_def one_stream_def release_stream_def)
  then have "udp_step mail_system (T2, one_stream st 2, []) (?T0, one_stream st 1, [])"
    by (rule udp_step.udp_destroy_server [rotated 2]) (use o in \<open>simp_all add: live_handle_def T2_def\<close>)
  with 2 have "udp_program mail_system ?k (?T0, one_stream st 1, [])" by (rule udp_call)
  then show ?thesis by blast
qed

theorem udp_streams_owned_witness:
  "\<exists>T H. udp_program mail_system [([1, 2, 3], 5, 6)] (T, H, []) \<and> pointer_of T H (Inr 0) = Some 7 \<and>
     sh_streams H 7 \<noteq> None \<and> (\<exists>H' k'. io_udp_stream_destroy mail_system (Some 0) H [] = Inr (H', k'))"
proof -
  obtain st T where p: "udp_program mail_system [([1, 2, 3], 5, 6)] (T, one_stream st 1, [])"
    using demo_program by blast
  have "pointer_of T (one_stream st 1) (Inr 0) = Some 7" "sh_handles (one_stream st 1) 0 \<noteq> None"
    by (simp_all add: pointer_of_def one_stream_def)
  with udp_streams_owned [OF p] p show ?thesis by blast
qed

end
