(* ===== verification/C_System.thy ===== *)
theory C_System
  imports C_Common C_Tcp Sockets
begin

text \<open>
  The rest of c_api.cpp: the start of the socket library, TLS for a server that runs, and the version.
\<close>

section \<open>Starting\<close>

text \<open>Nothing catches what \<open>initialize\<close> throws here.\<close>

definition io_socket_init :: "'k net \<Rightarrow> bool \<Rightarrow> bool \<times> 'k \<Rightarrow> unit cpp \<times> bool \<times> 'k" where
  "io_socket_init N win ik = initialize N win ik"

text \<open>So on Windows an exception leaves a function of the C interface.\<close>

lemma io_socket_init_throws:
  assumes "wsa_startup N k = (r, k')" and "r \<noteq> 0"
  shows "io_socket_init N True (False, k) = (Inl (Runtime_error ''WSAStartup failed''), False, k')"
  using assms by (simp add: io_socket_init_def initialize_def)

section \<open>TLS for a server that runs\<close>

text \<open>\<open>tcp_server::upgradeSSL\<close> is declared and defined nowhere; it is an argument.\<close>

definition io_tcp_server_upgrade_ssl ::
  "(nat \<Rightarrow> tcp_server \<Rightarrow> 'k \<Rightarrow> (tcp_server \<times> 'k) cpp) \<Rightarrow> nat option \<Rightarrow> nat option \<Rightarrow> contexts \<Rightarrow> servers \<Rightarrow> 'k \<Rightarrow>
   (int \<times> servers \<times> 'k) cpp" where
  "io_tcp_server_upgrade_ssl upgradeSSL p ssl_ctx C T k = bindE (c_deref p T) (\<lambda>r. case r of
     None \<Rightarrow> Inr (IO_ERROR, T, k)
   | Some (a, sv) \<Rightarrow> (case ssl_ctx of
       None \<Rightarrow> Inr (IO_ERROR, T, k)
     | Some b \<Rightarrow> (case C b of
         None \<Rightarrow> Inl Dangling
       | Some c \<Rightarrow> catching
           (bindE (upgradeSSL c sv k) (\<lambda>(sv, k). Inr (IO_SUCCESS, T\<lparr>objects := (objects T)(a \<mapsto> sv)\<rparr>, k)))
           (\<lambda>_. Inr (IO_ERROR_SSL, T, k)))))"

section \<open>The version\<close>

text \<open>The values of the macros come from the build.\<close>

record version =
  IOSTREAMS_VERSION :: string
  IOSTREAMS_VERSION_MAJOR :: int
  IOSTREAMS_VERSION_MINOR :: int
  IOSTREAMS_VERSION_PATCH :: int
  IOSTREAMS_VERSION_TWEAK :: int

definition io_version_string :: "version \<Rightarrow> string" where
  "io_version_string v = IOSTREAMS_VERSION v"

definition io_version_major :: "version \<Rightarrow> int" where
  "io_version_major v = IOSTREAMS_VERSION_MAJOR v"

definition io_version_minor :: "version \<Rightarrow> int" where
  "io_version_minor v = IOSTREAMS_VERSION_MINOR v"

definition io_version_patch :: "version \<Rightarrow> int" where
  "io_version_patch v = IOSTREAMS_VERSION_PATCH v"

definition io_version_tweak :: "version \<Rightarrow> int" where
  "io_version_tweak v = IOSTREAMS_VERSION_TWEAK v"

end
