(* ===== verification/Spec2Isabelle.thy ===== *)
theory Spec2Isabelle
  imports Ringbuf_Spsc Membuf Countbuf Serial_Bits Serial_Any Serial_Types Http_Tcp Tcp_Descriptors Tcp_Threads
    Ssl_Factory Sockets P2p C_Serial C_Http C_Archive C_Tcp C_Udp_Owners C_System
begin

text \<open>
  A verification library for iostreams, a C++ library of stream buffers, sockets and a serializer.

  \<^bold>\<open>The program.\<close>  Everything is a \<open>std::streambuf\<close> under a standard stream: a ring buffer, a region of memory, a
  buffer that counts, a TCP connection, datagrams, an entry of an archive.  \<open>Serial\<close> writes and reads bytes,
  bits and containers over memory or over such a stream; the HTTP client writes its requests and reads
  its responses with it over a TCP client.  c_api.cpp gives all of it to C by handles.

  \<^bold>\<open>Theories and code\<close> (paths under src/, headers in include/iostreams/).

    \<^item> \<open>Cpp_Prelude\<close>: errors as values (\<open>cpp_error\<close>, \<open>'a cpp\<close>, \<open>bindE\<close>), seek directions, copying into memory
      (\<open>blit\<close>, \<open>slice\<close>), integers at their width (\<open>wrap64\<close>, \<open>i64\<close>, \<open>i32\<close>) and the collections \<open>blit_simps\<close>
      and others that the proofs share.  \<open>Cpp_String\<close>: \<open>std::string\<close>, \<open>stoi\<close>, \<open>to_string\<close>, letter case.
    \<^item> \<open>Streambuf\<close>, \<open>Iostream\<close>: what the standard library adds: the get and put areas, the default block
      operations, \<open>istream::read\<close> and \<open>ostream::write\<close> over the virtual functions (\<open>vtable\<close>), and the locales
      \<open>byte_source\<close> and \<open>byte_sink\<close>, the contracts of a buffer that is read and of one that is written.
    \<^item> \<open>Ringbuf\<close>, \<open>Ringbuf_Spsc\<close>: ring_streambuf.hpp, called by one thread and by a producer and a consumer.
    \<^item> \<open>Membuf\<close>, \<open>Countbuf\<close>: memory_streambuf.hpp, counting_streambuf.hpp.
    \<^item> \<open>Serial\<close>, \<open>Serial_Bits\<close>, \<open>Serial_Codec\<close>, \<open>Serial_Any\<close>, \<open>Serial_Types\<close>: Serial.hpp and src/Serial.cpp: bytes
      and positions, bits, strings and containers, the registry of types for \<open>std::any\<close>, the types that
      \<open>REGISTER_SERIAL\<close> registers and the version macros.
    \<^item> \<open>Ipv4\<close>: string_is_ipv4.cpp, resolve_host_or_ip_to_ip.cpp.  \<open>Http\<close>: http_common.cpp.  \<open>Http_Client\<close>:
      http_client.cpp.
    \<^item> \<open>Sockets\<close>: socket_init.cpp, system_dns.cpp, get_local_ip.cpp and \<open>SetNonBlocking\<close>, for Windows and for POSIX,
      over an argument \<open>net\<close>.  \<open>Ssl_Factory\<close>: ssl_factory.cpp over an argument \<open>openssl\<close>, each with an instance.
    \<^item> \<open>Tcp\<close>: tcp_streambuf.cpp and tcp_iostream.cpp over an argument \<open>system\<close>, the socket calls and OpenSSL, with \<open>pipe_system\<close> as an
      instance.  \<open>Tcp_Peers\<close>, \<open>Tcp_Descriptors\<close>: tcp_client.cpp, tcp_server.cpp; \<open>Tcp_Threads\<close>: the server
      called by several threads, step by step under its mutex.  \<open>Http_Tcp\<close>: the HTTP client
      over a TCP connection.
    \<^item> \<open>Udp\<close>, \<open>Multicast\<close>: udp_streambuf.cpp, udp_iostream.cpp, udp_client.cpp, udp_server.cpp, udpmc_sender.cpp,
      udpmc_receiver.cpp, populate_addr_from_ip.cpp.  \<open>P2p\<close>: p2p.cpp, over the HTTP client as an
      argument and the multicast receiver.  \<open>Archive\<close>: archive_stream.cpp.
    \<^item> \<open>C_Common\<close>, \<open>C_Serial\<close>, \<open>C_Http\<close>, \<open>C_Archive\<close>, \<open>C_Tcp\<close>, \<open>C_Udp\<close>, \<open>C_System\<close>: c_api.cpp: result
      codes, exceptions caught at the border, C strings in allocated blocks, tables of handles and objects, and
      the functions.  \<open>C_Udp_Owners\<close>: the programs over UDP servers and streams, and who owns the streams.

  A record stands for a class, a field for a member; an operation takes and returns the record, with the
  world it acts on: the regions and streams \<open>Serial\<close> points to, the state of the system, of libarchive, the
  allocated blocks.  \<open>Inl\<close> of a \<open>cpp_error\<close> is an exception (\<open>Runtime_error\<close>, \<open>Invalid_argument\<close>,
  \<open>Out_of_range\<close>, \<open>Bad_alloc\<close>) or undefined behaviour made visible (\<open>Out_of_bounds\<close>, \<open>Null_deref\<close>, \<open>Dangling\<close>);
  \<open>Out_of_fuel\<close> is the end of the fuel.

  \<^bold>\<open>What the lemmas show.\<close>

    \<^item> Ring buffer: it refines a bounded queue; a blocking write that fits returns; seeks keep the positions in
      the ring.  With two threads, step by step, what is read is a prefix of what was written, no byte is
      read and written at once, and one of the threads can always move on.
    \<^item> Memory and counting buffers: reads and writes are clipped to the region, a seek succeeds exactly inside it,
      bytes are counted.
    \<^item> Serial: all or nothing and within bounds over memory; bits, strings, maps, sets, vectors and values of
      registered types, one alone or any sequence of them, are read back as written, over memory and over streams (through \<open>byte_source\<close> and
      \<open>byte_sink\<close>); counting predicts the size.
    \<^item> HTTP: responses are parsed into their parts, requests are readable by the same readers, addresses are
      taken apart, a request over a connection returns the peer's response and follows redirections.
    \<^item> TCP: reads deliver in order, closing ends and happens once, the numbers of clients are never used
      twice, a server that is destroyed leaves no descriptor open, and threads that accept and close at once never
      use a closed one, though two of them can give two clients one number (\<open>accept_race\<close>).  UDP: a datagram reaches the stream of its
      sender.  Archive: what is written is listed and read back.
    \<^item> Sockets and TLS: whatever fails, no descriptor, address list or OpenSSL object is lost or freed twice, apart
      from the exception that \<open>createServer_throw_leaks\<close> names; what a host is resolved to is an IPv4 address.
    \<^item> Peer to peer: the answer of the location service becomes the two coordinates.
    \<^item> C: programs against the handles get the results above, and what is given back leaves nothing; a UDP stream
      lives exactly as long as somebody points to it.
    \<^item> Each theory ends with what the model shows the code to do wrong, as lemmas.

  \<^bold>\<open>Bounds and fuel.\<close>  Loops with a bound in the data are structural recursion.  Fuel bounds the loops that wait for
  something outside: the retries of \<open>SSL_read\<close> and \<open>SSL_write\<close>, what a peer sends while its connection is
  closed (one more round than bytes is enough: \<open>drain_ends\<close>), the bytes of a line, redirections (one more
  than redirections), the depth of \<open>Serial\<close>'s calls to itself (\<open>0\<close> is enough where there is no bit stream,
  and no depth where the recursion is endless), the entries of an archive read byte by byte (one more than
  bytes).  Sizes below \<open>2 ^ 31\<close> are hypotheses where the code casts to \<open>int\<close>.

  \<^bold>\<open>Not modelled.\<close>  The Windows branches of the stream buffers, clients and servers, the data races on the tables
  of the TCP server and of the asynchronous client, whose operations on a table are taken as atomic, what is printed on standard output and
  error, platform.hpp, which only includes system headers, and the functions declared but defined nowhere
  (\<open>SSLUpgrade\<close>, and \<open>upgradeSSL\<close>, an argument of the C function that calls it).
\<close>

end
